(* ===== verification/Prelude.thy ===== *)
theory Prelude
  imports Main "HOL-Library.Word" "HOL-Library.Monad_Syntax"
begin

text \<open>
  The parts of C and of its standard library that the agent and the CLI client use, and the
  lemmas that the components share.

  \<^item> A C string is a \<^typ>\<open>string\<close> without NUL; a \<open>char*\<close> that may be NULL is a
    \<^typ>\<open>string option\<close>.  A fixed buffer is a \<^typ>\<open>char list\<close> of its size and
    is read back with \<open>c_string\<close>.
  \<^item> \<open>malloc\<close>, \<open>calloc\<close> and \<open>strdup\<close> may fail.  An operation that allocates takes a
    predicate of type \<open>alloc\<close>: a request of \<open>n\<close> bytes made during the call succeeds
    exactly when the predicate holds of \<open>n\<close>; \<open>mem_ok\<close> is the allocator that never fails.
  \<^item> Accesses to a heap block go through \<open>mem_read\<close>, \<open>mem_write\<close> and \<open>mem_fill\<close>,
    which return \<^const>\<open>None\<close> when the access leaves the block: undefined behaviour is a
    value, and memory safety is a theorem that \<^const>\<open>None\<close> is never returned.
  \<^item> The \<open>ctype.h\<close> predicates are those of the "C" locale (the programs never call
    \<open>setlocale\<close>); \<open>strtol\<close> is base 10 with the 64-bit range of \<open>long\<close>.
\<close>

named_theorems mem_simps \<open>rules for checked accesses to heap blocks\<close>
named_theorems cstr_simps \<open>rules for C strings and their buffers\<close>

type_synonym byte = "8 word"
type_synonym alloc = "nat \<Rightarrow> bool"

abbreviation mem_ok :: alloc where
  "mem_ok \<equiv> \<lambda>_. True"

abbreviation code :: "char \<Rightarrow> nat" where
  "code c \<equiv> of_char c"

abbreviation NUL :: char where
  "NUL \<equiv> CHR 0x00"

section \<open>Characters and strings\<close>

definition isdigit :: "char \<Rightarrow> bool" where
  "isdigit c \<longleftrightarrow> 48 \<le> code c \<and> code c \<le> 57"

definition isspace :: "char \<Rightarrow> bool" where
  "isspace c \<longleftrightarrow> code c = 32 \<or> (9 \<le> code c \<and> code c \<le> 13)"

definition isalnum :: "char \<Rightarrow> bool" where
  "isalnum c \<longleftrightarrow> isdigit c \<or> (65 \<le> code c \<and> code c \<le> 90) \<or> (97 \<le> code c \<and> code c \<le> 122)"

definition isprint :: "char \<Rightarrow> bool" where
  "isprint c \<longleftrightarrow> 32 \<le> code c \<and> code c \<le> 126"

definition c_string :: "char list \<Rightarrow> string" where
  "c_string buf = takeWhile (\<lambda>c. c \<noteq> NUL) buf"

text \<open>\<open>strncpy(dst, s, size - 1); dst[size - 1] = 0\<close> leaves the first \<open>size - 1\<close> bytes.\<close>

definition strncpy_term :: "nat \<Rightarrow> string \<Rightarrow> string" where
  "strncpy_term n s = take (n - 1) s"

definition strdup :: "alloc \<Rightarrow> string \<Rightarrow> string option" where
  "strdup al s = (if al (length s + 1) then Some s else None)"

text \<open>\<open>strchr(s, c)\<close>: the text before the first \<open>c\<close>, and the text after it if there is one.\<close>

definition split_char :: "char \<Rightarrow> string \<Rightarrow> string \<times> string option" where
  "split_char c s =
     (takeWhile (\<lambda>x. x \<noteq> c) s,
      case dropWhile (\<lambda>x. x \<noteq> c) s of [] \<Rightarrow> None | _ # r \<Rightarrow> Some r)"

fun strtol_digits :: "int \<Rightarrow> string \<Rightarrow> int \<times> string" where
  "strtol_digits acc [] = (acc, [])"
| "strtol_digits acc (c # cs) =
     (if isdigit c then strtol_digits (acc * 10 + (int (code c) - 48)) cs else (acc, c # cs))"

definition clamp_long :: "int \<Rightarrow> int" where
  "clamp_long v = max (- (2 ^ 63)) (min (2 ^ 63 - 1) v)"

text \<open>\<open>strstr(s, t)\<close>: the text before the first occurrence of \<open>t\<close>, and the text after it.\<close>

fun strstr :: "string \<Rightarrow> string \<Rightarrow> (string \<times> string) option" where
  "strstr [] t = (if t = [] then Some ([], []) else None)"
| "strstr (c # cs) t =
     (if take (length t) (c # cs) = t then Some ([], drop (length t) (c # cs))
      else map_option (\<lambda>(p, r). (c # p, r)) (strstr cs t))"

definition tolower :: "char \<Rightarrow> char" where
  "tolower c = (if 65 \<le> code c \<and> code c \<le> 90 then char_of (code c + 32) else c)"

text \<open>
  \<open>strtol(s, &end, 10)\<close>: \<^const>\<open>None\<close> when no conversion is possible (\<open>end = s\<close>, value 0),
  otherwise the value and the text at \<open>end\<close>.
\<close>

definition strtol :: "string \<Rightarrow> (int \<times> string) option" where
  "strtol s =
     (let t = dropWhile isspace s;
          neg = (t \<noteq> [] \<and> hd t = CHR ''-'');
          u = (if t \<noteq> [] \<and> (hd t = CHR ''-'' \<or> hd t = CHR ''+'') then tl t else t)
      in if u \<noteq> [] \<and> isdigit (hd u)
         then (let (v, r) = strtol_digits 0 u in Some (clamp_long (if neg then - v else v), r))
         else None)"

text \<open>\<open>atoi(s)\<close> is \<open>(int) strtol(s, NULL, 10)\<close>: the conversion keeps the low 32 bits.\<close>

definition atoi :: "string \<Rightarrow> int" where
  "atoi s = (case strtol s of None \<Rightarrow> 0 | Some (v, _) \<Rightarrow> sint (word_of_int v :: 32 word))"

text \<open>\<open>"%u"\<close> and \<open>"%d"\<close> on a non-negative number.\<close>

fun decimal :: "nat \<Rightarrow> string" where
  "decimal n =
     (if n < 10 then [char_of (48 + n)] else decimal (n div 10) @ [char_of (48 + n mod 10)])"

declare decimal.simps [simp del]

section \<open>Heap blocks\<close>

definition mem_read :: "'a list \<Rightarrow> nat \<Rightarrow> nat \<Rightarrow> 'a list option" where
  "mem_read xs off n = (if off + n \<le> length xs then Some (take n (drop off xs)) else None)"

definition mem_write :: "'a list \<Rightarrow> nat \<Rightarrow> 'a list \<Rightarrow> 'a list option" where
  "mem_write xs off ys =
     (if off + length ys \<le> length xs
      then Some (take off xs @ ys @ drop (off + length ys) xs) else None)"

definition mem_fill :: "'a list \<Rightarrow> nat \<Rightarrow> nat \<Rightarrow> 'a \<Rightarrow> 'a list option" where
  "mem_fill xs off n v = mem_write xs off (replicate n v)"

text \<open>\<open>xs[i]\<close> with an index of type \<open>int\<close>.\<close>

definition array_get :: "'a list \<Rightarrow> int \<Rightarrow> 'a option" where
  "array_get xs i = (if 0 \<le> i \<and> i < int (length xs) then Some (xs ! nat i) else None)"

text \<open>Addition of two values of type \<open>int\<close>: overflow is undefined behaviour.\<close>

definition INT_MAX :: int where
  "INT_MAX = 2147483647"

definition c_add :: "int \<Rightarrow> int \<Rightarrow> int option" where
  "c_add a b = (if - INT_MAX - 1 \<le> a + b \<and> a + b \<le> INT_MAX then Some (a + b) else None)"

section \<open>Byte order\<close>

definition be32 :: "32 word \<Rightarrow> byte list" where
  "be32 w = [ucast (drop_bit 24 w), ucast (drop_bit 16 w), ucast (drop_bit 8 w), ucast w]"

definition le32 :: "32 word \<Rightarrow> byte list" where
  "le32 w = rev (be32 w)"

fun from_be32 :: "byte list \<Rightarrow> 32 word" where
  "from_be32 (a # b # c # d # _) =
     or (push_bit 24 (ucast a)) (or (push_bit 16 (ucast b)) (or (push_bit 8 (ucast c)) (ucast d)))"
| "from_be32 _ = 0"

definition byte_of_char :: "char \<Rightarrow> byte" where
  "byte_of_char c = word_of_nat (code c)"

section \<open>Loops over a buffer\<close>

text \<open>A loop \<open>for (i = 0; i < len; i++)\<close> whose body may run into undefined behaviour.\<close>

fun fold_opt :: "('s \<Rightarrow> 'b \<Rightarrow> 's option) \<Rightarrow> 's \<Rightarrow> 'b list \<Rightarrow> 's option" where
  "fold_opt f s [] = Some s"
| "fold_opt f s (b # bs) = f s b \<bind> (\<lambda>s'. fold_opt f s' bs)"

section \<open>Lemmas on loops\<close>

lemma fold_opt_append: "fold_opt f s (xs @ ys) = fold_opt f s xs \<bind> (\<lambda>s'. fold_opt f s' ys)"
  by (induction xs arbitrary: s) (auto simp: bind_assoc)

text \<open>
  The contract of a loop body that consumes one element at a time: it keeps an invariant and
  never faults.  A client may then run it over any buffer, in any chunks.
\<close>

locale byte_machine =
  fixes step :: "'s \<Rightarrow> 'b \<Rightarrow> 's option"
    and inv :: "'s \<Rightarrow> bool"
  assumes step_safe: "inv s \<Longrightarrow> \<exists>s'. step s b = Some s' \<and> inv s'"
begin

lemma run_safe: "inv s \<Longrightarrow> \<exists>s'. fold_opt step s bs = Some s' \<and> inv s'"
proof (induction bs arbitrary: s)
  case Nil
  then show ?case by simp
next
  case (Cons b bs)
  from step_safe [OF Cons.prems, of b] obtain s1 where s1: "step s b = Some s1" "inv s1"
    by blast
  with Cons.IH [OF s1(2)] show ?case by simp
qed

lemma run_inv: "inv s \<Longrightarrow> fold_opt step s bs = Some s' \<Longrightarrow> inv s'"
  using run_safe [of s bs] by auto

lemma run_chunks:
  assumes "inv s"
  shows "fold_opt step s (concat chunks) = fold_opt (fold_opt step) s chunks"
  using assms
proof (induction chunks arbitrary: s)
  case Nil
  then show ?case by simp
next
  case (Cons c cs)
  from run_safe [OF Cons.prems, of c] obtain s1 where s1: "fold_opt step s c = Some s1" "inv s1"
    by blast
  with Cons.IH [OF s1(2)] show ?case by (simp add: fold_opt_append)
qed

end

section \<open>Lemmas on heap blocks\<close>

lemma mem_write_Some [mem_simps]:
  "off + length ys \<le> length xs \<Longrightarrow>
     mem_write xs off ys = Some (take off xs @ ys @ drop (off + length ys) xs)"
  by (simp add: mem_write_def)

lemma mem_write_eq_Some_iff [mem_simps]:
  "mem_write xs off ys = Some zs \<longleftrightarrow>
     off + length ys \<le> length xs \<and> zs = take off xs @ ys @ drop (off + length ys) xs"
  by (auto simp: mem_write_def)

lemma mem_write_length: "mem_write xs off ys = Some zs \<Longrightarrow> length zs = length xs"
  by (auto simp: mem_write_def split: if_splits)

lemma mem_write_set: "mem_write xs off ys = Some zs \<Longrightarrow> set zs \<subseteq> set xs \<union> set ys"
  by (auto simp: mem_write_def split: if_splits dest: in_set_takeD in_set_dropD)

lemma mem_write_nth:
  assumes "mem_write xs off ys = Some zs" and "i < length xs"
  shows "zs ! i = (if off \<le> i \<and> i < off + length ys then ys ! (i - off) else xs ! i)"
  using assms by (auto simp: mem_write_def nth_append split: if_splits)

lemma mem_fill_Some [mem_simps]:
  "off + n \<le> length xs \<Longrightarrow>
     mem_fill xs off n v = Some (take off xs @ replicate n v @ drop (off + n) xs)"
  by (simp add: mem_fill_def mem_write_def)

lemma mem_fill_None_iff: "mem_fill xs off n v = None \<longleftrightarrow> length xs < off + n"
  by (auto simp: mem_fill_def mem_write_def)

lemma mem_fill_length: "mem_fill xs off n v = Some zs \<Longrightarrow> length zs = length xs"
  by (auto simp: mem_fill_def dest: mem_write_length)

lemma mem_fill_set: "mem_fill xs off n v = Some zs \<Longrightarrow> set zs \<subseteq> insert v (set xs)"
  by (auto simp: mem_fill_def dest!: mem_write_set)

lemma mem_fill_nth:
  assumes "mem_fill xs off n v = Some zs" and "i < length xs"
  shows "zs ! i = (if off \<le> i \<and> i < off + n then v else xs ! i)"
  using mem_write_nth [OF assms(1) [unfolded mem_fill_def] assms(2)] by auto

lemma mem_read_Some [mem_simps]:
  "off + n \<le> length xs \<Longrightarrow> mem_read xs off n = Some (take n (drop off xs))"
  by (simp add: mem_read_def)

lemma mem_read_eq_Some_iff:
  "mem_read xs off n = Some ys \<longleftrightarrow> off + n \<le> length xs \<and> ys = take n (drop off xs)"
  by (auto simp: mem_read_def)

lemma array_get_Some [mem_simps]: "0 \<le> i \<Longrightarrow> i < int (length xs) \<Longrightarrow> array_get xs i = Some (xs ! nat i)"
  by (simp add: array_get_def)

lemma array_get_eq_Some_iff:
  "array_get xs i = Some x \<longleftrightarrow> 0 \<le> i \<and> i < int (length xs) \<and> x = xs ! nat i"
  by (auto simp: array_get_def)

lemma c_add_Some [mem_simps]:
  "- INT_MAX - 1 \<le> a + b \<Longrightarrow> a + b \<le> INT_MAX \<Longrightarrow> c_add a b = Some (a + b)"
  by (simp add: c_add_def)

lemma c_add_eq_Some: "c_add a b = Some c \<Longrightarrow> c = a + b"
  by (simp add: c_add_def split: if_splits)

text \<open>Row-major addressing: the cells of row \<open>r\<close> of an \<open>m \<times> n\<close> block lie inside the block.\<close>

lemma row_major_bound:
  fixes r c m n :: nat
  assumes "r < m" and "c < n"
  shows "r * n + c < m * n"
proof -
  have "r * n + c < r * n + n" using assms(2) by simp
  also have "\<dots> = (r + 1) * n" by simp
  also have "\<dots> \<le> m * n" using assms(1) by (intro mult_le_mono1) simp
  finally show ?thesis .
qed

lemma row_major_range:
  fixes r c k m n :: nat
  assumes "r < m" and "c + k \<le> n"
  shows "r * n + c + k \<le> m * n"
proof -
  have "r * n + c + k \<le> (r + 1) * n" using assms(2) by simp
  also have "\<dots> \<le> m * n" using assms(1) by (intro mult_le_mono1) simp
  finally show ?thesis .
qed

lemma row_major_inj:
  fixes r c r' c' n :: nat
  assumes "c < n" and "c' < n"
  shows "r * n + c = r' * n + c' \<longleftrightarrow> r = r' \<and> c = c'"
proof
  assume eq: "r * n + c = r' * n + c'"
  have "r = (r * n + c) div n" using assms(1) by simp
  also have "\<dots> = (r' * n + c') div n" by (simp only: eq)
  also have "\<dots> = r'" using assms(2) by simp
  finally have "r = r'" .
  with eq show "r = r' \<and> c = c'" by simp
qed simp

section \<open>Lemmas on C strings\<close>

lemma c_string_no_NUL [cstr_simps]: "NUL \<notin> set (c_string buf)"
  by (auto simp: c_string_def dest: set_takeWhileD)

lemma c_string_id [cstr_simps]: "NUL \<notin> set s \<Longrightarrow> c_string s = s"
  by (auto simp: c_string_def takeWhile_eq_all_conv)

lemma c_string_append_NUL [cstr_simps]: "NUL \<notin> set s \<Longrightarrow> c_string (s @ NUL # t) = s"
  by (induction s) (auto simp: c_string_def)

lemma length_c_string_le: "length (c_string buf) \<le> length buf"
  by (simp add: c_string_def length_takeWhile_le)

lemma strncpy_term_length [cstr_simps]: "0 < n \<Longrightarrow> length (strncpy_term n s) < n"
  by (simp add: strncpy_term_def)

lemma strncpy_term_id [cstr_simps]: "length s < n \<Longrightarrow> strncpy_term n s = s"
  by (simp add: strncpy_term_def)

lemma strncpy_term_idem [simp]: "strncpy_term n (strncpy_term n s) = strncpy_term n s"
  by (simp add: strncpy_term_def)

lemma strdup_mem_ok [simp]: "strdup mem_ok s = Some s"
  by (simp add: strdup_def)

lemma strdup_eq_Some: "strdup al s = Some t \<Longrightarrow> t = s"
  by (simp add: strdup_def split: if_splits)

lemma strstr_eq_Some: "strstr s t = Some (p, r) \<Longrightarrow> s = p @ t @ r"
proof (induction s arbitrary: p)
  case Nil
  then show ?case by (simp split: if_splits)
next
  case (Cons c cs)
  show ?case
  proof (cases "take (length t) (c # cs) = t")
    case True
    with Cons.prems have "p = []" "r = drop (length t) (c # cs)" by simp_all
    with True show ?thesis using append_take_drop_id [of "length t" "c # cs"] by simp
  next
    case False
    with Cons.prems obtain p' where "strstr cs t = Some (p', r)" "p = c # p'" by auto
    with Cons.IH show ?thesis by simp
  qed
qed

lemma split_char_length:
  "split_char c s = (a, Some r) \<Longrightarrow> length r < length s"
proof -
  assume "split_char c s = (a, Some r)"
  then obtain x where "dropWhile (\<lambda>x. x \<noteq> c) s = x # r"
    by (auto simp: split_char_def split: list.splits)
  then have "length (x # r) \<le> length s" by (metis length_dropWhile_le)
  then show ?thesis by simp
qed

lemma split_char_found:
  assumes "c \<notin> set a"
  shows "split_char c (a @ c # r) = (a, Some r)"
  using assms by (induction a) (auto simp: split_char_def)

lemma split_char_absent: "c \<notin> set a \<Longrightarrow> split_char c a = (a, None)"
  by (induction a) (auto simp: split_char_def)

section \<open>Lemmas on decimal numbers\<close>

definition digit_value :: "char \<Rightarrow> int" where
  "digit_value c = int (code c) - 48"

lemma digit_char: "n < 10 \<Longrightarrow> isdigit (char_of (48 + n)) \<and> digit_value (char_of (48 + n)) = int n"
  by (simp add: isdigit_def digit_value_def)

lemma strtol_digits_app:
  assumes "\<forall>c \<in> set ds. isdigit c" and "r = [] \<or> \<not> isdigit (hd r)"
  shows "strtol_digits acc (ds @ r) = (foldl (\<lambda>a c. a * 10 + digit_value c) acc ds, r)"
  using assms by (induction ds arbitrary: acc) (cases r; simp add: digit_value_def)+

lemma decimal_digits: "\<forall>c \<in> set (decimal n). isdigit c"
proof (induction n rule: decimal.induct)
  case (1 n)
  then show ?case using digit_char [of n] digit_char [of "n mod 10"] by (subst decimal.simps) auto
qed

lemma decimal_not_empty [simp]: "decimal n \<noteq> []"
  by (subst decimal.simps) simp

lemma decimal_value: "foldl (\<lambda>a c. a * 10 + digit_value c) 0 (decimal n) = int n"
proof (induction n rule: decimal.induct)
  case (1 n)
  show ?case
  proof (cases "n < 10")
    case True
    then show ?thesis using digit_char [of n] by (subst decimal.simps) simp
  next
    case False
    have "int (n div 10) * 10 + int (n mod 10) = int n"
      by (metis div_mult_mod_eq of_nat_add of_nat_mult of_nat_numeral)
    with False 1 [OF False] digit_char [of "n mod 10"] show ?thesis by (subst decimal.simps) simp
  qed
qed

lemma strtol_decimal:
  assumes "r = [] \<or> \<not> isdigit (hd r)" and "n < 2 ^ 63"
  shows "strtol (decimal n @ r) = Some (int n, r)"
proof -
  obtain c cs where d: "decimal n = c # cs" by (meson decimal_not_empty neq_Nil_conv)
  then have c: "isdigit c" using decimal_digits [of n] by simp
  then have "\<not> isspace c" "c \<noteq> CHR ''-''" "c \<noteq> CHR ''+''" by (auto simp: isdigit_def isspace_def)
  moreover have "clamp_long (int n) = int n" using assms(2) by (simp add: clamp_long_def)
  ultimately show ?thesis
    using strtol_digits_app [OF decimal_digits [of n] assms(1), of 0] decimal_value [of n] c
    by (simp add: strtol_def d)
qed

lemma atoi_decimal: "n < 2 ^ 31 \<Longrightarrow> atoi (decimal n) = int n"
proof -
  assume n: "n < 2 ^ 31"
  then have "strtol (decimal n) = Some (int n, [])" using strtol_decimal [of "[]" n] by simp
  moreover have "sint (word_of_int (int n) :: 32 word) = int n"
    using n by (simp add: signed_of_nat signed_take_bit_int_eq_self)
  ultimately show ?thesis by (simp add: atoi_def)
qed

lemma decimal_no_char: "\<not> isdigit c \<Longrightarrow> c \<notin> set (decimal n)"
  using decimal_digits by blast

section \<open>Lemmas on byte order\<close>

lemma length_be32 [simp]: "length (be32 w) = 4"
  by (simp add: be32_def)

lemma length_le32 [simp]: "length (le32 w) = 4"
  by (simp add: le32_def)

lemma from_be32_be32 [simp]: "from_be32 (be32 w @ rest) = w"
proof (rule bit_word_eqI)
  fix n assume n: "n < LENGTH(32)"
  then have n32: "n < 32" by simp
  show "bit (from_be32 (be32 w @ rest)) n = bit w n"
    using n32
    by (cases "n < 8"; cases "n < 16"; cases "n < 24")
       (auto simp: be32_def bit_or_iff bit_push_bit_iff bit_ucast_iff bit_drop_bit_eq)
qed

lemma code_less_256 [simp]: "code c < 256"
  by (rule nat_of_char_less_256)

end
