(* ===== verification/Prompt.thy ===== *)
theory Prompt
  imports Prelude
begin

text \<open>
  Prompt instances (\<open>agent/src/tmuxremote_prompt.c\<close> and \<open>.h\<close>): the value that travels
  from the detector to the control streams.

  The action array is the list of its 16 entries, together with \<open>action_count\<close>; the
  invariant \<open>inst_ok\<close> (16 entries, count between 0 and 16) makes every index of the loops an
  index of the array.  The 32-byte buffer \<open>instance_id\<close> is the C string it holds.  The NULL
  tests on the struct pointers themselves have no counterpart: every caller passes an object.
\<close>

definition TMUXREMOTE_PROMPT_MAX_ACTIONS :: nat where
  "TMUXREMOTE_PROMPT_MAX_ACTIONS = 16"

definition TMUXREMOTE_PROMPT_INSTANCE_ID_MAX :: nat where
  "TMUXREMOTE_PROMPT_INSTANCE_ID_MAX = 32"

datatype prompt_type = YES_NO | NUMBERED_MENU | ACCEPT_REJECT

record prompt_action =
  pa_label :: "string option"
  pa_keys :: "string option"

record prompt_instance =
  pi_instance_id :: string
  pi_pattern_id :: "string option"
  pi_pattern_type :: prompt_type
  pi_prompt :: "string option"
  pi_actions :: "prompt_action list"
  pi_action_count :: int
  pi_revision :: "32 word"
  pi_anchor_row :: int

datatype prompt_event_type = PRESENT | UPDATE | GONE

definition null_action :: prompt_action where
  "null_action = \<lparr>pa_label = None, pa_keys = None\<rparr>"

definition tmuxremote_prompt_instance_reset :: prompt_instance where
  "tmuxremote_prompt_instance_reset =
     \<lparr>pi_instance_id = [], pi_pattern_id = None, pi_pattern_type = YES_NO, pi_prompt = None,
      pi_actions = replicate TMUXREMOTE_PROMPT_MAX_ACTIONS null_action, pi_action_count = 0,
      pi_revision = 0, pi_anchor_row = 0\<rparr>"

definition tmuxremote_prompt_instance_free :: "prompt_instance \<Rightarrow> prompt_instance" where
  "tmuxremote_prompt_instance_free i =
     i\<lparr>pi_pattern_id := None, pi_prompt := None,
       pi_actions := replicate (nat (pi_action_count i)) null_action @
                     drop (nat (pi_action_count i)) (pi_actions i),
       pi_action_count := 0, pi_revision := 0, pi_anchor_row := 0, pi_instance_id := []\<rparr>"

text \<open>
  \<open>if (src != NULL) { dst = strdup(src); if (dst == NULL) fail }\<close>: \<^const>\<open>None\<close> is the
  failure, and a NULL source leaves the destination as it is.
\<close>

definition copy_string :: "alloc \<Rightarrow> string option \<Rightarrow> string option \<Rightarrow> string option option" where
  "copy_string al src dst =
     (case src of None \<Rightarrow> Some dst
      | Some s \<Rightarrow> (case strdup al s of None \<Rightarrow> None | Some d \<Rightarrow> Some (Some d)))"

text \<open>
  The loop over the actions from index \<open>i\<close>, with \<open>n\<close> of them left: \<^const>\<open>False\<close> when an
  allocation fails, with what was copied until then.
\<close>

fun copy_actions :: "alloc \<Rightarrow> prompt_action list \<Rightarrow> nat \<Rightarrow> nat \<Rightarrow> prompt_action list
    \<Rightarrow> bool \<times> prompt_action list" where
  "copy_actions al src i 0 dst = (True, dst)"
| "copy_actions al src i (Suc n) dst =
     (case copy_string al (pa_label (src ! i)) (pa_label (dst ! i)) of
        None \<Rightarrow> (False, dst[i := (dst ! i)\<lparr>pa_label := None\<rparr>])
      | Some l \<Rightarrow>
          (let dst1 = dst[i := (dst ! i)\<lparr>pa_label := l\<rparr>]
           in case copy_string al (pa_keys (src ! i)) (pa_keys (dst1 ! i)) of
                None \<Rightarrow> (False, dst1[i := (dst1 ! i)\<lparr>pa_keys := None\<rparr>])
              | Some k \<Rightarrow>
                  copy_actions al src (i + 1) n (dst1[i := (dst1 ! i)\<lparr>pa_keys := k\<rparr>])))"

definition tmuxremote_prompt_instance_copy ::
  "alloc \<Rightarrow> prompt_instance \<Rightarrow> prompt_instance \<Rightarrow> bool \<times> prompt_instance" where
  "tmuxremote_prompt_instance_copy al src dst0 =
     (let dst = tmuxremote_prompt_instance_free dst0
      in case copy_string al (pi_pattern_id src) (pi_pattern_id dst) of
           None \<Rightarrow> (False, tmuxremote_prompt_instance_free dst)
         | Some pid \<Rightarrow>
             (let dst = dst\<lparr>pi_pattern_id := pid\<rparr>
              in case copy_string al (pi_prompt src) (pi_prompt dst) of
                   None \<Rightarrow> (False, tmuxremote_prompt_instance_free dst)
                 | Some p \<Rightarrow>
                     (let dst = dst\<lparr>pi_prompt := p\<rparr>;
                          n = (if pi_action_count src > int TMUXREMOTE_PROMPT_MAX_ACTIONS
                               then int TMUXREMOTE_PROMPT_MAX_ACTIONS else pi_action_count src);
                          (ok, as) = copy_actions al (pi_actions src) 0 (nat n) (pi_actions dst);
                          dst = dst\<lparr>pi_actions := as\<rparr>
                      in if \<not> ok then (False, tmuxremote_prompt_instance_free dst)
                         else (True, dst\<lparr>pi_action_count := n,
                                         pi_pattern_type := pi_pattern_type src,
                                         pi_revision := pi_revision src,
                                         pi_anchor_row := pi_anchor_row src,
                                         pi_instance_id :=
                                           strncpy_term TMUXREMOTE_PROMPT_INSTANCE_ID_MAX
                                             (pi_instance_id src)\<rparr>))))"

definition strings_equal :: "string option \<Rightarrow> string option \<Rightarrow> bool" where
  "strings_equal a b =
     (case (a, b) of (None, None) \<Rightarrow> True | (Some x, Some y) \<Rightarrow> x = y | _ \<Rightarrow> False)"

fun same_actions :: "nat \<Rightarrow> prompt_action list \<Rightarrow> prompt_action list \<Rightarrow> nat \<Rightarrow> bool" where
  "same_actions i a b 0 = True"
| "same_actions i a b (Suc n) =
     (if \<not> strings_equal (pa_label (a ! i)) (pa_label (b ! i)) then False
      else if \<not> strings_equal (pa_keys (a ! i)) (pa_keys (b ! i)) then False
      else same_actions (i + 1) a b n)"

definition tmuxremote_prompt_instance_same_semantics ::
  "prompt_instance \<Rightarrow> prompt_instance \<Rightarrow> bool" where
  "tmuxremote_prompt_instance_same_semantics a b =
     (if \<not> strings_equal (pi_pattern_id a) (pi_pattern_id b) then False
      else if pi_pattern_type a \<noteq> pi_pattern_type b then False
      else if \<not> strings_equal (pi_prompt a) (pi_prompt b) then False
      else if pi_action_count a \<noteq> pi_action_count b then False
      else if \<not> same_actions 0 (pi_actions a) (pi_actions b) (nat (pi_action_count a)) then False
      else if pi_anchor_row a \<noteq> pi_anchor_row b then False
      else True)"

section \<open>Invariant and the meaning of equality\<close>

definition inst_ok :: "prompt_instance \<Rightarrow> bool" where
  "inst_ok i \<longleftrightarrow> length (pi_actions i) = TMUXREMOTE_PROMPT_MAX_ACTIONS \<and>
     0 \<le> pi_action_count i \<and> pi_action_count i \<le> int TMUXREMOTE_PROMPT_MAX_ACTIONS \<and>
     length (pi_instance_id i) < TMUXREMOTE_PROMPT_INSTANCE_ID_MAX"

definition visible_actions :: "prompt_instance \<Rightarrow> prompt_action list" where
  "visible_actions i = take (nat (pi_action_count i)) (pi_actions i)"

text \<open>An instance as the detector builds it: every visible action has a label and keys.\<close>

definition inst_full :: "prompt_instance \<Rightarrow> bool" where
  "inst_full i \<longleftrightarrow> (\<forall>a \<in> set (visible_actions i). pa_label a \<noteq> None \<and> pa_keys a \<noteq> None)"

lemmas prompt_consts [simp] =
  TMUXREMOTE_PROMPT_MAX_ACTIONS_def TMUXREMOTE_PROMPT_INSTANCE_ID_MAX_def

lemma inst_okD:
  assumes "inst_ok i"
  shows "length (pi_actions i) = 16" "nat (pi_action_count i) \<le> 16" "0 \<le> pi_action_count i"
    "pi_action_count i \<le> 16" "length (pi_instance_id i) < 32"
    "length (visible_actions i) = nat (pi_action_count i)"
  using assms by (auto simp: inst_ok_def visible_actions_def)

lemma inst_ok_reset [simp]: "inst_ok tmuxremote_prompt_instance_reset"
  by (simp add: inst_ok_def tmuxremote_prompt_instance_reset_def)

lemma inst_ok_free [simp]: "inst_ok i \<Longrightarrow> inst_ok (tmuxremote_prompt_instance_free i)"
  by (auto simp: inst_ok_def tmuxremote_prompt_instance_free_def)

lemma free_sel [simp]:
  "pi_pattern_id (tmuxremote_prompt_instance_free i) = None"
  "pi_prompt (tmuxremote_prompt_instance_free i) = None"
  "pi_action_count (tmuxremote_prompt_instance_free i) = 0"
  "pi_instance_id (tmuxremote_prompt_instance_free i) = []"
  by (simp_all add: tmuxremote_prompt_instance_free_def)

lemma strings_equal_iff [simp]: "strings_equal a b \<longleftrightarrow> a = b"
  by (auto simp: strings_equal_def split: option.splits)

lemma same_actions_iff:
  assumes "i + n \<le> length a" and "i + n \<le> length b"
  shows "same_actions i a b n \<longleftrightarrow> take n (drop i a) = take n (drop i b)"
  using assms
proof (induction n arbitrary: i)
  case 0
  then show ?case by simp
next
  case (Suc n)
  have a: "drop i a = a ! i # drop (Suc i) a" and b: "drop i b = b ! i # drop (Suc i) b"
    using Suc.prems by (simp_all add: Cons_nth_drop_Suc)
  have "a ! i = b ! i \<longleftrightarrow> pa_label (a ! i) = pa_label (b ! i) \<and> pa_keys (a ! i) = pa_keys (b ! i)"
    by auto
  then show ?case using Suc.IH [of "i + 1"] Suc.prems by (simp add: a b)
qed

text \<open>
  The comparison decides equality of everything but the identity and the revision: the fields
  that the instance identity is computed from.
\<close>

lemma same_semantics_iff:
  assumes "inst_ok a" and "inst_ok b"
  shows "tmuxremote_prompt_instance_same_semantics a b \<longleftrightarrow>
     pi_pattern_id a = pi_pattern_id b \<and> pi_pattern_type a = pi_pattern_type b \<and>
     pi_prompt a = pi_prompt b \<and> visible_actions a = visible_actions b \<and>
     pi_anchor_row a = pi_anchor_row b"
proof -
  note a = inst_okD [OF assms(1)] and b = inst_okD [OF assms(2)]
  have count: "visible_actions a = visible_actions b \<Longrightarrow> pi_action_count a = pi_action_count b"
    using arg_cong [where f = length, of "visible_actions a" "visible_actions b"] a b by simp
  have "same_actions 0 (pi_actions a) (pi_actions b) (nat (pi_action_count a)) \<longleftrightarrow>
      visible_actions a = visible_actions b" if "pi_action_count a = pi_action_count b"
    using same_actions_iff [of 0 "nat (pi_action_count a)" "pi_actions a" "pi_actions b"] a b that
    by (simp add: visible_actions_def)
  with count show ?thesis
    by (auto simp: tmuxremote_prompt_instance_same_semantics_def)
qed

section \<open>Copying\<close>

lemma copy_string_mem_ok [simp]:
  "copy_string mem_ok s d = Some (case s of None \<Rightarrow> d | Some x \<Rightarrow> Some x)"
  by (cases s) (simp_all add: copy_string_def)

lemma copy_actions_length: "copy_actions al src i n dst = (ok, as) \<Longrightarrow> length as = length dst"
  by (induction al src i n dst rule: copy_actions.induct)
     (auto simp: Let_def split: option.splits)

lemma copy_actions_mem_ok:
  assumes "i + n \<le> length src" and "i + n \<le> length dst"
    and "\<forall>a \<in> set (take n (drop i src)). pa_label a \<noteq> None \<and> pa_keys a \<noteq> None"
  shows "copy_actions mem_ok src i n dst =
     (True, take i dst @ take n (drop i src) @ drop (i + n) dst)"
  using assms
proof (induction n arbitrary: i dst)
  case 0
  then show ?case by simp
next
  case (Suc n)
  have src: "drop i src = src ! i # drop (Suc i) src" using Suc.prems by (simp add: Cons_nth_drop_Suc)
  have i: "i < length dst" using Suc.prems by simp
  let ?d = "dst[i := src ! i]"
  from src Suc.prems(3) obtain l k
    where lk: "pa_label (src ! i) = Some l" "pa_keys (src ! i) = Some k" by auto
  then have upd: "(dst ! i)\<lparr>pa_label := Some l, pa_keys := Some k\<rparr> = src ! i"
    by (intro prompt_action.equality) simp_all
  have step: "copy_actions mem_ok src i (Suc n) dst = copy_actions mem_ok src (i + 1) n ?d"
    using i by (simp add: Let_def lk upd)
  have "copy_actions mem_ok src (i + 1) n ?d =
      (True, take (i + 1) ?d @ take n (drop (i + 1) src) @ drop (i + 1 + n) ?d)"
    using Suc.prems src by (intro Suc.IH) auto
  moreover have "take (i + 1) ?d = take i dst @ [src ! i]"
    using i by (simp add: take_Suc_conv_app_nth)
  ultimately show ?case unfolding step using src by simp
qed

lemma inst_ok_upd:
  "inst_ok i \<Longrightarrow> inst_ok (i\<lparr>pi_pattern_id := x\<rparr>)"
  "inst_ok i \<Longrightarrow> inst_ok (i\<lparr>pi_prompt := x\<rparr>)"
  "inst_ok i \<Longrightarrow> length as = 16 \<Longrightarrow> inst_ok (i\<lparr>pi_actions := as\<rparr>)"
  "inst_ok i \<Longrightarrow> 0 \<le> n \<Longrightarrow> n \<le> 16 \<Longrightarrow> inst_ok (i\<lparr>pi_action_count := n, pi_pattern_type := t,
     pi_revision := r, pi_anchor_row := w, pi_instance_id := strncpy_term 32 s\<rparr>)"
  by (simp_all add: inst_ok_def strncpy_term_def)

lemma copy_ok_inst:
  assumes src: "inst_ok src" and dst: "inst_ok dst"
  shows "inst_ok (snd (tmuxremote_prompt_instance_copy al src dst))"
proof -
  let ?f = "tmuxremote_prompt_instance_free dst"
  have f: "inst_ok ?f" "length (pi_actions ?f) = 16" using dst inst_okD [of ?f] by simp_all
  have len: "length as = 16" if "copy_actions al (pi_actions src) 0 n (pi_actions ?f) = (ok, as)"
    for n ok as using copy_actions_length [OF that] f by simp
  show ?thesis
    using f len inst_okD [OF src]
    by (simp add: tmuxremote_prompt_instance_copy_def Let_def inst_ok_upd
        split: option.splits prod.splits)
qed

lemma copy_mem_ok:
  assumes src: "inst_ok src" "inst_full src" and dst: "inst_ok dst"
  obtains d where "tmuxremote_prompt_instance_copy mem_ok src dst = (True, d)"
    and "inst_ok d" and "inst_full d" and "visible_actions d = visible_actions src"
    and "pi_instance_id d = pi_instance_id src" and "pi_revision d = pi_revision src"
    and "pi_pattern_id d = pi_pattern_id src" and "pi_pattern_type d = pi_pattern_type src"
    and "pi_prompt d = pi_prompt src" and "pi_anchor_row d = pi_anchor_row src"
    and "pi_action_count d = pi_action_count src"
proof -
  let ?n = "nat (pi_action_count src)"
  let ?f = "tmuxremote_prompt_instance_free dst"
  let ?d = "snd (tmuxremote_prompt_instance_copy mem_ok src dst)"
  have n: "?n \<le> 16" "?n \<le> length (pi_actions src)" "length (pi_actions ?f) = 16"
    using inst_okD [OF src(1)] inst_okD [OF inst_ok_free [OF dst]] by simp_all
  have "copy_actions mem_ok (pi_actions src) 0 ?n (pi_actions ?f) =
      (True, visible_actions src @ drop ?n (pi_actions ?f))"
    using copy_actions_mem_ok [of 0 ?n "pi_actions src" "pi_actions ?f"] src n
    by (simp add: inst_full_def visible_actions_def)
  then have eq: "tmuxremote_prompt_instance_copy mem_ok src dst =
      (True, ?f\<lparr>pi_pattern_id := pi_pattern_id src, pi_prompt := pi_prompt src,
         pi_actions := visible_actions src @ drop ?n (pi_actions ?f),
         pi_action_count := pi_action_count src, pi_pattern_type := pi_pattern_type src,
         pi_revision := pi_revision src, pi_anchor_row := pi_anchor_row src,
         pi_instance_id := pi_instance_id src\<rparr>)"
    using inst_okD [OF src(1)]
    by (simp add: tmuxremote_prompt_instance_copy_def Let_def strncpy_term_def split: option.splits)
  have "length (visible_actions src) = ?n" using n by (simp add: visible_actions_def)
  with eq have "visible_actions ?d = visible_actions src" by (simp add: visible_actions_def)
  with src copy_ok_inst [OF src(1) dst, of mem_ok] eq show ?thesis
    by (intro that [of ?d]) (simp_all add: inst_full_def)
qed

section \<open>Properties\<close>

text \<open>
  A copied prompt is the prompt: when memory is available, copying a well-formed instance
  over any well-formed instance (also one that holds leftovers of an earlier failed copy)
  succeeds, keeps the identity and the revision, and the copy compares equal to the original.
\<close>

theorem prompt_copy_same_semantics:
  assumes "inst_ok src" and "inst_full src" and "inst_ok dst"
  shows "\<exists>d. tmuxremote_prompt_instance_copy mem_ok src dst = (True, d) \<and> inst_ok d \<and>
     tmuxremote_prompt_instance_same_semantics d src \<and>
     pi_instance_id d = pi_instance_id src \<and> pi_revision d = pi_revision src"
proof -
  from copy_mem_ok [OF assms] obtain d
    where d: "tmuxremote_prompt_instance_copy mem_ok src dst = (True, d)" "inst_ok d"
      and eq: "visible_actions d = visible_actions src" "pi_pattern_id d = pi_pattern_id src"
        "pi_pattern_type d = pi_pattern_type src" "pi_prompt d = pi_prompt src"
        "pi_anchor_row d = pi_anchor_row src"
        "pi_instance_id d = pi_instance_id src" "pi_revision d = pi_revision src"
    by metis
  with same_semantics_iff [OF d(2) assms(1)] show ?thesis by simp
qed

theorem prompt_copy_same_semantics_witness:
  "let src = tmuxremote_prompt_instance_reset
       \<lparr>pi_instance_id := ''00ff'', pi_prompt := Some ''Proceed?'',
        pi_actions := \<lparr>pa_label = Some ''Yes'', pa_keys = Some ''y''\<rparr> # replicate 15 null_action,
        pi_action_count := 1, pi_revision := 1\<rparr>
   in \<exists>d. tmuxremote_prompt_instance_copy mem_ok src tmuxremote_prompt_instance_reset = (True, d) \<and>
     inst_ok d \<and> tmuxremote_prompt_instance_same_semantics d src \<and>
     pi_instance_id d = ''00ff'' \<and> pi_revision d = 1"
  using prompt_copy_same_semantics [where src = "tmuxremote_prompt_instance_reset
       \<lparr>pi_instance_id := ''00ff'', pi_prompt := Some ''Proceed?'',
        pi_actions := \<lparr>pa_label = Some ''Yes'', pa_keys = Some ''y''\<rparr> # replicate 15 null_action,
        pi_action_count := 1, pi_revision := 1\<rparr>" and dst = tmuxremote_prompt_instance_reset]
  unfolding Let_def inst_ok_def inst_full_def visible_actions_def
  by (simp add: tmuxremote_prompt_instance_reset_def)

end
