(* ===== verification/Pattern_Config.thy ===== *)
theory Pattern_Config
  imports Prompt "HOL-Library.Multiset" "HOL-Library.List_Lexorder" "HOL-Library.Char_ord"
begin

text \<open>
  Pattern configuration (\<open>agent/src/tmuxremote_pattern_config.c\<close>) and the loading and merging
  of the configuration files (\<open>load_pattern_configs\<close> and its helpers in \<open>agent/src/main.c\<close>).

  A parsed JSON document is a value of type \<open>cjson\<close>; the accessors follow \<open>cJSON.c\<close>
  (\<open>cJSON_GetObjectItem\<close> compares names without regard to case and finds nothing in a
  value that has no members).  The JSON parser itself, the directory listing, the file
  contents and the embedded default document are parameters.  A pair of a heap array and its
  count is the list of the counted entries; the \<open>free\<close> functions only release memory.
\<close>

section \<open>JSON values\<close>

datatype cjson =
    JNull
  | JBool bool
  | JNumber (valueint: int)
  | JString string
  | JArray "cjson list"
  | JObject "(string \<times> cjson) list"

fun cJSON_IsNumber :: "cjson option \<Rightarrow> bool" where
  "cJSON_IsNumber (Some (JNumber _)) = True"
| "cJSON_IsNumber _ = False"

fun cJSON_IsArray :: "cjson option \<Rightarrow> bool" where
  "cJSON_IsArray (Some (JArray _)) = True"
| "cJSON_IsArray _ = False"

fun cJSON_IsObject :: "cjson option \<Rightarrow> bool" where
  "cJSON_IsObject (Some (JObject _)) = True"
| "cJSON_IsObject _ = False"

fun cJSON_GetStringValue :: "cjson option \<Rightarrow> string option" where
  "cJSON_GetStringValue (Some (JString s)) = Some s"
| "cJSON_GetStringValue _ = None"

text \<open>The children of an array or of an object, with their names.\<close>

fun cjson_children :: "cjson option \<Rightarrow> (string option \<times> cjson) list" where
  "cjson_children (Some (JArray xs)) = map (\<lambda>x. (None, x)) xs"
| "cjson_children (Some (JObject ms)) = map (\<lambda>(n, x). (Some n, x)) ms"
| "cjson_children _ = []"

definition case_insensitive_equal :: "string \<Rightarrow> string \<Rightarrow> bool" where
  "case_insensitive_equal a b \<longleftrightarrow> map tolower a = map tolower b"

definition cJSON_GetObjectItem :: "cjson option \<Rightarrow> string \<Rightarrow> cjson option" where
  "cJSON_GetObjectItem j name =
     (case find (\<lambda>(n, _). case n of None \<Rightarrow> False | Some n \<Rightarrow> case_insensitive_equal name n)
             (cjson_children j) of
        None \<Rightarrow> None | Some (_, x) \<Rightarrow> Some x)"

section \<open>Definitions, agents, configurations\<close>

definition TMUXREMOTE_PATTERN_CONFIG_VERSION :: int where
  "TMUXREMOTE_PATTERN_CONFIG_VERSION = 3"

definition TMUXREMOTE_DEFAULT_MAX_SCAN_LINES :: int where
  "TMUXREMOTE_DEFAULT_MAX_SCAN_LINES = 10"

record pattern_action =
  act_label :: "string option"
  act_keys :: "string option"

record pattern_definition =
  pd_id :: "string option"
  pd_type :: prompt_type
  pd_prompt_regex :: "string option"
  pd_option_regex :: "string option"
  pd_actions :: "pattern_action list"
  pd_action_template :: "string option option"
  pd_max_scan_lines :: int

record agent_config =
  ac_id :: "string option"
  ac_name :: "string option"
  ac_patterns :: "pattern_definition list"

record pattern_config =
  pc_version :: int
  pc_agents :: "agent_config list"

definition strdup_safe :: "alloc \<Rightarrow> string option \<Rightarrow> string option" where
  "strdup_safe al s = (case s of None \<Rightarrow> None | Some x \<Rightarrow> strdup al x)"

definition parse_type :: "string option \<Rightarrow> prompt_type \<times> bool" where
  "parse_type s =
     (if s = None then (YES_NO, False)
      else if s = Some ''yes_no'' then (YES_NO, True)
      else if s = Some ''numbered_menu'' then (NUMBERED_MENU, True)
      else if s = Some ''accept_reject'' then (ACCEPT_REJECT, True)
      else (YES_NO, False))"

fun parse_action_items :: "alloc \<Rightarrow> cjson list \<Rightarrow> pattern_action list" where
  "parse_action_items al [] = []"
| "parse_action_items al (action # rest) =
     (let label = strdup_safe al (cJSON_GetStringValue (cJSON_GetObjectItem (Some action) ''label''));
          keys = strdup_safe al (cJSON_GetStringValue (cJSON_GetObjectItem (Some action) ''keys''))
      in if label = None \<or> keys = None then parse_action_items al rest
         else \<lparr>act_label = label, act_keys = keys\<rparr> # parse_action_items al rest)"

definition parse_actions :: "alloc \<Rightarrow> cjson option \<Rightarrow> pattern_action list option" where
  "parse_actions al actions =
     (case actions of
        Some (JArray xs) \<Rightarrow>
          if xs = [] then Some []
          else if \<not> al (length xs * 16) then None
          else Some (parse_action_items al xs)
      | _ \<Rightarrow> Some [])"

definition parse_action_template :: "alloc \<Rightarrow> cjson option \<Rightarrow> string option option option" where
  "parse_action_template al item =
     (let tmpl = cJSON_GetObjectItem item ''action_template''
      in if \<not> cJSON_IsObject tmpl then Some None
         else case cJSON_GetStringValue (cJSON_GetObjectItem tmpl ''keys'') of
                None \<Rightarrow> Some None
              | Some keys \<Rightarrow>
                  if \<not> al 8 then None
                  else (case strdup al keys of None \<Rightarrow> None | Some k \<Rightarrow> Some (Some (Some k))))"

definition parse_definition :: "alloc \<Rightarrow> cjson option \<Rightarrow> pattern_definition option" where
  "parse_definition al item =
     (let id = cJSON_GetStringValue (cJSON_GetObjectItem item ''id'');
          type_string = cJSON_GetStringValue (cJSON_GetObjectItem item ''type'');
          prompt_regex = cJSON_GetStringValue (cJSON_GetObjectItem item ''prompt_regex'');
          option_regex = cJSON_GetStringValue (cJSON_GetObjectItem item ''option_regex'');
          (type, type_ok) = parse_type type_string
      in if id = None \<or> prompt_regex = None \<or> \<not> type_ok then None
         else
           let out_id = strdup_safe al id;
               out_prompt_regex = strdup_safe al prompt_regex;
               out_option_regex = strdup_safe al option_regex
           in if out_id = None \<or> out_prompt_regex = None then None
              else case parse_actions al (cJSON_GetObjectItem item ''actions'') of
                None \<Rightarrow> None
              | Some actions \<Rightarrow>
                  (case parse_action_template al item of
                     None \<Rightarrow> None
                   | Some action_template \<Rightarrow>
                       (let msl = cJSON_GetObjectItem item ''max_scan_lines'';
                            max_scan_lines =
                              (if cJSON_IsNumber msl \<and> valueint (the msl) > 0
                               then valueint (the msl) else TMUXREMOTE_DEFAULT_MAX_SCAN_LINES);
                            out = \<lparr>pd_id = out_id, pd_type = type,
                                   pd_prompt_regex = out_prompt_regex,
                                   pd_option_regex = out_option_regex, pd_actions = actions,
                                   pd_action_template = action_template,
                                   pd_max_scan_lines = max_scan_lines\<rparr>
                        in if type = NUMBERED_MENU
                           then (if action_template = None \<or> action_template = Some None
                                 then None else Some out)
                           else (if actions = [] then None else Some out))))"

fun parse_rules :: "alloc \<Rightarrow> cjson list \<Rightarrow> pattern_definition list" where
  "parse_rules al [] = []"
| "parse_rules al (rule # rest) =
     (case parse_definition al (Some rule) of
        None \<Rightarrow> parse_rules al rest
      | Some parsed \<Rightarrow> parsed # parse_rules al rest)"

fun parse_agents :: "alloc \<Rightarrow> (string option \<times> cjson) list \<Rightarrow> agent_config list" where
  "parse_agents al [] = []"
| "parse_agents al ((agent_id, agent_item) # rest) =
     (case agent_id of
        None \<Rightarrow> parse_agents al rest
      | Some aid \<Rightarrow>
          if \<not> cJSON_IsObject (Some agent_item) then parse_agents al rest
          else
            let id = strdup al aid;
                name = strdup_safe al
                  (cJSON_GetStringValue (cJSON_GetObjectItem (Some agent_item) ''name''));
                rules = cJSON_GetObjectItem (Some agent_item) ''rules'';
                rules_list = (case rules of Some (JArray xs) \<Rightarrow> xs | _ \<Rightarrow> []);
                rules_count = length rules_list
            in if id = None then parse_agents al rest
               else if \<not> al ((if rules_count > 0 then rules_count else 1) * 64)
               then parse_agents al rest
               else \<lparr>ac_id = id, ac_name = name, ac_patterns = parse_rules al rules_list\<rparr>
                    # parse_agents al rest)"

definition tmuxremote_pattern_config_parse ::
  "(string \<Rightarrow> cjson option) \<Rightarrow> alloc \<Rightarrow> string \<Rightarrow> pattern_config option" where
  "tmuxremote_pattern_config_parse cJSON_ParseWithLength al json =
     (case cJSON_ParseWithLength json of
        None \<Rightarrow> None
      | Some root \<Rightarrow>
          (let version = cJSON_GetObjectItem (Some root) ''version'';
               agents_obj = cJSON_GetObjectItem (Some root) ''agents''
           in if \<not> cJSON_IsNumber version \<or>
                 valueint (the version) \<noteq> TMUXREMOTE_PATTERN_CONFIG_VERSION \<or>
                 \<not> cJSON_IsObject agents_obj
              then None
              else if \<not> al 24 then None
              else
                let agent_count = length (cjson_children agents_obj)
                in if \<not> al ((if agent_count > 0 then agent_count else 1) * 32) then None
                   else
                     let agents = parse_agents al (cjson_children agents_obj)
                     in if agents = [] then None
                        else Some \<lparr>pc_version = valueint (the version), pc_agents = agents\<rparr>))"

fun find_agent_in :: "agent_config list \<Rightarrow> string \<Rightarrow> agent_config option" where
  "find_agent_in [] agent_id = None"
| "find_agent_in (a # as) agent_id =
     (if ac_id a = Some agent_id then Some a else find_agent_in as agent_id)"

definition tmuxremote_pattern_config_find_agent ::
  "pattern_config option \<Rightarrow> string option \<Rightarrow> agent_config option" where
  "tmuxremote_pattern_config_find_agent config agent_id =
     (case (config, agent_id) of
        (Some c, Some i) \<Rightarrow> find_agent_in (pc_agents c) i
      | _ \<Rightarrow> None)"

section \<open>Loading and merging the files of the patterns directory\<close>

definition merge_agent_into_config ::
  "alloc \<Rightarrow> pattern_config \<Rightarrow> agent_config \<Rightarrow> pattern_config option" where
  "merge_agent_into_config al merged agent =
     (if ac_id agent = None then None
      else if \<exists>a \<in> set (pc_agents merged). ac_id a \<noteq> None \<and> ac_id a = ac_id agent then None
      else if \<not> al (32 * (length (pc_agents merged) + 1)) then None
      else Some (merged\<lparr>pc_agents := pc_agents merged @ [agent]\<rparr>))"

fun has_duplicate_ids :: "string option list \<Rightarrow> bool" where
  "has_duplicate_ids [] = False"
| "has_duplicate_ids (i # is) =
     (if i = None then True
      else if \<exists>j \<in> set is. j \<noteq> None \<and> i = j then True
      else has_duplicate_ids is)"

definition has_duplicate_pattern_ids :: "agent_config \<Rightarrow> bool" where
  "has_duplicate_pattern_ids agent = has_duplicate_ids (map pd_id (ac_patterns agent))"

fun merge_agents :: "alloc \<Rightarrow> pattern_config \<Rightarrow> agent_config list \<Rightarrow> pattern_config option" where
  "merge_agents al merged [] = Some merged"
| "merge_agents al merged (agent # rest) =
     (if has_duplicate_pattern_ids agent then None
      else case merge_agent_into_config al merged agent of
             None \<Rightarrow> None
           | Some m \<Rightarrow> merge_agents al m rest)"

text \<open>
  What the loop observes of a file: \<^const>\<open>None\<close> when \<open>fopen\<close> fails, otherwise the size
  \<open>ftell\<close> reports and the bytes \<open>fread\<close> delivers.
\<close>

type_synonym file_view = "(int \<times> string) option"

text \<open>The body of the loop over the files: \<^const>\<open>None\<close> is \<open>ok = false\<close>.\<close>

definition load_pattern_file ::
  "(string \<Rightarrow> cjson option) \<Rightarrow> (string \<Rightarrow> file_view) \<Rightarrow> alloc \<Rightarrow> string \<Rightarrow> string
     \<Rightarrow> pattern_config \<times> bool \<Rightarrow> (pattern_config \<times> bool) option" where
  "load_pattern_file parse_json fopen al dirPath name st =
     (let (merged, versionSet) = st in
      case fopen (strncpy_term 512 (dirPath @ ''/'' @ name)) of
        None \<Rightarrow> None
      | Some (fsize, contents) \<Rightarrow>
          if fsize \<le> 0 \<or> fsize > 1024 * 1024 then None
          else if \<not> al (nat fsize + 1) then None
          else if int (length contents) \<noteq> fsize then None
          else case tmuxremote_pattern_config_parse parse_json al contents of
                 None \<Rightarrow> None
               | Some cfg \<Rightarrow>
                   if \<not> versionSet
                   then map_option (\<lambda>m. (m, True))
                          (merge_agents al (merged\<lparr>pc_version := pc_version cfg\<rparr>) (pc_agents cfg))
                   else if pc_version cfg \<noteq> pc_version merged then None
                   else map_option (\<lambda>m. (m, True)) (merge_agents al merged (pc_agents cfg)))"

definition load_default_pattern_config ::
  "(string \<Rightarrow> cjson option) \<Rightarrow> string \<Rightarrow> alloc \<Rightarrow> bool \<times> pattern_config option" where
  "load_default_pattern_config parse_json default_json al =
     (case tmuxremote_pattern_config_parse parse_json al default_json of
        None \<Rightarrow> (False, None)
      | Some cfg \<Rightarrow> if pc_agents cfg = [] then (False, None) else (True, Some cfg))"

definition is_json_name :: "string \<Rightarrow> bool" where
  "is_json_name n \<longleftrightarrow> \<not> (length n < 6 \<or> drop (length n - 5) n \<noteq> ''.json'')"

text \<open>
  The names kept by the \<open>readdir\<close> loop: an entry whose \<open>realloc\<close> or \<open>strdup\<close> fails is
  skipped.
\<close>

fun collect_names :: "alloc \<Rightarrow> string list \<Rightarrow> string list \<Rightarrow> string list" where
  "collect_names al acc [] = acc"
| "collect_names al acc (n # ns) =
     (if \<not> is_json_name n then collect_names al acc ns
      else if \<not> al (8 * (length acc + 1)) then collect_names al acc ns
      else case strdup al n of
             None \<Rightarrow> collect_names al acc ns
           | Some d \<Rightarrow> collect_names al (acc @ [d]) ns)"

text \<open>
  \<open>load_pattern_configs\<close>: the result and the new \<open>app->patternConfig\<close>.  \<open>dir\<close> is what
  \<open>opendir\<close> and \<open>readdir\<close> deliver.  \<open>qsort\<close> with \<open>strcmp\<close> is \<^const>\<open>sort\<close> with the
  lexicographic order of the character codes: \<open>strcmp\<close> returns 0 only on equal strings, so
  every sorting algorithm gives the same list.
\<close>

definition load_pattern_configs ::
  "(string \<Rightarrow> cjson option) \<Rightarrow> string \<Rightarrow> (string \<Rightarrow> file_view) \<Rightarrow> alloc \<Rightarrow> string
     \<Rightarrow> string list option \<Rightarrow> bool \<times> pattern_config option" where
  "load_pattern_configs parse_json default_json fopen al homeDir dir =
     (let dirPath = strncpy_term 512 (homeDir @ ''/patterns'') in
      case dir of
        None \<Rightarrow> load_default_pattern_config parse_json default_json al
      | Some entries \<Rightarrow>
          (let fileNames = collect_names al [] entries
           in if fileNames = [] then load_default_pattern_config parse_json default_json al
              else if \<not> al 24 then (False, None)
              else case fold_opt (\<lambda>st n. load_pattern_file parse_json fopen al dirPath n st)
                          (\<lparr>pc_version = 0, pc_agents = []\<rparr>, False) (sort fileNames) of
                     None \<Rightarrow> (False, None)
                   | Some (merged, _) \<Rightarrow>
                       if pc_agents merged \<noteq> [] then (True, Some merged) else (False, None)))"

section \<open>Valid configurations\<close>

definition valid_definition :: "pattern_definition \<Rightarrow> bool" where
  "valid_definition d \<longleftrightarrow>
     pd_id d \<noteq> None \<and> pd_prompt_regex d \<noteq> None \<and> 0 < pd_max_scan_lines d \<and>
     (\<forall>a \<in> set (pd_actions d). act_label a \<noteq> None \<and> act_keys a \<noteq> None) \<and>
     (if pd_type d = NUMBERED_MENU then \<exists>k. pd_action_template d = Some (Some k)
      else pd_actions d \<noteq> [])"

definition valid_agent :: "agent_config \<Rightarrow> bool" where
  "valid_agent a \<longleftrightarrow> ac_id a \<noteq> None \<and> (\<forall>d \<in> set (ac_patterns a). valid_definition d)"

definition valid_config :: "pattern_config \<Rightarrow> bool" where
  "valid_config c \<longleftrightarrow> pc_version c = 3 \<and> pc_agents c \<noteq> [] \<and> (\<forall>a \<in> set (pc_agents c). valid_agent a)"

text \<open>A merged configuration: agent ids are unique, and so are the rule ids of an agent.\<close>

definition merged_ok :: "pattern_config \<Rightarrow> bool" where
  "merged_ok c \<longleftrightarrow> distinct (map ac_id (pc_agents c)) \<and>
     (\<forall>a \<in> set (pc_agents c). valid_agent a \<and> distinct (map pd_id (ac_patterns a)))"

lemma strdup_safe_not_None: "strdup_safe al s \<noteq> None \<Longrightarrow> strdup_safe al s = s"
  by (auto simp: strdup_safe_def dest: strdup_eq_Some split: option.splits)

lemma parse_action_items_full:
  "a \<in> set (parse_action_items al xs) \<Longrightarrow> act_label a \<noteq> None \<and> act_keys a \<noteq> None"
  by (induction xs) (auto simp: Let_def split: if_splits)

lemma parse_actions_full:
  "parse_actions al j = Some as \<Longrightarrow> a \<in> set as \<Longrightarrow> act_label a \<noteq> None \<and> act_keys a \<noteq> None"
  by (auto simp: parse_actions_def dest!: parse_action_items_full
      split: option.splits cjson.splits if_splits)

lemma parse_definition_valid: "parse_definition al j = Some d \<Longrightarrow> valid_definition d"
  unfolding parse_definition_def Let_def
  by (auto simp: valid_definition_def TMUXREMOTE_DEFAULT_MAX_SCAN_LINES_def
      dest: parse_actions_full split: prod.splits if_splits option.splits)

lemma parse_rules_valid: "d \<in> set (parse_rules al xs) \<Longrightarrow> valid_definition d"
  by (induction xs) (auto dest: parse_definition_valid split: option.splits)

lemma parse_agents_valid: "a \<in> set (parse_agents al ms) \<Longrightarrow> valid_agent a"
  by (induction al ms rule: parse_agents.induct)
     (auto simp: Let_def valid_agent_def dest: parse_rules_valid split: option.splits if_splits)

lemma config_parse_valid:
  "tmuxremote_pattern_config_parse p al json = Some c \<Longrightarrow> valid_config c"
  unfolding tmuxremote_pattern_config_parse_def Let_def
  by (auto simp: valid_config_def TMUXREMOTE_PATTERN_CONFIG_VERSION_def
      dest: parse_agents_valid split: option.splits if_splits)

lemma has_duplicate_ids_iff: "\<not> has_duplicate_ids is \<longleftrightarrow> None \<notin> set is \<and> distinct is"
  by (induction "is") auto

lemma merge_agents_ok:
  "merge_agents al m as = Some m' \<Longrightarrow> merged_ok m \<Longrightarrow> \<forall>a \<in> set as. valid_agent a \<Longrightarrow>
     merged_ok m' \<and> pc_version m' = pc_version m"
proof (induction as arbitrary: m)
  case Nil
  then show ?case by simp
next
  case (Cons a as)
  then obtain m1 where dup: "\<not> has_duplicate_pattern_ids a"
    and m1: "merge_agent_into_config al m a = Some m1" and rest: "merge_agents al m1 as = Some m'"
    by (auto split: if_splits option.splits)
  have fresh: "ac_id a \<notin> ac_id ` set (pc_agents m)"
    and m1_eq: "m1 = m\<lparr>pc_agents := pc_agents m @ [a]\<rparr>"
    using m1 by (force simp: merge_agent_into_config_def split: if_splits)+
  have "merged_ok m1" "pc_version m1 = pc_version m"
    using fresh dup Cons.prems(2,3)
    by (auto simp: m1_eq merged_ok_def has_duplicate_pattern_ids_def has_duplicate_ids_iff)
  with Cons.IH [OF rest] Cons.prems(3) show ?case by simp
qed

lemma load_pattern_file_ok:
  assumes "load_pattern_file p fopen al dir n (m, v) = Some (m', v')"
    and "merged_ok m" and "v \<Longrightarrow> pc_version m = 3"
  shows "merged_ok m' \<and> pc_version m' = 3 \<and> v'"
proof -
  define m0 where "m0 cfg = (if v then m else m\<lparr>pc_version := pc_version cfg\<rparr>)" for cfg :: pattern_config
  from assms(1) obtain cfg contents
    where parsed: "tmuxremote_pattern_config_parse p al contents = Some cfg"
      and version: "v \<longrightarrow> pc_version cfg = pc_version m"
      and merge: "merge_agents al (m0 cfg) (pc_agents cfg) = Some m'" "v'"
    by (auto simp: load_pattern_file_def m0_def split: option.splits if_splits)
  note cfg = config_parse_valid [OF parsed] version
  have m0: "merged_ok (m0 cfg)" "pc_version (m0 cfg) = 3"
    using assms(2,3) cfg by (auto simp: m0_def merged_ok_def valid_config_def)
  from merge_agents_ok [OF merge(1) m0(1)] cfg m0(2) merge(2) show ?thesis
    by (simp add: valid_config_def)
qed

lemma load_files_ok:
  "fold_opt (\<lambda>st n. load_pattern_file p fopen al dir n st) (m, v) ns = Some (m', v') \<Longrightarrow>
     merged_ok m \<Longrightarrow> (v \<Longrightarrow> pc_version m = 3) \<Longrightarrow> ns \<noteq> [] \<or> v \<Longrightarrow>
     merged_ok m' \<and> pc_version m' = 3"
proof (induction ns arbitrary: m v)
  case Nil
  then show ?case by simp
next
  case (Cons n ns)
  then obtain m1 v1 where step: "load_pattern_file p fopen al dir n (m, v) = Some (m1, v1)"
    and rest: "fold_opt (\<lambda>st n. load_pattern_file p fopen al dir n st) (m1, v1) ns = Some (m', v')"
    by (auto split: option.splits simp: bind_eq_Some_conv)
  from load_pattern_file_ok [OF step Cons.prems(2,3)] have "merged_ok m1" "pc_version m1 = 3" v1
    by simp_all
  with Cons.IH [OF rest] show ?case by simp
qed

lemma collect_names_mem_ok: "collect_names mem_ok acc ns = acc @ filter is_json_name ns"
  by (induction ns arbitrary: acc) auto

text \<open>A configuration with one rule, for the concrete instances below.\<close>

definition sample_json :: cjson where
  "sample_json = JObject [(''Version'', JNumber 3), (''agents'', JObject [(''a'', JObject
     [(''rules'', JArray [JObject [(''id'', JString ''r''), (''type'', JString ''yes_no''),
        (''prompt_regex'', JString ''x''), (''actions'', JArray [JObject
          [(''label'', JString ''Yes''), (''keys'', JString ''y'')]])]])])])]"

lemma sample_json_eval:
  "tmuxremote_pattern_config_parse (\<lambda>_. Some sample_json) mem_ok s = Some
     \<lparr>pc_version = 3, pc_agents = [\<lparr>ac_id = Some ''a'', ac_name = None, ac_patterns =
        [\<lparr>pd_id = Some ''r'', pd_type = YES_NO, pd_prompt_regex = Some ''x'', pd_option_regex = None,
          pd_actions = [\<lparr>act_label = Some ''Yes'', act_keys = Some ''y''\<rparr>],
          pd_action_template = None, pd_max_scan_lines = 10\<rparr>]\<rparr>]\<rparr>"
  by code_simp

section \<open>Properties\<close>

text \<open>
  C33: whatever the files and the JSON parser deliver, a pattern configuration that the agent
  accepts has format version 3, at least one agent, and only complete rules: an id, a prompt
  regex, a positive scan window, labels and keys for every action, and either a key template
  (numbered menus) or at least one action (the other types).  One that is merged from files
  also has pairwise different agent ids and, in every agent, pairwise different rule ids.  A
  failed load leaves no configuration.
\<close>

theorem loaded_config_is_valid:
  assumes "load_pattern_configs parse_json default_json fopen al homeDir dir = (ok, cfg)"
  shows "if ok
     then \<exists>c. cfg = Some c \<and> valid_config c \<and>
            (\<forall>entries. dir = Some entries \<and> collect_names al [] entries \<noteq> [] \<longrightarrow> merged_ok c)
     else cfg = None"
proof -
  let ?dp = "strncpy_term 512 (homeDir @ ''/patterns'')"
  have default: "if ok then \<exists>c. cfg = Some c \<and> valid_config c else cfg = None"
    if "load_default_pattern_config parse_json default_json al = (ok, cfg)"
  proof (cases "tmuxremote_pattern_config_parse parse_json al default_json")
    case None
    with that show ?thesis by (simp add: load_default_pattern_config_def)
  next
    case (Some c)
    from config_parse_valid [OF Some] have c: "valid_config c" "pc_agents c \<noteq> []"
      by (simp_all add: valid_config_def)
    with that Some have "ok" "cfg = Some c" by (simp_all add: load_default_pattern_config_def)
    with c show ?thesis by simp
  qed
  show ?thesis
  proof (cases "\<exists>entries. dir = Some entries \<and> collect_names al [] entries \<noteq> []")
    case False
    with assms have "load_default_pattern_config parse_json default_json al = (ok, cfg)"
      by (auto simp: load_pattern_configs_def Let_def split: option.splits if_splits)
    from default [OF this] False show ?thesis by (auto split: if_splits)
  next
    case True
    then obtain entries where dir: "dir = Some entries" and ne: "collect_names al [] entries \<noteq> []"
      by blast
    let ?names = "sort (collect_names al [] entries)"
    have names: "?names \<noteq> []" using ne by (metis length_sort length_0_conv)
    have "merged_ok c \<and> pc_version c = 3"
      if "fold_opt (\<lambda>st n. load_pattern_file parse_json fopen al ?dp n st)
            (\<lparr>pc_version = 0, pc_agents = []\<rparr>, False) ?names = Some (c, v)" for c v
      using load_files_ok [OF that] names by (simp add: merged_ok_def)
    with assms ne show ?thesis
      by (auto simp: load_pattern_configs_def Let_def dir valid_config_def merged_ok_def
          split: option.splits if_splits)
  qed
qed

theorem loaded_config_is_valid_witness:
  "\<exists>c. load_pattern_configs (\<lambda>_. Some sample_json) [] (\<lambda>_. Some (2, ''{}'')) mem_ok ''/h''
          (Some [''.'', ''ab.json'']) = (True, Some c) \<and> valid_config c \<and> merged_ok c"
proof -
  let ?r = "load_pattern_configs (\<lambda>_. Some sample_json) [] (\<lambda>_. Some (2, ''{}'')) mem_ok ''/h''
    (Some [''.'', ''ab.json''])"
  have names: "collect_names mem_ok [] [''.'', ''ab.json''] = [''ab.json'']"
    by (simp add: is_json_name_def)
  have "fst ?r"
    by (simp add: load_pattern_configs_def is_json_name_def load_pattern_file_def sample_json_eval
        merge_agent_into_config_def has_duplicate_pattern_ids_def)
  then have r: "?r = (True, snd ?r)" by (metis prod.collapse)
  from loaded_config_is_valid [OF r] obtain c where "snd ?r = Some c" "valid_config c" "merged_ok c"
    using names by auto
  with r show ?thesis by metis
qed

text \<open>
  The merged configuration does not depend on the order in which the operating system
  lists the patterns directory.
\<close>

theorem load_independent_of_readdir_order:
  assumes "mset entries = mset entries'"
  shows "load_pattern_configs parse_json default_json fopen mem_ok homeDir (Some entries) =
         load_pattern_configs parse_json default_json fopen mem_ok homeDir (Some entries')"
proof -
  let ?f = "filter is_json_name"
  have m: "mset (?f entries) = mset (?f entries')" using assms by (simp add: mset_filter)
  then have "sort (?f entries) = sort (?f entries')"
    by (intro properties_for_sort) simp_all
  moreover have "?f entries = [] \<longleftrightarrow> ?f entries' = []" using m by (metis mset_zero_iff)
  ultimately show ?thesis
    by (simp add: load_pattern_configs_def collect_names_mem_ok del: filter_empty_conv)
qed

theorem load_independent_of_readdir_order_witness:
  "load_pattern_configs (\<lambda>_. None) [] (\<lambda>_. None) mem_ok ''/h'' (Some [''b.json'', ''..'', ''a.json'']) =
   load_pattern_configs (\<lambda>_. None) [] (\<lambda>_. None) mem_ok ''/h'' (Some [''a.json'', ''b.json'', ''..''])"
  by (rule load_independent_of_readdir_order) simp

end
