(* ===== verification/Terminal_State.thy ===== *)
theory Terminal_State
  imports Prelude
begin

text \<open>
  The VT parser and the screen grid of \<^verbatim>\<open>src/agent/src/tmuxremote_terminal_state.c\<close>.

  \<open>terminal_state\<close> is the struct of the header: the grid \<open>ts_cells\<close> is one heap block of
  \<open>rows * cols\<close> bytes (\<^const>\<open>None\<close> is the NULL pointer), \<open>ts_csi_buf\<close> the 128-byte
  parameter buffer.  The C functions keep their names; every access to the grid or to the
  parameter buffer is checked (\<^const>\<open>mem_write\<close>, \<^const>\<open>mem_fill\<close>, \<^const>\<open>mem_read\<close>), so
  an operation returns \<^const>\<open>None\<close> exactly when the C code would touch memory outside them.
  \<open>wf_term\<close> is the representation invariant.  C's \<open>int\<close> values are unbounded integers here:
  the lemmas \<open>get_param_range\<close> and \<open>wf_term\<close> bound every operand (parameters by 100000,
  positions by the grid), so no addition or subtraction of the code leaves 32 bits for the
  grids the agent creates.
\<close>

section \<open>Data\<close>

record terminal_snapshot =
  sn_sequence :: "64 word"
  sn_rows :: int
  sn_cols :: int
  sn_cursor_row :: int
  sn_cursor_col :: int
  sn_alt_screen :: bool
  sn_lines :: "string option list"

record terminal_state =
  ts_sequence :: "64 word"
  ts_rows :: int
  ts_cols :: int
  ts_cursor_row :: int
  ts_cursor_col :: int
  ts_saved_row :: int
  ts_saved_col :: int
  ts_alt_screen :: bool
  ts_cells :: "char list option"
  ts_in_escape :: bool
  ts_in_escape_charset :: bool
  ts_in_csi :: bool
  ts_csi_buf :: "char list"
  ts_csi_len :: nat

definition TERMINAL_DEFAULT_ROWS :: int where "TERMINAL_DEFAULT_ROWS = 48"
definition TERMINAL_DEFAULT_COLS :: int where "TERMINAL_DEFAULT_COLS = 160"

definition CSI_BUF_SIZE :: nat where "CSI_BUF_SIZE = 128"

section \<open>Creation and resizing\<close>

definition init_cells :: "alloc \<Rightarrow> terminal_state \<Rightarrow> terminal_state" where
  "init_cells al st =
     (let count = nat (ts_rows st) * nat (ts_cols st)
      in st\<lparr>ts_cells := (if al count then Some (replicate count (CHR '' '')) else None)\<rparr>)"

definition tmuxremote_terminal_state_init :: "alloc \<Rightarrow> int \<Rightarrow> int \<Rightarrow> terminal_state" where
  "tmuxremote_terminal_state_init al rows cols =
     init_cells al
       \<lparr>ts_sequence = 0,
        ts_rows = (if rows > 0 then rows else TERMINAL_DEFAULT_ROWS),
        ts_cols = (if cols > 0 then cols else TERMINAL_DEFAULT_COLS),
        ts_cursor_row = 0, ts_cursor_col = 0, ts_saved_row = 0, ts_saved_col = 0,
        ts_alt_screen = False, ts_cells = None,
        ts_in_escape = False, ts_in_escape_charset = False, ts_in_csi = False,
        ts_csi_buf = replicate CSI_BUF_SIZE NUL, ts_csi_len = 0\<rparr>"

definition tmuxremote_terminal_state_free :: "terminal_state \<Rightarrow> terminal_state" where
  "tmuxremote_terminal_state_free st = st\<lparr>ts_cells := None\<rparr>"

definition cell_ptr :: "terminal_state \<Rightarrow> int \<Rightarrow> int \<Rightarrow> nat" where
  "cell_ptr st row col = nat row * nat (ts_cols st) + nat col"

definition clamp_int :: "int \<Rightarrow> int \<Rightarrow> int \<Rightarrow> int" where
  "clamp_int value minimum maximum =
     (if value < minimum then minimum else if value > maximum then maximum else value)"

text \<open>The body of the \<open>memcpy\<close> loop of a resize: one row from the old block into the new one.\<close>

definition copy_row ::
    "char list \<Rightarrow> nat \<Rightarrow> nat \<Rightarrow> nat \<Rightarrow> char list \<Rightarrow> nat \<Rightarrow> char list option" where
  "copy_row old old_cols new_cols copy_cols new row =
     mem_read old (row * old_cols) copy_cols \<bind> (\<lambda>src. mem_write new (row * new_cols) src)"

definition tmuxremote_terminal_state_resize ::
    "alloc \<Rightarrow> terminal_state \<Rightarrow> int \<Rightarrow> int \<Rightarrow> terminal_state option" where
  "tmuxremote_terminal_state_resize al st rows cols =
     (let new_rows = (if rows > 0 then rows else TERMINAL_DEFAULT_ROWS);
          new_cols = (if cols > 0 then cols else TERMINAL_DEFAULT_COLS)
      in if new_rows = ts_rows st \<and> new_cols = ts_cols st then Some st
         else
           let new_count = nat new_rows * nat new_cols
           in if \<not> al new_count then Some st
              else
                (case ts_cells st of
                   None \<Rightarrow> Some (replicate new_count (CHR '' ''))
                 | Some old \<Rightarrow>
                     fold_opt
                       (copy_row old (nat (ts_cols st)) (nat new_cols)
                          (nat (min (ts_cols st) new_cols)))
                       (replicate new_count (CHR '' ''))
                       [0..<nat (min (ts_rows st) new_rows)]) \<bind>
                (\<lambda>cells. Some
                   (st\<lparr>ts_cells := Some cells, ts_rows := new_rows, ts_cols := new_cols,
                       ts_cursor_row := clamp_int (ts_cursor_row st) 0 (new_rows - 1),
                       ts_cursor_col := clamp_int (ts_cursor_col st) 0 (new_cols - 1),
                       ts_saved_row := clamp_int (ts_saved_row st) 0 (new_rows - 1),
                       ts_saved_col := clamp_int (ts_saved_col st) 0 (new_cols - 1),
                       ts_sequence := ts_sequence st + 1\<rparr>)))"

section \<open>Editing the grid\<close>

definition clear_screen :: "terminal_state \<Rightarrow> terminal_state option" where
  "clear_screen st =
     (case ts_cells st of
        None \<Rightarrow> Some st
      | Some cs \<Rightarrow>
          mem_fill cs 0 (nat (ts_rows st) * nat (ts_cols st)) (CHR '' '') \<bind>
          (\<lambda>cs'. Some (st\<lparr>ts_cells := Some cs'\<rparr>)))"

definition clear_line_range ::
    "terminal_state \<Rightarrow> int \<Rightarrow> int \<Rightarrow> int \<Rightarrow> terminal_state option" where
  "clear_line_range st row col_start col_end =
     (case ts_cells st of
        None \<Rightarrow> Some st
      | Some cs \<Rightarrow>
          if row < 0 \<or> row \<ge> ts_rows st then Some st
          else
            let s = clamp_int col_start 0 (ts_cols st - 1);
                e = clamp_int col_end 0 (ts_cols st - 1)
            in if e < s then Some st
               else mem_fill cs (cell_ptr st row s) (nat (e - s + 1)) (CHR '' '') \<bind>
                    (\<lambda>cs'. Some (st\<lparr>ts_cells := Some cs'\<rparr>)))"

definition scroll_up :: "terminal_state \<Rightarrow> terminal_state option" where
  "scroll_up st =
     (case ts_cells st of
        None \<Rightarrow> Some st
      | Some cs \<Rightarrow>
          if ts_rows st \<le> 1 then Some st
          else
            let row_bytes = nat (ts_cols st); n = nat (ts_rows st - 1)
            in mem_read cs row_bytes (row_bytes * n) \<bind>
               (\<lambda>src. mem_write cs 0 src \<bind>
               (\<lambda>cs1. mem_fill cs1 (row_bytes * n) row_bytes (CHR '' '') \<bind>
               (\<lambda>cs2. Some (st\<lparr>ts_cells := Some cs2\<rparr>)))))"

definition advance_line :: "terminal_state \<Rightarrow> terminal_state option" where
  "advance_line st =
     (let st1 = st\<lparr>ts_cursor_col := 0, ts_cursor_row := ts_cursor_row st + 1\<rparr>
      in if ts_cursor_row st1 \<ge> ts_rows st1
         then scroll_up st1 \<bind> (\<lambda>st2. Some (st2\<lparr>ts_cursor_row := ts_rows st2 - 1\<rparr>))
         else Some st1)"

definition put_char :: "terminal_state \<Rightarrow> char \<Rightarrow> terminal_state option" where
  "put_char st ch =
     (case ts_cells st of
        None \<Rightarrow> Some st
      | Some cs \<Rightarrow>
          let r = clamp_int (ts_cursor_row st) 0 (ts_rows st - 1);
              c = clamp_int (ts_cursor_col st) 0 (ts_cols st - 1)
          in mem_write cs (cell_ptr st r c) [ch] \<bind>
             (\<lambda>cs'.
                let st1 = st\<lparr>ts_cursor_row := r, ts_cursor_col := c + 1, ts_cells := Some cs'\<rparr>
                in if ts_cursor_col st1 \<ge> ts_cols st1 then advance_line st1 else Some st1))"

section \<open>Control sequence parameters\<close>

definition parse_int_token :: "string \<Rightarrow> int \<Rightarrow> int" where
  "parse_int_token token default_value =
     (if token = [] then default_value
      else case strtol token of
             None \<Rightarrow> default_value
           | Some (value, _) \<Rightarrow>
               if value < 0 then default_value
               else if value > 100000 then 100000 else value)"

text \<open>The \<open>while (1)\<close> loop of \<open>get_param\<close>: \<open>index\<close> counts down to the wanted token.\<close>

function get_param_loop :: "string \<Rightarrow> nat \<Rightarrow> int \<Rightarrow> int" where
  "get_param_loop p index default_value =
     (case split_char (CHR '';'') p of
        (tok, sep) \<Rightarrow>
          if index = 0 then parse_int_token (take 31 tok) default_value
          else case sep of
                 None \<Rightarrow> default_value
               | Some r \<Rightarrow> get_param_loop r (index - 1) default_value)"
  by pat_completeness auto
termination
  by (relation "measure (\<lambda>(p, _, _). length p)") (auto dest: split_char_length [OF sym])

definition get_param :: "string \<Rightarrow> nat \<Rightarrow> int \<Rightarrow> int" where
  "get_param params index default_value =
     (if params = [] then default_value
      else get_param_loop (if hd params = CHR ''?'' then tl params else params)
             index default_value)"

function has_private_mode_loop :: "string \<Rightarrow> int \<Rightarrow> bool" where
  "has_private_mode_loop p mode =
     (if p = [] then False
      else case split_char (CHR '';'') p of
             (tok, sep) \<Rightarrow>
               if parse_int_token (take 31 tok) (- 1) = mode then True
               else case sep of None \<Rightarrow> False | Some r \<Rightarrow> has_private_mode_loop r mode)"
  by pat_completeness auto
termination
  by (relation "measure (\<lambda>(p, _). length p)") (auto dest: split_char_length [OF sym])

definition has_private_mode :: "string \<Rightarrow> int \<Rightarrow> bool" where
  "has_private_mode params mode =
     (if params = [] \<or> hd params \<noteq> CHR ''?'' then False
      else has_private_mode_loop (tl params) mode)"

section \<open>Control sequences\<close>

text \<open>The loop of \<open>CSI J\<close> over the rows below the cursor.\<close>

fun clear_rows :: "terminal_state \<Rightarrow> int list \<Rightarrow> terminal_state option" where
  "clear_rows st [] = Some st"
| "clear_rows st (row # rs) =
     clear_line_range st row 0 (ts_cols st - 1) \<bind> (\<lambda>st'. clear_rows st' rs)"

definition enter_screen :: "terminal_state \<Rightarrow> bool \<Rightarrow> terminal_state option" where
  "enter_screen st alt =
     clear_screen (st\<lparr>ts_alt_screen := alt\<rparr>) \<bind>
     (\<lambda>st'. Some (st'\<lparr>ts_cursor_row := 0, ts_cursor_col := 0\<rparr>))"

definition is_alt_mode :: "string \<Rightarrow> bool" where
  "is_alt_mode params \<longleftrightarrow>
     has_private_mode params 1049 \<or> has_private_mode params 1047 \<or> has_private_mode params 47"

definition process_csi :: "terminal_state \<Rightarrow> string \<Rightarrow> char \<Rightarrow> terminal_state option" where
  "process_csi st params final =
     (let row = ts_cursor_row st; col = ts_cursor_col st;
          max_row = ts_rows st - 1; max_col = ts_cols st - 1
      in if final = CHR ''A'' then
           Some (st\<lparr>ts_cursor_row := clamp_int (row - get_param params 0 1) 0 max_row\<rparr>)
         else if final = CHR ''B'' then
           Some (st\<lparr>ts_cursor_row := clamp_int (row + get_param params 0 1) 0 max_row\<rparr>)
         else if final = CHR ''C'' then
           Some (st\<lparr>ts_cursor_col := clamp_int (col + get_param params 0 1) 0 max_col\<rparr>)
         else if final = CHR ''D'' then
           Some (st\<lparr>ts_cursor_col := clamp_int (col - get_param params 0 1) 0 max_col\<rparr>)
         else if final = CHR ''G'' then
           Some (st\<lparr>ts_cursor_col := clamp_int (get_param params 0 1 - 1) 0 max_col\<rparr>)
         else if final = CHR ''d'' then
           Some (st\<lparr>ts_cursor_row := clamp_int (get_param params 0 1 - 1) 0 max_row\<rparr>)
         else if final = CHR ''H'' \<or> final = CHR ''f'' then
           Some (st\<lparr>ts_cursor_row := clamp_int (get_param params 0 1 - 1) 0 max_row,
                    ts_cursor_col := clamp_int (get_param params 1 1 - 1) 0 max_col\<rparr>)
         else if final = CHR ''J'' then
           (let mode = get_param params 0 0
            in if mode = 2 \<or> mode = 3 then
                 clear_screen st \<bind>
                 (\<lambda>st'. Some (st'\<lparr>ts_cursor_row := 0, ts_cursor_col := 0\<rparr>))
               else if mode = 0 then
                 clear_line_range st row col max_col \<bind>
                 (\<lambda>st'. clear_rows st' [row + 1..max_row])
               else Some st)
         else if final = CHR ''K'' then
           (let mode = get_param params 0 0
            in if mode = 0 then clear_line_range st row col max_col
               else if mode = 1 then clear_line_range st row 0 col
               else if mode = 2 then clear_line_range st row 0 max_col
               else Some st)
         else if final = CHR ''X'' then
           (let n0 = get_param params 0 1; n = (if n0 \<le> 0 then 1 else n0)
            in clear_line_range st row col (clamp_int (col + n - 1) 0 max_col))
         else if final = CHR ''s'' then
           Some (st\<lparr>ts_saved_row := row, ts_saved_col := col\<rparr>)
         else if final = CHR ''u'' then
           Some (st\<lparr>ts_cursor_row := clamp_int (ts_saved_row st) 0 max_row,
                    ts_cursor_col := clamp_int (ts_saved_col st) 0 max_col\<rparr>)
         else if final = CHR ''h'' then
           (if is_alt_mode params then enter_screen st True else Some st)
         else if final = CHR ''l'' then
           (if is_alt_mode params then enter_screen st False else Some st)
         else Some st)"

section \<open>The byte loop\<close>

definition charset_designators :: "char list" where
  "charset_designators = [CHR ''('', CHR '')'', CHR ''*'', CHR ''+'', CHR ''-'', CHR ''.'', CHR ''/'']"

definition feed_ground :: "terminal_state \<Rightarrow> char \<Rightarrow> terminal_state option" where
  "feed_ground st ch =
     (if code ch = 0x1B then Some (st\<lparr>ts_in_escape := True\<rparr>)
      else if code ch = 13 then Some (st\<lparr>ts_cursor_col := 0\<rparr>)
      else if code ch = 10 then advance_line st
      else if code ch = 8 then
        Some (st\<lparr>ts_cursor_col := clamp_int (ts_cursor_col st - 1) 0 (ts_cols st - 1)\<rparr>)
      else if code ch = 9 then
        (let next_tab = (ts_cursor_col st div 8 + 1) * 8
         in if next_tab \<ge> ts_cols st then advance_line st
            else Some (st\<lparr>ts_cursor_col := next_tab\<rparr>))
      else if isprint ch \<or> code ch \<ge> 0x80 then put_char st ch
      else Some st)"

definition feed_byte :: "terminal_state \<Rightarrow> char \<Rightarrow> terminal_state option" where
  "feed_byte st ch =
     (if ts_in_escape_charset st then Some (st\<lparr>ts_in_escape_charset := False\<rparr>)
      else if ts_in_csi st then
        (if code ch \<ge> 0x40 \<and> code ch \<le> 0x7E then
           mem_write (ts_csi_buf st) (ts_csi_len st) [NUL] \<bind>
           (\<lambda>buf. process_csi (st\<lparr>ts_csi_buf := buf\<rparr>) (c_string buf) ch \<bind>
           (\<lambda>st'. Some (st'\<lparr>ts_in_csi := False, ts_csi_len := 0\<rparr>)))
         else if ts_csi_len st + 1 < CSI_BUF_SIZE then
           mem_write (ts_csi_buf st) (ts_csi_len st) [ch] \<bind>
           (\<lambda>buf. Some (st\<lparr>ts_csi_buf := buf, ts_csi_len := ts_csi_len st + 1\<rparr>))
         else Some st)
      else if ts_in_escape st then
        (let st1 = st\<lparr>ts_in_escape := False\<rparr>
         in if ch = CHR ''['' then Some (st1\<lparr>ts_in_csi := True, ts_csi_len := 0\<rparr>)
            else if ch \<in> set charset_designators then Some (st1\<lparr>ts_in_escape_charset := True\<rparr>)
            else Some st1)
      else feed_ground st ch)"

definition tmuxremote_terminal_state_feed ::
    "terminal_state \<Rightarrow> char list \<Rightarrow> terminal_state option" where
  "tmuxremote_terminal_state_feed st data =
     (if data = [] \<or> ts_cells st = None then Some st
      else fold_opt feed_byte st data \<bind>
           (\<lambda>st'. Some (st'\<lparr>ts_sequence := ts_sequence st' + 1\<rparr>)))"

section \<open>Snapshots\<close>

text \<open>The column loop of \<open>trim_row_copy\<close> leaves the number of cells up to the last one in use.\<close>

fun used_cells :: "char list \<Rightarrow> nat" where
  "used_cells [] = 0"
| "used_cells (c # cs) =
     (if used_cells cs > 0 then used_cells cs + 1
      else if c \<noteq> CHR '' '' \<and> c \<noteq> NUL then 1 else 0)"

definition trim_row_copy :: "alloc \<Rightarrow> terminal_state \<Rightarrow> int \<Rightarrow> string option option" where
  "trim_row_copy al st row =
     (case ts_cells st of
        None \<Rightarrow> None
      | Some cs \<Rightarrow>
          mem_read cs (cell_ptr st row 0) (nat (ts_cols st)) \<bind>
          (\<lambda>line. let len = used_cells line
                  in Some (if al (len + 1) then Some (take len line) else None)))"

fun snapshot_lines :: "alloc \<Rightarrow> terminal_state \<Rightarrow> int list \<Rightarrow> string option list option option" where
  "snapshot_lines al st [] = Some (Some [])"
| "snapshot_lines al st (row # rs) =
     trim_row_copy al st row \<bind>
     (\<lambda>line. case line of
        None \<Rightarrow> Some None
      | Some s \<Rightarrow> snapshot_lines al st rs \<bind> (\<lambda>ls. Some (map_option (\<lambda>xs. Some s # xs) ls)))"

text \<open>
  The outer option is undefined behaviour, the inner one the \<open>false\<close> return (no grid, or an
  allocation failed).
\<close>

definition tmuxremote_terminal_state_snapshot ::
    "alloc \<Rightarrow> terminal_state \<Rightarrow> terminal_snapshot option option" where
  "tmuxremote_terminal_state_snapshot al st =
     (case ts_cells st of
        None \<Rightarrow> Some None
      | Some cs \<Rightarrow>
          if \<not> al (8 * nat (ts_rows st)) then Some None
          else snapshot_lines al st [0..ts_rows st - 1] \<bind>
               (\<lambda>ls. Some (map_option
                  (\<lambda>xs. \<lparr>sn_sequence = ts_sequence st, sn_rows = ts_rows st, sn_cols = ts_cols st,
                         sn_cursor_row = ts_cursor_row st, sn_cursor_col = ts_cursor_col st,
                         sn_alt_screen = ts_alt_screen st, sn_lines = xs\<rparr>) ls)))"

section \<open>Any use of a terminal\<close>

text \<open>
  What the detector does with a terminal after creating it: PTY output and resizes, in any
  order, each resize with its own allocator.
\<close>

datatype term_op = TFeed "char list" | TResize alloc int int

fun term_apply :: "terminal_state \<Rightarrow> term_op \<Rightarrow> terminal_state option" where
  "term_apply st (TFeed data) = tmuxremote_terminal_state_feed st data"
| "term_apply st (TResize al rows cols) = tmuxremote_terminal_state_resize al st rows cols"

section \<open>Invariant\<close>

definition cell_ok :: "char \<Rightarrow> bool" where
  "cell_ok c \<longleftrightarrow> isprint c \<or> code c \<ge> 0x80"

fun wf_grid :: "int \<Rightarrow> int \<Rightarrow> char list option \<Rightarrow> bool" where
  "wf_grid rows cols None = True"
| "wf_grid rows cols (Some cs) =
     (length cs = nat rows * nat cols \<and> (\<forall>c \<in> set cs. cell_ok c))"

definition wf_term :: "terminal_state \<Rightarrow> bool" where
  "wf_term st \<longleftrightarrow>
     0 < ts_rows st \<and> 0 < ts_cols st \<and>
     0 \<le> ts_cursor_row st \<and> ts_cursor_row st < ts_rows st \<and>
     0 \<le> ts_cursor_col st \<and> ts_cursor_col st < ts_cols st \<and>
     0 \<le> ts_saved_row st \<and> ts_saved_row st < ts_rows st \<and>
     0 \<le> ts_saved_col st \<and> ts_saved_col st < ts_cols st \<and>
     length (ts_csi_buf st) = CSI_BUF_SIZE \<and> ts_csi_len st < CSI_BUF_SIZE \<and>
     wf_grid (ts_rows st) (ts_cols st) (ts_cells st)"

text \<open>The cell at a grid position, for specifications.\<close>

definition cell_at :: "terminal_state \<Rightarrow> int \<Rightarrow> int \<Rightarrow> char option" where
  "cell_at st row col =
     (case ts_cells st of
        None \<Rightarrow> None
      | Some cs \<Rightarrow>
          if 0 \<le> row \<and> row < ts_rows st \<and> 0 \<le> col \<and> col < ts_cols st
          then Some (cs ! cell_ptr st row col) else None)"

section \<open>Every operation keeps the invariant and stays inside the blocks\<close>

declare get_param_loop.simps [simp del] has_private_mode_loop.simps [simp del]

named_theorems term_safe \<open>safety and preservation of the terminal operations\<close>

lemma clamp_int_range: "lo \<le> hi \<Longrightarrow> lo \<le> clamp_int v lo hi \<and> clamp_int v lo hi \<le> hi"
  by (simp add: clamp_int_def)

lemma clamp_int_index [simp]:
  "0 < n \<Longrightarrow> 0 \<le> clamp_int v 0 (n - 1)"
  "0 < n \<Longrightarrow> clamp_int v 0 (n - 1) < n"
  by (simp_all add: clamp_int_def)

lemma clamp_int_id: "lo \<le> v \<Longrightarrow> v \<le> hi \<Longrightarrow> clamp_int v lo hi = v"
  by (simp add: clamp_int_def)

lemma cell_ok_space [simp]: "cell_ok (CHR '' '')"
  by (simp add: cell_ok_def isprint_def)

lemma cell_ok_not_NUL: "cell_ok c \<Longrightarrow> c \<noteq> NUL"
  by (auto simp: cell_ok_def isprint_def)

lemma wf_term_cells:
  assumes "wf_term st" and "ts_cells st = Some cs"
  shows "length cs = nat (ts_rows st) * nat (ts_cols st)" and "\<forall>c \<in> set cs. cell_ok c"
  using assms by (auto simp: wf_term_def)

lemma wf_term_put_cells:
  assumes "wf_term st" and "length cs = nat (ts_rows st) * nat (ts_cols st)"
    and "\<forall>c \<in> set cs. cell_ok c"
  shows "wf_term (st\<lparr>ts_cells := Some cs\<rparr>)"
  using assms by (auto simp: wf_term_def)

lemma cell_ptr_in_block:
  assumes "wf_term st" and "ts_cells st = Some cs"
    and "0 \<le> row" "row < ts_rows st" "0 \<le> col" "col < ts_cols st"
  shows "cell_ptr st row col < length cs"
  using assms wf_term_cells(1) [OF assms(1,2)]
  by (auto simp: cell_ptr_def intro!: row_major_bound)

lemma init_wf: "wf_term (tmuxremote_terminal_state_init al r c)"
  by (auto simp: tmuxremote_terminal_state_init_def init_cells_def wf_term_def Let_def
      TERMINAL_DEFAULT_ROWS_def TERMINAL_DEFAULT_COLS_def CSI_BUF_SIZE_def)

text \<open>A fill inside the grid.\<close>

lemma mem_fill_grid:
  assumes wf: "wf_term st" and cs: "ts_cells st = Some cs" and le: "off + n \<le> length cs"
  shows "\<exists>cs'. mem_fill cs off n (CHR '' '') = Some cs' \<and> wf_term (st\<lparr>ts_cells := Some cs'\<rparr>)"
proof -
  obtain cs' where cs': "mem_fill cs off n (CHR '' '') = Some cs'"
    using le by (simp add: mem_simps)
  have "length cs' = nat (ts_rows st) * nat (ts_cols st)"
    using mem_fill_length [OF cs'] wf_term_cells(1) [OF wf cs] by simp
  moreover have "\<forall>c \<in> set cs'. cell_ok c"
    using mem_fill_set [OF cs'] wf_term_cells(2) [OF wf cs] by auto
  ultimately show ?thesis using cs' wf by (blast intro: wf_term_put_cells)
qed

lemma clear_screen_safe [term_safe]:
  assumes wf: "wf_term st"
  shows "\<exists>st'. clear_screen st = Some st' \<and> wf_term st'"
proof (cases "ts_cells st")
  case None
  with wf show ?thesis by (simp add: clear_screen_def)
next
  case (Some cs)
  with mem_fill_grid [OF wf Some, of 0 "nat (ts_rows st) * nat (ts_cols st)"]
    wf_term_cells(1) [OF wf Some]
  show ?thesis by (auto simp: clear_screen_def)
qed

lemma line_range_in_block:
  assumes wf: "wf_term st" and cs: "ts_cells st = Some cs"
    and "0 \<le> row" "row < ts_rows st" "0 \<le> s" "s \<le> e" "e < ts_cols st"
  shows "cell_ptr st row s + nat (e - s + 1) \<le> length cs"
proof -
  have "nat row < nat (ts_rows st)" and "nat s + nat (e - s + 1) \<le> nat (ts_cols st)"
    using assms by auto
  then show ?thesis
    using wf_term_cells(1) [OF wf cs] row_major_range by (simp add: cell_ptr_def)
qed

lemma clear_line_range_safe [term_safe]:
  assumes wf: "wf_term st"
  shows "\<exists>st'. clear_line_range st row a b = Some st' \<and> wf_term st'"
proof (cases "ts_cells st")
  case None
  with wf show ?thesis by (simp add: clear_line_range_def)
next
  case (Some cs)
  let ?s = "clamp_int a 0 (ts_cols st - 1)" and ?e = "clamp_int b 0 (ts_cols st - 1)"
  have pos: "0 < ts_cols st" using wf by (simp add: wf_term_def)
  show ?thesis
  proof (cases "row < 0 \<or> row \<ge> ts_rows st \<or> ?e < ?s")
    case True
    with Some wf show ?thesis by (auto simp: clear_line_range_def)
  next
    case False
    then have "cell_ptr st row ?s + nat (?e - ?s + 1) \<le> length cs"
      using line_range_in_block [OF wf Some] pos by auto
    from mem_fill_grid [OF wf Some this] False Some show ?thesis
      by (auto simp: clear_line_range_def)
  qed
qed

lemma clear_rows_safe [term_safe]:
  "wf_term st \<Longrightarrow> \<exists>st'. clear_rows st rs = Some st' \<and> wf_term st'"
proof (induction rs arbitrary: st)
  case Nil
  then show ?case by simp
next
  case (Cons r rs)
  from clear_line_range_safe [OF Cons.prems, of r 0 "ts_cols st - 1"]
  obtain st1 where "clear_line_range st r 0 (ts_cols st - 1) = Some st1" "wf_term st1"
    by blast
  with Cons.IH show ?case by simp
qed

text \<open>Scrolling moves every row up by one and blanks the last.\<close>

lemma scroll_up_cells:
  assumes wf: "wf_term st" and cs: "ts_cells st = Some cs" and many: "1 < ts_rows st"
  shows "scroll_up st = Some (st\<lparr>ts_cells :=
           Some (drop (nat (ts_cols st)) cs @ replicate (nat (ts_cols st)) (CHR '' ''))\<rparr>)"
proof -
  let ?w = "nat (ts_cols st)" and ?n = "nat (ts_rows st - 1)"
  have len: "length cs = ?w + ?w * ?n"
    using wf_term_cells(1) [OF wf cs] many
    by (metis Suc_nat_eq_nat_zadd1 add_diff_cancel_left' diff_add_cancel diff_ge_0_iff_ge
        less_le_not_le mult.commute mult_Suc_right add.commute)
  let ?c1 = "take (?w * ?n) (drop ?w cs) @ drop (?w * ?n) cs"
  have c1: "mem_write cs 0 (take (?w * ?n) (drop ?w cs)) = Some ?c1"
    using len by (simp add: mem_write_def)
  have "take (?w * ?n) (drop ?w cs) = drop ?w cs"
    using len by simp
  then have "mem_fill ?c1 (?w * ?n) ?w (CHR '' '') = Some (drop ?w cs @ replicate ?w (CHR '' ''))"
    using len by (simp add: mem_fill_def mem_write_def)
  with c1 cs many len show ?thesis
    by (simp add: scroll_up_def mem_read_def Let_def)
qed

lemma scroll_up_safe [term_safe]:
  assumes wf: "wf_term st"
  shows "\<exists>st'. scroll_up st = Some st' \<and> wf_term st' \<and> ts_rows st' = ts_rows st"
proof (cases "ts_cells st = None \<or> ts_rows st \<le> 1")
  case True
  with wf show ?thesis by (auto simp: scroll_up_def split: option.splits)
next
  case False
  then obtain cs where cs: "ts_cells st = Some cs" and many: "1 < ts_rows st" by auto
  let ?cs = "drop (nat (ts_cols st)) cs @ replicate (nat (ts_cols st)) (CHR '' '')"
  have "nat (ts_cols st) \<le> length cs"
    using wf_term_cells(1) [OF wf cs] wf many by (simp add: wf_term_def)
  then have "length ?cs = nat (ts_rows st) * nat (ts_cols st)"
    using wf_term_cells(1) [OF wf cs] by simp
  moreover have "\<forall>c \<in> set ?cs. cell_ok c"
    using wf_term_cells(2) [OF wf cs] by (auto dest: in_set_dropD)
  ultimately show ?thesis
    using scroll_up_cells [OF wf cs many] wf_term_put_cells [OF wf] by auto
qed

lemma scroll_up_cursor:
  "scroll_up (st\<lparr>ts_cursor_row := r, ts_cursor_col := c\<rparr>) =
     map_option (\<lambda>s. s\<lparr>ts_cursor_row := r, ts_cursor_col := c\<rparr>) (scroll_up st)"
  by (auto simp: scroll_up_def Let_def map_option_bind split: option.splits bind_splits)

lemma wf_term_cursor:
  assumes "wf_term st" and "0 \<le> r" "r < ts_rows st" "0 \<le> c" "c < ts_cols st"
  shows "wf_term (st\<lparr>ts_cursor_row := r, ts_cursor_col := c\<rparr>)"
  using assms by (simp add: wf_term_def)

lemma scroll_up_geometry:
  "scroll_up st = Some st' \<Longrightarrow> ts_rows st' = ts_rows st \<and> ts_cols st' = ts_cols st"
  by (auto simp: scroll_up_def Let_def split: option.splits if_splits bind_splits)

text \<open>
  \<open>advance_line\<close> in closed form: it needs the invariant only of the geometry and the grid, so
  it may be called, as in \<open>put_char\<close>, while the cursor column is one past the end.
\<close>

lemma advance_line_safe [term_safe]:
  assumes wf: "wf_term st"
  shows "\<exists>st'. advance_line (st\<lparr>ts_cursor_col := c\<rparr>) = Some st' \<and> wf_term st'"
proof (cases "ts_cursor_row st + 1 < ts_rows st")
  case True
  with wf show ?thesis by (auto simp: advance_line_def wf_term_def)
next
  case False
  from scroll_up_safe [OF wf] obtain s1
    where s1: "scroll_up st = Some s1" "wf_term s1" "ts_rows s1 = ts_rows st" by blast
  have eq: "st\<lparr>ts_cursor_row := ts_cursor_row st + 1, ts_cursor_col := 0\<rparr> =
      st\<lparr>ts_cursor_col := 0, ts_cursor_row := ts_cursor_row st + 1\<rparr>" by simp
  have "scroll_up (st\<lparr>ts_cursor_col := 0, ts_cursor_row := ts_cursor_row st + 1\<rparr>) =
      Some (s1\<lparr>ts_cursor_row := ts_cursor_row st + 1, ts_cursor_col := 0\<rparr>)"
    using scroll_up_cursor [where st = st and r = "ts_cursor_row st + 1" and c = 0] s1(1) by (simp add: eq)
  with False have "advance_line (st\<lparr>ts_cursor_col := c\<rparr>) =
      Some (s1\<lparr>ts_cursor_row := ts_rows s1 - 1, ts_cursor_col := 0\<rparr>)"
    by (simp add: advance_line_def Let_def)
  moreover have "wf_term (s1\<lparr>ts_cursor_row := ts_rows s1 - 1, ts_cursor_col := 0\<rparr>)"
    using s1(2) by (auto intro!: wf_term_cursor simp: wf_term_def)
  ultimately show ?thesis by blast
qed

lemma advance_line_safe' [term_safe]:
  "wf_term st \<Longrightarrow> \<exists>st'. advance_line st = Some st' \<and> wf_term st'"
  using advance_line_safe [of st "ts_cursor_col st"] by simp

lemma put_char_safe [term_safe]:
  assumes wf: "wf_term st" and ok: "cell_ok ch"
  shows "\<exists>st'. put_char st ch = Some st' \<and> wf_term st'"
proof (cases "ts_cells st")
  case None
  with wf show ?thesis by (simp add: put_char_def)
next
  case (Some cs)
  let ?r = "ts_cursor_row st" and ?c = "ts_cursor_col st"
  have cl: "clamp_int ?r 0 (ts_rows st - 1) = ?r" "clamp_int ?c 0 (ts_cols st - 1) = ?c"
    using wf by (auto intro!: clamp_int_id simp: wf_term_def)
  have "cell_ptr st ?r ?c < length cs"
    using cell_ptr_in_block [OF wf Some] wf by (simp add: wf_term_def)
  then obtain cs' where cs': "mem_write cs (cell_ptr st ?r ?c) [ch] = Some cs'"
    by (simp add: mem_write_def)
  have wf': "wf_term (st\<lparr>ts_cells := Some cs'\<rparr>)"
    using mem_write_length [OF cs'] mem_write_set [OF cs'] wf_term_cells [OF wf Some] ok
    by (intro wf_term_put_cells [OF wf]) auto
  define s2 where "s2 = st\<lparr>ts_cursor_col := ?c + 1, ts_cells := Some cs'\<rparr>"
  have s2: "s2 = st\<lparr>ts_cells := Some cs'\<rparr>\<lparr>ts_cursor_col := ?c + 1\<rparr>" by (simp add: s2_def)
  have put: "put_char st ch = (if ?c + 1 \<ge> ts_cols st then advance_line s2 else Some s2)"
    using cs' by (simp add: put_char_def Some cl Let_def s2_def)
  show ?thesis
  proof (cases "?c + 1 \<ge> ts_cols st")
    case True
    with put advance_line_safe [OF wf', of "?c + 1"] show ?thesis by (simp add: s2)
  next
    case False
    then have "wf_term s2" using wf' wf by (auto simp: wf_term_def s2_def)
    with put False show ?thesis by simp
  qed
qed

lemma enter_screen_safe [term_safe]:
  assumes "wf_term st"
  shows "\<exists>st'. enter_screen st alt = Some st' \<and> wf_term st'"
proof -
  have "wf_term (st\<lparr>ts_alt_screen := alt\<rparr>)" using assms by (simp add: wf_term_def)
  from clear_screen_safe [OF this] obtain s1
    where "clear_screen (st\<lparr>ts_alt_screen := alt\<rparr>) = Some s1" "wf_term s1" by blast
  then show ?thesis
    by (auto simp: enter_screen_def wf_term_def)
qed

lemma clear_home_safe [term_safe]:
  assumes "wf_term st"
  shows "\<exists>st'. clear_screen st \<bind>
           (\<lambda>s. Some (s\<lparr>ts_cursor_row := 0, ts_cursor_col := 0\<rparr>)) = Some st' \<and> wf_term st'"
  using clear_screen_safe [OF assms] by (auto simp: wf_term_def)

lemma clear_below_safe [term_safe]:
  assumes "wf_term st"
  shows "\<exists>st'. clear_line_range st r a b \<bind> (\<lambda>s. clear_rows s rs) = Some st' \<and> wf_term st'"
  using clear_line_range_safe [OF assms, of r a b] clear_rows_safe by fastforce

lemma process_csi_safe [term_safe]:
  assumes wf: "wf_term st"
  shows "\<exists>st'. process_csi st params final = Some st' \<and> wf_term st'"
proof -
  have cur: "wf_term (st\<lparr>ts_cursor_row := clamp_int a 0 (ts_rows st - 1)\<rparr>)"
    "wf_term (st\<lparr>ts_cursor_col := clamp_int a 0 (ts_cols st - 1)\<rparr>)"
    "wf_term (st\<lparr>ts_cursor_row := clamp_int a 0 (ts_rows st - 1),
                 ts_cursor_col := clamp_int b 0 (ts_cols st - 1)\<rparr>)"
    "wf_term (st\<lparr>ts_saved_row := ts_cursor_row st, ts_saved_col := ts_cursor_col st\<rparr>)" for a b
    using wf by (auto simp: wf_term_def)
  show ?thesis
    unfolding process_csi_def Let_def
    by (simp add: cur wf clear_home_safe [OF wf] clear_below_safe [OF wf]
        clear_line_range_safe [OF wf] enter_screen_safe [OF wf])
qed

lemma process_csi_parser_fields:
  assumes "wf_term st" and "process_csi st params final = Some st'"
  shows "wf_term st'"
  using process_csi_safe [OF assms(1), of params final] assms(2) by auto

lemma feed_ground_safe [term_safe]:
  assumes wf: "wf_term st"
  shows "\<exists>st'. feed_ground st ch = Some st' \<and> wf_term st'"
proof -
  have ok: "isprint ch \<or> code ch \<ge> 0x80 \<Longrightarrow> cell_ok ch" by (simp add: cell_ok_def)
  have flags: "wf_term (st\<lparr>ts_in_escape := True\<rparr>)" "wf_term (st\<lparr>ts_cursor_col := 0\<rparr>)"
    "wf_term (st\<lparr>ts_cursor_col := clamp_int a 0 (ts_cols st - 1)\<rparr>)" for a
    using wf by (auto simp: wf_term_def)
  have tab: "\<not> (ts_cursor_col st div 8 + 1) * 8 \<ge> ts_cols st \<Longrightarrow>
      wf_term (st\<lparr>ts_cursor_col := (ts_cursor_col st div 8 + 1) * 8\<rparr>)"
    using wf by (auto simp: wf_term_def)
  show ?thesis
    unfolding feed_ground_def Let_def
    using advance_line_safe' [OF wf] put_char_safe [OF wf ok] flags tab wf by simp
qed

lemma feed_byte_safe [term_safe]:
  assumes wf: "wf_term st"
  shows "\<exists>st'. feed_byte st ch = Some st' \<and> wf_term st'"
proof -
  have room: "ts_csi_len st + 1 \<le> length (ts_csi_buf st)" using wf by (simp add: wf_term_def)
  then obtain b1 b2 where b:
    "mem_write (ts_csi_buf st) (ts_csi_len st) [NUL] = Some b1"
    "mem_write (ts_csi_buf st) (ts_csi_len st) [ch] = Some b2"
    by (simp add: mem_write_def)
  have len: "length b1 = CSI_BUF_SIZE" "length b2 = CSI_BUF_SIZE"
    using b [THEN mem_write_length] wf by (simp_all add: wf_term_def)
  have "wf_term (st\<lparr>ts_csi_buf := b1\<rparr>)" using wf len by (simp add: wf_term_def)
  from process_csi_safe [OF this, of "c_string b1" ch] obtain s1
    where s1: "process_csi (st\<lparr>ts_csi_buf := b1\<rparr>) (c_string b1) ch = Some s1" "wf_term s1"
    by blast
  have "wf_term (s1\<lparr>ts_in_csi := False, ts_csi_len := 0\<rparr>)"
    "wf_term (st\<lparr>ts_in_escape_charset := False\<rparr>)"
    "wf_term (st\<lparr>ts_in_escape := False, ts_in_csi := True, ts_csi_len := 0\<rparr>)"
    "wf_term (st\<lparr>ts_in_escape := False, ts_in_escape_charset := True\<rparr>)"
    "wf_term (st\<lparr>ts_in_escape := False\<rparr>)"
    "ts_csi_len st + 1 < CSI_BUF_SIZE \<Longrightarrow>
       wf_term (st\<lparr>ts_csi_buf := b2, ts_csi_len := ts_csi_len st + 1\<rparr>)"
    using wf s1(2) len by (simp_all add: wf_term_def)
  with b s1(1) wf show ?thesis
    unfolding feed_byte_def Let_def
    using feed_ground_safe [OF wf, of ch] by simp
qed

text \<open>The byte loop meets the contract of \<open>byte_machine\<close>.\<close>

interpretation vt: byte_machine feed_byte wf_term
  by unfold_locales (rule feed_byte_safe)

section \<open>The grid is never lost and the sequence number is only counted\<close>

definition keeps_grid :: "terminal_state \<Rightarrow> terminal_state option \<Rightarrow> bool" where
  "keeps_grid st r = (case r of None \<Rightarrow> True | Some st' \<Rightarrow>
     (ts_cells st' = None) = (ts_cells st = None) \<and> ts_rows st' = ts_rows st \<and> ts_cols st' = ts_cols st)"

named_theorems grid_kept \<open>operations that keep the grid allocated and its geometry\<close>

lemma keeps_grid_Some [simp]:
  "keeps_grid st (Some st') \<longleftrightarrow>
     (ts_cells st' = None) = (ts_cells st = None) \<and> ts_rows st' = ts_rows st \<and> ts_cols st' = ts_cols st"
  by (simp add: keeps_grid_def)

lemma keeps_grid_bind:
  "keeps_grid st r \<Longrightarrow> (\<And>s. keeps_grid s (f s)) \<Longrightarrow> keeps_grid st (r \<bind> f)"
  by (cases r) (simp_all add: keeps_grid_def option.case_eq_if)

lemma clear_screen_grid [grid_kept]: "keeps_grid st (clear_screen st)"
  by (auto simp: keeps_grid_def clear_screen_def split: option.splits bind_splits)

lemma clear_line_range_grid [grid_kept]: "keeps_grid st (clear_line_range st r a b)"
  by (auto simp: keeps_grid_def clear_line_range_def Let_def
      split: option.splits if_splits bind_splits)

lemma clear_rows_grid [grid_kept]: "keeps_grid st (clear_rows st rs)"
  by (induction rs arbitrary: st) (auto intro!: keeps_grid_bind clear_line_range_grid)

lemma scroll_up_grid [grid_kept]: "keeps_grid st (scroll_up st)"
  by (auto simp: keeps_grid_def scroll_up_def Let_def split: option.splits if_splits bind_splits)

lemma keeps_grid_from:
  "keeps_grid s r \<Longrightarrow> ts_cells s = ts_cells st \<Longrightarrow> ts_rows s = ts_rows st \<Longrightarrow> ts_cols s = ts_cols st \<Longrightarrow>
     keeps_grid st r"
  by (cases r) (simp_all add: keeps_grid_def)

lemma advance_line_grid [grid_kept]: "keeps_grid st (advance_line st)"
  by (auto simp: advance_line_def Let_def
      intro!: keeps_grid_bind keeps_grid_from [OF scroll_up_grid])

lemma put_char_grid [grid_kept]: "keeps_grid st (put_char st ch)"
proof (cases "ts_cells st")
  case None
  then show ?thesis by (simp add: put_char_def)
next
  case (Some cs)
  have "keeps_grid st (advance_line s)" if "ts_cells s \<noteq> None" "ts_rows s = ts_rows st" "ts_cols s = ts_cols st" for s
    using advance_line_grid [of s] that Some by (simp add: keeps_grid_def split: option.splits)
  then show ?thesis
    by (auto simp: put_char_def Let_def Some mem_write_def)
       (auto simp: keeps_grid_def)
qed

lemma enter_screen_grid [grid_kept]: "keeps_grid st (enter_screen st alt)"
  by (auto simp: enter_screen_def intro!: keeps_grid_bind keeps_grid_from [OF clear_screen_grid])

lemma process_csi_grid [grid_kept]: "keeps_grid st (process_csi st p f)"
  unfolding process_csi_def Let_def
  by (simp add: grid_kept keeps_grid_bind)

lemma feed_ground_grid [grid_kept]: "keeps_grid st (feed_ground st ch)"
  unfolding feed_ground_def Let_def by (simp add: grid_kept)

lemma feed_byte_grid [grid_kept]: "keeps_grid st (feed_byte st ch)"
proof -
  have "keeps_grid st (process_csi (st\<lparr>ts_csi_buf := b\<rparr>) p f \<bind>
      (\<lambda>s. Some (s\<lparr>ts_in_csi := False, ts_csi_len := 0\<rparr>)))" for b p f
    by (rule keeps_grid_bind) (auto intro!: keeps_grid_from [OF process_csi_grid])
  then show ?thesis
    unfolding feed_byte_def Let_def
    by (simp add: grid_kept mem_write_def)
       (simp add: keeps_grid_def)
qed

lemma fold_feed_grid: "keeps_grid st (fold_opt feed_byte st bs)"
  by (induction bs arbitrary: st) (auto intro!: keeps_grid_bind feed_byte_grid)

text \<open>No step of the byte loop reads or writes the sequence number.\<close>

definition with_seq :: "64 word \<Rightarrow> terminal_state \<Rightarrow> terminal_state" where
  "with_seq q st = st\<lparr>ts_sequence := q\<rparr>"

named_theorems seq_indep \<open>operations that do not depend on the sequence number\<close>

lemma with_seq_sel [simp]:
  "ts_rows (with_seq q st) = ts_rows st" "ts_cols (with_seq q st) = ts_cols st"
  "ts_cursor_row (with_seq q st) = ts_cursor_row st"
  "ts_cursor_col (with_seq q st) = ts_cursor_col st"
  "ts_saved_row (with_seq q st) = ts_saved_row st" "ts_saved_col (with_seq q st) = ts_saved_col st"
  "ts_cells (with_seq q st) = ts_cells st" "ts_alt_screen (with_seq q st) = ts_alt_screen st"
  "ts_in_escape (with_seq q st) = ts_in_escape st" "ts_in_csi (with_seq q st) = ts_in_csi st"
  "ts_in_escape_charset (with_seq q st) = ts_in_escape_charset st"
  "ts_csi_buf (with_seq q st) = ts_csi_buf st" "ts_csi_len (with_seq q st) = ts_csi_len st"
  "cell_ptr (with_seq q st) r c = cell_ptr st r c"
  "with_seq q (with_seq q' st) = with_seq q st"
  "wf_term (with_seq q st) = wf_term st"
  by (simp_all add: with_seq_def cell_ptr_def wf_term_def)

lemma with_seq_upd [simp]:
  "with_seq q st\<lparr>ts_cells := a\<rparr> = with_seq q (st\<lparr>ts_cells := a\<rparr>)"
  "with_seq q st\<lparr>ts_cursor_row := i\<rparr> = with_seq q (st\<lparr>ts_cursor_row := i\<rparr>)"
  "with_seq q st\<lparr>ts_cursor_col := i\<rparr> = with_seq q (st\<lparr>ts_cursor_col := i\<rparr>)"
  "with_seq q st\<lparr>ts_saved_row := i\<rparr> = with_seq q (st\<lparr>ts_saved_row := i\<rparr>)"
  "with_seq q st\<lparr>ts_saved_col := i\<rparr> = with_seq q (st\<lparr>ts_saved_col := i\<rparr>)"
  "with_seq q st\<lparr>ts_alt_screen := x\<rparr> = with_seq q (st\<lparr>ts_alt_screen := x\<rparr>)"
  "with_seq q st\<lparr>ts_in_escape := x\<rparr> = with_seq q (st\<lparr>ts_in_escape := x\<rparr>)"
  "with_seq q st\<lparr>ts_in_escape_charset := x\<rparr> = with_seq q (st\<lparr>ts_in_escape_charset := x\<rparr>)"
  "with_seq q st\<lparr>ts_in_csi := x\<rparr> = with_seq q (st\<lparr>ts_in_csi := x\<rparr>)"
  "with_seq q st\<lparr>ts_csi_buf := b\<rparr> = with_seq q (st\<lparr>ts_csi_buf := b\<rparr>)"
  "with_seq q st\<lparr>ts_csi_len := n\<rparr> = with_seq q (st\<lparr>ts_csi_len := n\<rparr>)"
  by (simp_all add: with_seq_def)

lemma bind_with_seq:
  assumes "r' = map_option (with_seq q) r" and "\<And>s. f (with_seq q s) = map_option (with_seq q) (f s)"
  shows "r' \<bind> f = map_option (with_seq q) (r \<bind> f)"
  using assms by (cases r) auto

lemma clear_screen_seq [seq_indep]:
  "clear_screen (with_seq q st) = map_option (with_seq q) (clear_screen st)"
  by (auto simp: clear_screen_def split: option.splits bind_splits)

lemma clear_line_range_seq [seq_indep]:
  "clear_line_range (with_seq q st) r a b = map_option (with_seq q) (clear_line_range st r a b)"
  by (auto simp: clear_line_range_def Let_def split: option.splits bind_splits)

lemma clear_rows_seq [seq_indep]:
  "clear_rows (with_seq q st) rs = map_option (with_seq q) (clear_rows st rs)"
  by (induction rs arbitrary: st) (auto intro!: bind_with_seq simp: clear_line_range_seq)

lemma scroll_up_seq [seq_indep]:
  "scroll_up (with_seq q st) = map_option (with_seq q) (scroll_up st)"
  by (auto simp: scroll_up_def Let_def split: option.splits bind_splits)

lemma advance_line_seq [seq_indep]:
  "advance_line (with_seq q st) = map_option (with_seq q) (advance_line st)"
  by (auto simp: advance_line_def Let_def scroll_up_seq intro!: bind_with_seq)

lemma put_char_seq [seq_indep]:
  "put_char (with_seq q st) ch = map_option (with_seq q) (put_char st ch)"
  by (auto simp: put_char_def Let_def advance_line_seq split: option.splits bind_splits)

lemma enter_screen_seq [seq_indep]:
  "enter_screen (with_seq q st) alt = map_option (with_seq q) (enter_screen st alt)"
  by (auto simp: enter_screen_def clear_screen_seq intro!: bind_with_seq)

lemma clear_home_seq [seq_indep]:
  "clear_screen (with_seq q st) \<bind> (\<lambda>s. Some (s\<lparr>ts_cursor_row := 0, ts_cursor_col := 0\<rparr>)) =
     map_option (with_seq q)
       (clear_screen st \<bind> (\<lambda>s. Some (s\<lparr>ts_cursor_row := 0, ts_cursor_col := 0\<rparr>)))"
  by (auto intro!: bind_with_seq clear_screen_seq)

lemma clear_below_seq [seq_indep]:
  "clear_line_range (with_seq q st) r a b \<bind> (\<lambda>s. clear_rows s rs) =
     map_option (with_seq q) (clear_line_range st r a b \<bind> (\<lambda>s. clear_rows s rs))"
  by (auto intro!: bind_with_seq clear_line_range_seq clear_rows_seq)

lemma process_csi_seq [seq_indep]:
  "process_csi (with_seq q st) p f = map_option (with_seq q) (process_csi st p f)"
  unfolding process_csi_def Let_def
  by (simp add: clear_home_seq clear_below_seq)
     (simp add: clear_line_range_seq enter_screen_seq)

lemma feed_ground_seq [seq_indep]:
  "feed_ground (with_seq q st) ch = map_option (with_seq q) (feed_ground st ch)"
  unfolding feed_ground_def Let_def by (simp add: seq_indep)

lemma feed_byte_seq [seq_indep]:
  "feed_byte (with_seq q st) ch = map_option (with_seq q) (feed_byte st ch)"
proof -
  have "process_csi (with_seq q (st\<lparr>ts_csi_buf := b\<rparr>)) p f \<bind>
        (\<lambda>s. Some (s\<lparr>ts_in_csi := False, ts_csi_len := 0\<rparr>)) =
      map_option (with_seq q) (process_csi (st\<lparr>ts_csi_buf := b\<rparr>) p f \<bind>
        (\<lambda>s. Some (s\<lparr>ts_in_csi := False, ts_csi_len := 0\<rparr>)))" for b p f
    by (rule bind_with_seq) (auto simp: process_csi_seq)
  then show ?thesis
    unfolding feed_byte_def Let_def by (simp add: feed_ground_seq mem_write_def)
qed

lemma fold_feed_seq:
  "fold_opt feed_byte (with_seq q st) bs = map_option (with_seq q) (fold_opt feed_byte st bs)"
  by (induction bs arbitrary: st) (auto intro!: bind_with_seq feed_byte_seq)

section \<open>Feeding a buffer\<close>

lemma feed_safe:
  assumes wf: "wf_term st"
  shows "\<exists>st'. tmuxremote_terminal_state_feed st data = Some st' \<and> wf_term st'"
proof -
  from vt.run_safe [OF wf, of data] obtain s1
    where "fold_opt feed_byte st data = Some s1" "wf_term s1" by blast
  then show ?thesis using wf
    by (auto simp: tmuxremote_terminal_state_feed_def wf_term_def)
qed

lemma feed_with_seq:
  assumes "fold_opt feed_byte st data = Some s1" and "data \<noteq> []" and "ts_cells st \<noteq> None"
  shows "tmuxremote_terminal_state_feed (with_seq q st) data = Some (with_seq (q + 1) s1)"
  using assms fold_feed_seq [of q st data]
  by (auto simp: tmuxremote_terminal_state_feed_def) (simp add: with_seq_def)

lemma feed_chunks_screen:
  assumes "wf_term st" and "ts_cells st \<noteq> None" and "\<forall>c \<in> set chunks. c \<noteq> []"
  shows "fold_opt tmuxremote_terminal_state_feed (with_seq q st) chunks =
     map_option (with_seq (q + word_of_nat (length chunks)))
       (fold_opt feed_byte st (concat chunks))"
  using assms
proof (induction chunks arbitrary: st q)
  case Nil
  then show ?case by simp
next
  case (Cons c cs)
  from vt.run_safe [OF Cons.prems(1), of c] obtain s1
    where s1: "fold_opt feed_byte st c = Some s1" "wf_term s1" by blast
  have g: "ts_cells s1 \<noteq> None"
    using fold_feed_grid [of st c] s1(1) Cons.prems(2) by simp
  have "tmuxremote_terminal_state_feed (with_seq q st) c = Some (with_seq (q + 1) s1)"
    using feed_with_seq [OF s1(1)] Cons.prems(2,3) by simp
  with Cons.IH [OF s1(2) g, of "q + 1"] Cons.prems(3) s1(1) show ?case
    by (simp add: fold_opt_append add.assoc)
qed

section \<open>Resizing\<close>

lemma copy_row_Some:
  assumes "row * oc + cc \<le> length old" and "row * nc + cc \<le> length new"
  obtains new' where "copy_row old oc nc cc new row = Some new'" and "length new' = length new"
    and "\<And>i. i < length new \<Longrightarrow> new' ! i =
          (if row * nc \<le> i \<and> i < row * nc + cc then old ! (row * oc + (i - row * nc)) else new ! i)"
    and "set new' \<subseteq> set old \<union> set new"
proof -
  let ?src = "take cc (drop (row * oc) old)"
  have src: "mem_read old (row * oc) cc = Some ?src" "length ?src = cc"
    using assms(1) by (simp_all add: mem_simps)
  then obtain new' where new': "mem_write new (row * nc) ?src = Some new'"
    using assms(2) by (simp add: mem_write_def)
  show ?thesis
  proof
    show "copy_row old oc nc cc new row = Some new'" using src new' by (simp add: copy_row_def)
    show "length new' = length new" using new' by (rule mem_write_length)
    show "set new' \<subseteq> set old \<union> set new"
      using mem_write_set [OF new'] by (auto dest: in_set_takeD in_set_dropD)
    fix i assume "i < length new"
    from mem_write_nth [OF new' this] src(2) assms(1)
    show "new' ! i = (if row * nc \<le> i \<and> i < row * nc + cc
        then old ! (row * oc + (i - row * nc)) else new ! i)"
      by auto
  qed
qed

text \<open>After \<open>k\<close> rows, exactly the first \<open>k\<close> rows of the common columns have been copied.\<close>

lemma copy_rows_Some:
  assumes "k * oc \<le> length old" "cc \<le> oc" "cc \<le> nc" "nr * nc = n" "k \<le> nr"
  shows "\<exists>new. fold_opt (copy_row old oc nc cc) (replicate n b) [0..<k] = Some new \<and> length new = n \<and>
     set new \<subseteq> insert b (set old) \<and>
     (\<forall>r c. r < nr \<longrightarrow> c < nc \<longrightarrow>
        new ! (r * nc + c) = (if r < k \<and> c < cc then old ! (r * oc + c) else b))"
  using assms(1,5)
proof (induction k)
  case 0
  then show ?case using assms(4) by (auto simp: row_major_bound intro!: nth_replicate)
next
  case (Suc k)
  from Suc obtain new where IH: "fold_opt (copy_row old oc nc cc) (replicate n b) [0..<k] = Some new"
    "length new = n" "set new \<subseteq> insert b (set old)"
    "\<And>r c. r < nr \<Longrightarrow> c < nc \<Longrightarrow>
       new ! (r * nc + c) = (if r < k \<and> c < cc then old ! (r * oc + c) else b)"
    by auto
  have room: "k * oc + cc \<le> length old" "k * nc + cc \<le> length new"
    using Suc.prems assms(2,3,4) IH(2) row_major_range [of k nr 0 cc nc] by auto
  obtain new' where new': "copy_row old oc nc cc new k = Some new'" "length new' = length new"
    "\<And>i. i < length new \<Longrightarrow> new' ! i =
       (if k * nc \<le> i \<and> i < k * nc + cc then old ! (k * oc + (i - k * nc)) else new ! i)"
    "set new' \<subseteq> set old \<union> set new"
    using copy_row_Some [OF room] by metis
  have cell: "new' ! (r * nc + c) = (if r < Suc k \<and> c < cc then old ! (r * oc + c) else b)"
    if "r < nr" "c < nc" for r c
  proof -
    have lt: "r * nc + c < length new"
      using row_major_bound [OF that] assms(4) IH(2) by simp
    have "k * nc \<le> r * nc + c \<and> r * nc + c < k * nc + cc \<longleftrightarrow> r = k \<and> c < cc"
    proof
      assume h: "k * nc \<le> r * nc + c \<and> r * nc + c < k * nc + cc"
      then obtain d where d: "r * nc + c = k * nc + d" "d < cc"
        by (metis add_less_cancel_left le_Suc_ex)
      with assms(3) that(2) row_major_inj [of c nc d r k] show "r = k \<and> c < cc" by simp
    qed simp
    with new'(3) [OF lt] IH(4) [OF that] show ?thesis by auto
  qed
  show ?case
    using IH(1,2,3) new'(1,2,4) cell by (auto simp: fold_opt_append)
qed

lemma resize_spec:
  assumes wf: "wf_term st"
    and geo: "nr = (if rows > 0 then rows else TERMINAL_DEFAULT_ROWS)"
      "nc = (if cols > 0 then cols else TERMINAL_DEFAULT_COLS)"
  shows "\<exists>st'. tmuxremote_terminal_state_resize al st rows cols = Some st' \<and> wf_term st' \<and>
     (st' = st \<or> ts_rows st' = nr \<and> ts_cols st' = nc \<and>
        (\<forall>cs r c. ts_cells st = Some cs \<longrightarrow> 0 \<le> r \<longrightarrow> r < nr \<longrightarrow> 0 \<le> c \<longrightarrow> c < nc \<longrightarrow>
           cell_at st' r c = (if r < ts_rows st \<and> c < ts_cols st then cell_at st r c
                              else Some (CHR '' ''))))"
proof (cases "nr = ts_rows st \<and> nc = ts_cols st \<or> \<not> al (nat nr * nat nc)")
  case True
  with wf geo show ?thesis by (auto simp: tmuxremote_terminal_state_resize_def Let_def)
next
  case False
  have pos: "0 < nr" "0 < nc" using geo
    by (auto simp: TERMINAL_DEFAULT_ROWS_def TERMINAL_DEFAULT_COLS_def)
  define st1 where "st1 new = st\<lparr>ts_cells := Some new, ts_rows := nr, ts_cols := nc,
      ts_cursor_row := clamp_int (ts_cursor_row st) 0 (nr - 1),
      ts_cursor_col := clamp_int (ts_cursor_col st) 0 (nc - 1),
      ts_saved_row := clamp_int (ts_saved_row st) 0 (nr - 1),
      ts_saved_col := clamp_int (ts_saved_col st) 0 (nc - 1),
      ts_sequence := ts_sequence st + 1\<rparr>" for new
  have wf1: "wf_term (st1 new)" if "length new = nat nr * nat nc" "\<forall>c \<in> set new. cell_ok c" for new
    using that wf pos by (simp add: wf_term_def st1_def)
  show ?thesis
  proof (cases "ts_cells st")
    case None
    with False geo have "tmuxremote_terminal_state_resize al st rows cols =
        Some (st1 (replicate (nat nr * nat nc) (CHR '' '')))"
      by (auto simp: tmuxremote_terminal_state_resize_def Let_def st1_def)
    with wf1 [of "replicate (nat nr * nat nc) (CHR '' '')"] None show ?thesis
      by (auto simp: st1_def)
  next
    case (Some cs)
    have len: "length cs = nat (ts_rows st) * nat (ts_cols st)"
      and ok: "\<forall>c \<in> set cs. cell_ok c" using wf_term_cells [OF wf Some] .
    let ?k = "nat (min (ts_rows st) nr)" and ?cc = "nat (min (ts_cols st) nc)"
    have k: "?k * nat (ts_cols st) \<le> length cs" using len by (auto intro!: mult_le_mono1)
    have le: "?cc \<le> nat (ts_cols st)" "?cc \<le> nat nc" "?k \<le> nat nr" by auto
    from copy_rows_Some [OF k le(1,2) refl le(3), of "CHR '' ''"]
    obtain new where new:
      "fold_opt (copy_row cs (nat (ts_cols st)) (nat nc) ?cc)
         (replicate (nat nr * nat nc) (CHR '' '')) [0..<?k] = Some new"
      "length new = nat nr * nat nc" "set new \<subseteq> insert (CHR '' '') (set cs)"
      "\<And>r c. r < nat nr \<Longrightarrow> c < nat nc \<Longrightarrow> new ! (r * nat nc + c) =
         (if r < ?k \<and> c < ?cc then cs ! (r * nat (ts_cols st) + c) else CHR '' '')"
      by auto
    have res: "tmuxremote_terminal_state_resize al st rows cols = Some (st1 new)"
      using False geo Some new(1)
      by (auto simp: tmuxremote_terminal_state_resize_def Let_def st1_def)
    have "cell_at (st1 new) r c = (if r < ts_rows st \<and> c < ts_cols st then cell_at st r c
          else Some (CHR '' ''))" if "0 \<le> r" "r < nr" "0 \<le> c" "c < nc" for r c
      using that new(4) [of "nat r" "nat c"] Some
      by (auto simp: cell_at_def cell_ptr_def st1_def nat_less_eq_zless)
    moreover have "wf_term (st1 new)"
      using new(2,3) ok by (intro wf1) auto
    ultimately show ?thesis using res by (auto simp: st1_def)
  qed
qed

lemma term_apply_safe:
  assumes "wf_term st"
  shows "\<exists>st'. term_apply st op = Some st' \<and> wf_term st'"
proof (cases op)
  case (TFeed data)
  with feed_safe [OF assms] show ?thesis by simp
next
  case (TResize al r c)
  with resize_spec [OF assms refl refl, of al r c] show ?thesis by auto
qed

interpretation term_ops: byte_machine term_apply wf_term
  by unfold_locales (rule term_apply_safe)

section \<open>Snapshots\<close>

lemma used_cells_le: "used_cells cs \<le> length cs"
  by (induction cs) auto

lemma used_cells_take_last:
  "0 < used_cells cs \<Longrightarrow> take (used_cells cs) cs \<noteq> [] \<and> last (take (used_cells cs) cs) \<noteq> CHR '' ''"
  by (induction cs) (auto split: if_splits)

lemma used_cells_blank: "\<forall>c \<in> set cs. c \<noteq> NUL \<Longrightarrow> x \<in> set (drop (used_cells cs) cs) \<Longrightarrow> x = CHR '' ''"
  by (induction cs) (auto split: if_splits)

lemma used_cells_rest:
  "\<forall>c \<in> set cs. c \<noteq> NUL \<Longrightarrow> drop (used_cells cs) cs = replicate (length cs - used_cells cs) (CHR '' '')"
  by (rule replicate_eqI) (auto dest: used_cells_blank)

text \<open>The line of a row: the row without its trailing blanks.\<close>

definition is_row_text :: "char list \<Rightarrow> string \<Rightarrow> bool" where
  "is_row_text row s \<longleftrightarrow>
     s @ replicate (length row - length s) (CHR '' '') = row \<and>
     (s \<noteq> [] \<longrightarrow> last s \<noteq> CHR '' '') \<and> NUL \<notin> set s"

lemma used_cells_row_text:
  assumes "\<forall>c \<in> set row. cell_ok c"
  shows "is_row_text row (take (used_cells row) row)"
proof -
  have nn: "\<forall>c \<in> set row. c \<noteq> NUL" using assms by (auto dest: cell_ok_not_NUL)
  have "take (used_cells row) row @ replicate (length row - used_cells row) (CHR '' '') = row"
    using used_cells_rest [OF nn] by (metis append_take_drop_id)
  with used_cells_take_last [of row] used_cells_le [of row] nn show ?thesis
    by (auto simp: is_row_text_def min_def dest: in_set_takeD)
qed

definition grid_row :: "terminal_state \<Rightarrow> char list \<Rightarrow> int \<Rightarrow> char list" where
  "grid_row st cs row = take (nat (ts_cols st)) (drop (nat row * nat (ts_cols st)) cs)"

lemma trim_row_copy_Some:
  assumes wf: "wf_term st" and cs: "ts_cells st = Some cs" and "0 \<le> row" "row < ts_rows st"
  shows "trim_row_copy al st row =
     Some (let s = take (used_cells (grid_row st cs row)) (grid_row st cs row)
           in if al (used_cells (grid_row st cs row) + 1) then Some s else None)"
proof -
  have "nat row * nat (ts_cols st) + 0 + nat (ts_cols st) \<le> nat (ts_rows st) * nat (ts_cols st)"
    using assms(3,4) by (intro row_major_range) auto
  then show ?thesis
    using cs wf_term_cells(1) [OF wf cs]
    by (simp add: trim_row_copy_def cell_ptr_def mem_read_def grid_row_def Let_def)
qed

lemma snapshot_lines_safe:
  assumes wf: "wf_term st" and cs: "ts_cells st = Some cs"
    and "\<forall>r \<in> set rs. 0 \<le> r \<and> r < ts_rows st"
  shows "snapshot_lines al st rs \<noteq> None"
  using assms(3) by (induction rs) (auto simp: trim_row_copy_Some [OF wf cs] Let_def)

lemma snapshot_lines_mem_ok:
  assumes wf: "wf_term st" and cs: "ts_cells st = Some cs"
    and "\<forall>r \<in> set rs. 0 \<le> r \<and> r < ts_rows st"
  shows "snapshot_lines mem_ok st rs =
     Some (Some (map (\<lambda>r. Some (take (used_cells (grid_row st cs r)) (grid_row st cs r))) rs))"
  using assms(3) by (induction rs) (auto simp: trim_row_copy_Some [OF wf cs] Let_def)

lemma grid_row_ok:
  assumes "wf_term st" and "ts_cells st = Some cs"
  shows "\<forall>c \<in> set (grid_row st cs r). cell_ok c"
  using wf_term_cells(2) [OF assms] by (auto simp: grid_row_def dest!: in_set_takeD in_set_dropD)

lemma snapshot_safe:
  assumes "wf_term st"
  shows "tmuxremote_terminal_state_snapshot al st \<noteq> None"
proof (cases "ts_cells st")
  case None
  then show ?thesis by (simp add: tmuxremote_terminal_state_snapshot_def)
next
  case (Some cs)
  have "snapshot_lines al st [0..ts_rows st - 1] \<noteq> None"
    using snapshot_lines_safe [OF assms Some] by simp
  with Some show ?thesis by (auto simp: tmuxremote_terminal_state_snapshot_def)
qed

section \<open>Control sequence parameters are bounded\<close>

lemma parse_int_token_range:
  "lo \<le> 0 \<Longrightarrow> lo \<le> d \<Longrightarrow> d \<le> 100000 \<Longrightarrow>
     lo \<le> parse_int_token tok d \<and> parse_int_token tok d \<le> 100000"
  by (auto simp: parse_int_token_def split: option.splits prod.splits)

lemma get_param_loop_range:
  "0 \<le> d \<Longrightarrow> d \<le> 100000 \<Longrightarrow> 0 \<le> get_param_loop p i d \<and> get_param_loop p i d \<le> 100000"
proof (induction p i d rule: get_param_loop.induct)
  case (1 p index d)
  show ?case
    using 1 parse_int_token_range [of 0 d]
    by (auto simp: get_param_loop.simps [of p index d] split: prod.splits option.splits)
qed

lemma get_param_range:
  "0 \<le> d \<Longrightarrow> d \<le> 100000 \<Longrightarrow> 0 \<le> get_param p i d \<and> get_param p i d \<le> 100000"
  by (simp add: get_param_def get_param_loop_range)

section \<open>Printing and erasing\<close>

definition ground :: "terminal_state \<Rightarrow> bool" where
  "ground st \<longleftrightarrow> \<not> ts_in_escape st \<and> \<not> ts_in_escape_charset st \<and> \<not> ts_in_csi st"

lemma printable_not_control: "cell_ok c \<Longrightarrow> code c \<notin> {0x1B, 13, 10, 8, 9}"
  by (auto simp: cell_ok_def isprint_def)

lemma feed_byte_print:
  assumes wf: "wf_term st" and cs: "ts_cells st = Some cs" and g: "ground st" and ok: "cell_ok ch"
    and room: "ts_cursor_col st + 1 < ts_cols st"
  shows "feed_byte st ch = Some (st\<lparr>ts_cursor_col := ts_cursor_col st + 1,
      ts_cells := Some (cs[cell_ptr st (ts_cursor_row st) (ts_cursor_col st) := ch])\<rparr>)"
proof -
  let ?r = "ts_cursor_row st" and ?c = "ts_cursor_col st"
  have cl: "clamp_int ?r 0 (ts_rows st - 1) = ?r" "clamp_int ?c 0 (ts_cols st - 1) = ?c"
    using wf by (auto intro!: clamp_int_id simp: wf_term_def)
  have "cell_ptr st ?r ?c < length cs"
    using cell_ptr_in_block [OF wf cs] wf by (simp add: wf_term_def)
  then have "mem_write cs (cell_ptr st ?r ?c) [ch] = Some (cs[cell_ptr st ?r ?c := ch])"
    by (simp add: mem_write_def upd_conv_take_nth_drop)
  moreover have "feed_byte st ch = put_char st ch"
    using g ok printable_not_control [OF ok]
    by (auto simp: feed_byte_def feed_ground_def ground_def cell_ok_def)
  ultimately show ?thesis
    using room by (simp add: put_char_def cs cl Let_def)
qed

fun store_text :: "char list \<Rightarrow> nat \<Rightarrow> string \<Rightarrow> char list" where
  "store_text cs p [] = cs"
| "store_text cs p (c # t) = store_text (cs[p := c]) (Suc p) t"

lemma store_text_eq: "p + length t \<le> length cs \<Longrightarrow> store_text cs p t = take p cs @ t @ drop (p + length t) cs"
proof (induction t arbitrary: cs p)
  case Nil
  then show ?case by simp
next
  case (Cons c t)
  then have "store_text cs p (c # t) =
      take (Suc p) (cs[p := c]) @ t @ drop (Suc p + length t) (cs[p := c])" by simp
  with Cons.prems show ?case by (simp add: take_Suc_conv_app_nth)
qed

lemma feed_text:
  assumes "wf_term st" and "ts_cells st = Some cs" and "ground st" and "\<forall>c \<in> set t. cell_ok c"
    and "ts_cursor_col st + int (length t) < ts_cols st"
  shows "fold_opt feed_byte st t = Some (st\<lparr>ts_cursor_col := ts_cursor_col st + int (length t),
      ts_cells := Some (store_text cs (cell_ptr st (ts_cursor_row st) (ts_cursor_col st)) t)\<rparr>)"
  using assms
proof (induction t arbitrary: st cs)
  case Nil
  then show ?case by simp
next
  case (Cons c t)
  let ?p = "cell_ptr st (ts_cursor_row st) (ts_cursor_col st)"
  let ?s = "st\<lparr>ts_cursor_col := ts_cursor_col st + 1, ts_cells := Some (cs[?p := c])\<rparr>"
  have step: "feed_byte st c = Some ?s" using feed_byte_print Cons.prems by simp
  from feed_byte_safe [OF Cons.prems(1), of c] step have wf': "wf_term ?s" by simp
  have g': "ground ?s" using Cons.prems(3) by (simp add: ground_def)
  have pos: "0 \<le> ts_cursor_col st" using Cons.prems(1) by (simp add: wf_term_def)
  then have p': "cell_ptr ?s (ts_cursor_row ?s) (ts_cursor_col ?s) = Suc ?p"
    by (simp add: cell_ptr_def Suc_nat_eq_nat_zadd1 add.commute)
  from Cons.IH [OF wf' _ g'] Cons.prems(4,5) p'
  have "fold_opt feed_byte ?s t = Some (st\<lparr>ts_cursor_col := ts_cursor_col st + 1 + int (length t),
      ts_cells := Some (store_text (cs[?p := c]) (Suc ?p) t)\<rparr>)" by simp
  then show ?case using step by (simp add: add.assoc)
qed

lemma clear_line_range_cells:
  assumes wf: "wf_term st" and cs: "ts_cells st = Some cs" and "0 \<le> row" "row < ts_rows st"
    and "0 \<le> a" "a \<le> b" "b < ts_cols st"
  shows "\<exists>cs'. clear_line_range st row a b = Some (st\<lparr>ts_cells := Some cs'\<rparr>) \<and>
     (\<forall>r c. 0 \<le> r \<longrightarrow> r < ts_rows st \<longrightarrow> 0 \<le> c \<longrightarrow> c < ts_cols st \<longrightarrow>
        cell_at (st\<lparr>ts_cells := Some cs'\<rparr>) r c =
          (if r = row \<and> a \<le> c \<and> c \<le> b then Some (CHR '' '') else cell_at st r c))"
proof -
  have cl: "clamp_int a 0 (ts_cols st - 1) = a" "clamp_int b 0 (ts_cols st - 1) = b"
    using assms by (auto intro!: clamp_int_id)
  have le: "cell_ptr st row a + nat (b - a + 1) \<le> length cs"
    using line_range_in_block [OF wf cs] assms by simp
  then obtain cs' where cs': "mem_fill cs (cell_ptr st row a) (nat (b - a + 1)) (CHR '' '') = Some cs'"
    by (simp add: mem_simps)
  have "cell_at (st\<lparr>ts_cells := Some cs'\<rparr>) r c =
      (if r = row \<and> a \<le> c \<and> c \<le> b then Some (CHR '' '') else cell_at st r c)"
    if rc: "0 \<le> r" "r < ts_rows st" "0 \<le> c" "c < ts_cols st" for r c
  proof -
    have in_range: "cell_ptr st row a \<le> cell_ptr st r c \<and>
        cell_ptr st r c < cell_ptr st row a + nat (b - a + 1) \<longleftrightarrow> r = row \<and> a \<le> c \<and> c \<le> b"
    proof
      assume h: "cell_ptr st row a \<le> cell_ptr st r c \<and>
          cell_ptr st r c < cell_ptr st row a + nat (b - a + 1)"
      then obtain d where d: "cell_ptr st r c = cell_ptr st row a + d" "d < nat (b - a + 1)"
        by (metis add_less_cancel_left le_Suc_ex)
      have "nat a + d < nat (ts_cols st)" "nat c < nat (ts_cols st)"
        using d(2) assms rc by auto
      then have "nat r = nat row \<and> nat c = nat a + d"
        using d(1) row_major_inj [of "nat c" "nat (ts_cols st)" "nat a + d" "nat r" "nat row"]
        by (simp add: cell_ptr_def add.assoc)
      with d(2) rc assms show "r = row \<and> a \<le> c \<and> c \<le> b" by auto
    next
      assume "r = row \<and> a \<le> c \<and> c \<le> b"
      with assms show "cell_ptr st row a \<le> cell_ptr st r c \<and>
          cell_ptr st r c < cell_ptr st row a + nat (b - a + 1)"
        by (auto simp: cell_ptr_def)
    qed
    have "cell_ptr (st\<lparr>ts_cells := Some cs'\<rparr>) r c = cell_ptr st r c" by (simp add: cell_ptr_def)
    with mem_fill_nth [OF cs' cell_ptr_in_block [OF wf cs rc]] in_range rc cs show ?thesis
      by (simp add: cell_at_def)
  qed
  moreover have "clear_line_range st row a b = Some (st\<lparr>ts_cells := Some cs'\<rparr>)"
    using assms cs' by (simp add: clear_line_range_def cl Let_def)
  ultimately show ?thesis by blast
qed

lemma feed_concat_screen:
  assumes "wf_term st" and "ts_cells st \<noteq> None"
  shows "fold_opt tmuxremote_terminal_state_feed st chunks =
     fold_opt tmuxremote_terminal_state_feed st (filter (\<lambda>c. c \<noteq> []) chunks)"
  by (induction chunks arbitrary: st) (auto simp: tmuxremote_terminal_state_feed_def)

section \<open>Properties\<close>

text \<open>
  C1: whatever the dimensions a terminal is created with, whatever PTY output is fed to it in
  whatever chunks, and however it is resized in between (allocations failing or not), no
  operation ever touches memory outside the cell grid or the 128-byte parameter buffer, and
  the cursor, the saved cursor and the grid stay consistent with the geometry.
\<close>

theorem terminal_never_faults:
  "\<exists>st. fold_opt term_apply (tmuxremote_terminal_state_init al rows cols) ops = Some st \<and> wf_term st"
  by (rule term_ops.run_safe) (rule init_wf)

text \<open>
  C13: the screen does not depend on how PTY output is cut into reads: feeding the chunks one
  after the other and feeding their concatenation leave the same terminal, up to the snapshot
  sequence number (which counts calls).
\<close>

theorem feed_chunk_independence:
  assumes wf: "wf_term st"
  shows "map_option (with_seq 0) (fold_opt tmuxremote_terminal_state_feed st chunks) =
     map_option (with_seq 0) (tmuxremote_terminal_state_feed st (concat chunks))"
proof (cases "ts_cells st = None")
  case True
  then have "fold_opt tmuxremote_terminal_state_feed st cs = Some st" for cs
    by (induction cs) (auto simp: tmuxremote_terminal_state_feed_def)
  with True show ?thesis by (simp add: tmuxremote_terminal_state_feed_def)
next
  case False
  let ?cs = "filter (\<lambda>c. c \<noteq> []) chunks" and ?q = "ts_sequence st"
  have st: "with_seq ?q st = st" by (simp add: with_seq_def)
  have cat: "concat ?cs = concat chunks" by (induction chunks) auto
  have ne: "\<forall>c \<in> set ?cs. c \<noteq> []" by simp
  from vt.run_safe [OF wf, of "concat chunks"] obtain s1
    where s1: "fold_opt feed_byte st (concat chunks) = Some s1" by blast
  have "fold_opt tmuxremote_terminal_state_feed st chunks =
      map_option (with_seq (?q + word_of_nat (length ?cs))) (Some s1)"
    using feed_chunks_screen [OF wf False ne, of ?q] feed_concat_screen [OF wf False, of chunks] s1
    by (simp only: st cat)
  moreover have "map_option (with_seq 0) (tmuxremote_terminal_state_feed st (concat chunks)) =
      Some (with_seq 0 s1)"
    using s1 False
    by (cases "concat chunks") (auto simp: tmuxremote_terminal_state_feed_def with_seq_def)
  ultimately show ?thesis by (simp add: option.map_comp o_def; metis option.simps(9))
qed

theorem feed_chunk_independence_witness:
  "map_option (with_seq 0) (fold_opt tmuxremote_terminal_state_feed
       (tmuxremote_terminal_state_init mem_ok 2 3) [''a'', ''b'']) =
     map_option (with_seq 0) (tmuxremote_terminal_state_feed
       (tmuxremote_terminal_state_init mem_ok 2 3) ''ab'')"
  using feed_chunk_independence [OF init_wf [of mem_ok 2 3], of "[''a'', ''b'']"] by simp

text \<open>
  C34: a snapshot of a terminal that has a grid reports its geometry and cursor, and line
  \<open>r\<close> of the snapshot is row \<open>r\<close> of the grid without its trailing blanks: padded with
  blanks it is the row, it does not end in a blank, and it contains no NUL, so reading it as a
  C string loses nothing.
\<close>

theorem snapshot_lines_are_rows:
  assumes wf: "wf_term st" and cs: "ts_cells st = Some cs"
  shows "\<exists>sn. tmuxremote_terminal_state_snapshot mem_ok st = Some (Some sn) \<and>
     sn_rows sn = ts_rows st \<and> sn_cols sn = ts_cols st \<and>
     sn_cursor_row sn = ts_cursor_row st \<and> sn_cursor_col sn = ts_cursor_col st \<and>
     length (sn_lines sn) = nat (ts_rows st) \<and>
     (\<forall>r < nat (ts_rows st). \<exists>s. sn_lines sn ! r = Some s \<and> is_row_text (grid_row st cs (int r)) s)"
proof -
  let ?f = "\<lambda>r. Some (take (used_cells (grid_row st cs r)) (grid_row st cs r))"
  have "\<forall>r \<in> set [0..ts_rows st - 1]. 0 \<le> r \<and> r < ts_rows st" by auto
  from snapshot_lines_mem_ok [OF wf cs this]
  have ls: "snapshot_lines mem_ok st [0..ts_rows st - 1] = Some (Some (map ?f [0..ts_rows st - 1]))" .
  have "is_row_text (grid_row st cs r) (take (used_cells (grid_row st cs r)) (grid_row st cs r))" for r
    using used_cells_row_text [OF grid_row_ok [OF wf cs]] .
  with ls cs show ?thesis
    by (auto simp: tmuxremote_terminal_state_snapshot_def nth_upto)
qed

theorem snapshot_lines_are_rows_witness:
  "\<exists>sn. tmuxremote_terminal_state_snapshot mem_ok (tmuxremote_terminal_state_init mem_ok 1 1) =
     Some (Some sn) \<and> sn_rows sn = 1"
proof -
  have cs: "ts_cells (tmuxremote_terminal_state_init mem_ok 1 1) = Some '' ''"
    by (simp add: tmuxremote_terminal_state_init_def init_cells_def)
  have r: "ts_rows (tmuxremote_terminal_state_init mem_ok 1 1) = 1"
    by (simp add: tmuxremote_terminal_state_init_def init_cells_def)
  from snapshot_lines_are_rows [OF init_wf cs] r show ?thesis by auto
qed

text \<open>
  A resize never faults and keeps the terminal consistent; unless it is a no-op (same
  geometry, or the new grid cannot be allocated), the terminal has the requested geometry
  (the default where a dimension is not positive), every cell of the common area keeps its
  content and every new cell is blank.
\<close>

theorem resize_keeps_common_area:
  assumes "wf_term st" and "ts_cells st = Some cs"
  shows "\<exists>st'. tmuxremote_terminal_state_resize al st rows cols = Some st' \<and> wf_term st' \<and>
     (st' = st \<or>
      ts_rows st' = (if rows > 0 then rows else TERMINAL_DEFAULT_ROWS) \<and>
      ts_cols st' = (if cols > 0 then cols else TERMINAL_DEFAULT_COLS) \<and>
      (\<forall>r c. 0 \<le> r \<longrightarrow> r < ts_rows st' \<longrightarrow> 0 \<le> c \<longrightarrow> c < ts_cols st' \<longrightarrow>
         cell_at st' r c = (if r < ts_rows st \<and> c < ts_cols st then cell_at st r c
                            else Some (CHR '' ''))))"
  using resize_spec [OF assms(1) refl refl, of al rows cols] assms(2) by fastforce

theorem resize_keeps_common_area_witness:
  "\<exists>st'. tmuxremote_terminal_state_resize mem_ok (tmuxremote_terminal_state_init mem_ok 1 1) 2 2 =
     Some st' \<and> wf_term st'"
proof -
  have cs: "ts_cells (tmuxremote_terminal_state_init mem_ok 1 1) = Some '' ''"
    by (simp add: tmuxremote_terminal_state_init_def init_cells_def)
  from resize_keeps_common_area [OF init_wf cs, of mem_ok 2 2] show ?thesis by blast
qed

text \<open>
  Text is rendered where the cursor is: feeding printable bytes that fit on the rest of the
  line, with the parser in its ground state, overwrites exactly those cells with exactly those
  bytes, moves the cursor behind them, and changes nothing else but the sequence number.
\<close>

theorem feed_prints_text:
  assumes wf: "wf_term st" and cs: "ts_cells st = Some cs" and g: "ground st"
    and "t \<noteq> []" and ok: "\<forall>c \<in> set t. isprint c \<or> code c \<ge> 0x80"
    and fit: "ts_cursor_col st + int (length t) < ts_cols st"
  shows "tmuxremote_terminal_state_feed st t =
     (let p = cell_ptr st (ts_cursor_row st) (ts_cursor_col st)
      in Some (st\<lparr>ts_cursor_col := ts_cursor_col st + int (length t),
                  ts_cells := Some (take p cs @ t @ drop (p + length t) cs),
                  ts_sequence := ts_sequence st + 1\<rparr>))"
proof -
  let ?p = "cell_ptr st (ts_cursor_row st) (ts_cursor_col st)"
  have "?p + length t \<le> length cs"
  proof -
    have "nat (ts_cursor_row st) < nat (ts_rows st)"
      "nat (ts_cursor_col st) + length t \<le> nat (ts_cols st)"
      using wf fit by (auto simp: wf_term_def)
    then show ?thesis
      using wf_term_cells(1) [OF wf cs] row_major_range by (simp add: cell_ptr_def)
  qed
  with feed_text [OF wf cs g _ fit] ok store_text_eq assms(4) cs show ?thesis
    by (simp add: tmuxremote_terminal_state_feed_def cell_ok_def Let_def)
qed

theorem feed_prints_text_witness:
  "map_option ts_cells (tmuxremote_terminal_state_feed
     (tmuxremote_terminal_state_init mem_ok 1 3) ''hi'') = Some (Some ''hi '')"
proof -
  let ?st = "tmuxremote_terminal_state_init mem_ok 1 3"
  have cs: "ts_cells ?st = Some ''   ''"
    by (simp add: tmuxremote_terminal_state_init_def init_cells_def numeral_3_eq_3)
  have g: "ground ?st" and fit: "ts_cursor_col ?st + int (length ''hi'') < ts_cols ?st"
    and p: "cell_ptr ?st (ts_cursor_row ?st) (ts_cursor_col ?st) = 0"
    by (simp_all add: tmuxremote_terminal_state_init_def init_cells_def ground_def cell_ptr_def)
  have ok: "\<forall>c \<in> set ''hi''. isprint c \<or> code c \<ge> 0x80" by (simp add: isprint_def)
  from feed_prints_text [OF init_wf cs g _ ok fit] p show ?thesis by (simp add: Let_def)
qed

text \<open>
  Erase character (\<open>CSI n X\<close>) works in place: it blanks the cursor cell and the
  following ones, \<open>n\<close> in all (at least one) but not past the end of the line, leaves every
  other cell alone and does not move the cursor.
\<close>

theorem ech_erases_in_place:
  assumes wf: "wf_term st" and cs: "ts_cells st = Some cs"
  shows "\<exists>st'. process_csi st params (CHR ''X'') = Some st' \<and>
     ts_cursor_row st' = ts_cursor_row st \<and> ts_cursor_col st' = ts_cursor_col st \<and>
     (\<forall>r c. 0 \<le> r \<longrightarrow> r < ts_rows st \<longrightarrow> 0 \<le> c \<longrightarrow> c < ts_cols st \<longrightarrow>
        cell_at st' r c =
          (if r = ts_cursor_row st \<and> ts_cursor_col st \<le> c \<and>
              c < ts_cursor_col st + max 1 (get_param params 0 1)
           then Some (CHR '' '') else cell_at st r c))"
proof -
  let ?n = "max 1 (get_param params 0 1)" and ?col = "ts_cursor_col st"
  let ?e = "clamp_int (?col + ?n - 1) 0 (ts_cols st - 1)"
  have cur: "0 \<le> ts_cursor_row st" "ts_cursor_row st < ts_rows st" "0 \<le> ?col" "?col < ts_cols st"
    using wf by (auto simp: wf_term_def)
  have e: "?col \<le> ?e" "?e < ts_cols st" using cur by (auto simp: clamp_int_def)
  have red: "process_csi st params (CHR ''X'') = clear_line_range st (ts_cursor_row st) ?col ?e"
    by (simp add: process_csi_def Let_def max_def)
  have end_eq: "c \<le> ?e \<longleftrightarrow> c < ?col + ?n" if "c < ts_cols st" for c
    using that cur by (auto simp: clamp_int_def)
  from clear_line_range_cells [OF wf cs cur(1,2,3) e] obtain cs' where cs':
    "clear_line_range st (ts_cursor_row st) ?col ?e = Some (st\<lparr>ts_cells := Some cs'\<rparr>)"
    "\<forall>r c. 0 \<le> r \<longrightarrow> r < ts_rows st \<longrightarrow> 0 \<le> c \<longrightarrow> c < ts_cols st \<longrightarrow>
        cell_at (st\<lparr>ts_cells := Some cs'\<rparr>) r c =
          (if r = ts_cursor_row st \<and> ?col \<le> c \<and> c \<le> ?e then Some (CHR '' '') else cell_at st r c)"
    by blast
  show ?thesis
    by (rule exI [of _ "st\<lparr>ts_cells := Some cs'\<rparr>"]) (use red cs' end_eq in auto)
qed

theorem ech_erases_in_place_witness:
  "\<exists>st'. process_csi (tmuxremote_terminal_state_init mem_ok 1 3) ''2'' (CHR ''X'') = Some st' \<and>
     ts_cursor_col st' = 0"
proof -
  have cs: "ts_cells (tmuxremote_terminal_state_init mem_ok 1 3) = Some ''   ''"
    by (simp add: tmuxremote_terminal_state_init_def init_cells_def numeral_3_eq_3)
  have c0: "ts_cursor_col (tmuxremote_terminal_state_init mem_ok 1 3) = 0"
    by (simp add: tmuxremote_terminal_state_init_def init_cells_def)
  from ech_erases_in_place [OF init_wf cs, of "''2''"] c0 show ?thesis by auto
qed

end
