(* ===== verification/Prompt_Rules.thy ===== *)
theory Prompt_Rules
  imports Pattern_Config Terminal_State
begin

text \<open>
  Compiled prompt rules and their matching against a terminal snapshot
  (\<open>agent/src/tmuxremote_prompt_rules.c\<close>).

  PCRE2 is third-party code: the functions of it that the rules call are the fields of a
  record \<open>pcre2\<close>, an argument of every operation that uses them, and what the code relies on
  (the capture offsets of a successful match lie in the subject) is the predicate
  \<open>pcre2_ok\<close>.  A match returns its return code and the offset vector, with
  \<^const>\<open>None\<close> for \<open>PCRE2_UNSET\<close>.  Operations that read through an index or add two
  \<open>int\<close> values return \<^const>\<open>None\<close> for undefined behaviour.
\<close>

record 're pcre2 =
  pcre2_compile :: "string \<Rightarrow> 're option"
  pcre2_match_data_create :: "'re \<Rightarrow> bool"
  pcre2_match :: "'re \<Rightarrow> string \<Rightarrow> int \<times> nat option list"

record prompt_candidate =
  cd_pattern_id :: "string option"
  cd_pattern_type :: prompt_type
  cd_prompt :: "string option"
  cd_actions :: "prompt_action list"
  cd_action_count :: int
  cd_anchor_row :: int

record 're compiled_prompt_rule =
  cr_pattern_id :: "string option"
  cr_pattern_type :: prompt_type
  cr_max_scan_lines :: int
  cr_prompt_regex :: "'re option"
  cr_option_regex :: "'re option"
  cr_static_actions :: "prompt_action list"
  cr_action_template_keys :: "string option"

type_synonym 're prompt_ruleset = "'re compiled_prompt_rule list"

section \<open>Compiling the rules\<close>

text \<open>\<open>memset(candidate, 0, sizeof(*candidate))\<close>\<close>

definition empty_candidate :: prompt_candidate where
  "empty_candidate =
     \<lparr>cd_pattern_id = None, cd_pattern_type = YES_NO, cd_prompt = None,
      cd_actions = replicate TMUXREMOTE_PROMPT_MAX_ACTIONS null_action, cd_action_count = 0,
      cd_anchor_row = 0\<rparr>"

definition compile_regex :: "'re pcre2 \<Rightarrow> string \<Rightarrow> 're option" where
  "compile_regex api pattern = pcre2_compile api pattern"

fun copy_static_action_items :: "alloc \<Rightarrow> pattern_action list \<Rightarrow> prompt_action list option" where
  "copy_static_action_items al [] = Some []"
| "copy_static_action_items al (a # as) =
     (let label = strdup_safe al (act_label a); keys = strdup_safe al (act_keys a)
      in if label = None \<or> keys = None then None
         else map_option (Cons \<lparr>pa_label = label, pa_keys = keys\<rparr>) (copy_static_action_items al as))"

definition copy_static_actions :: "alloc \<Rightarrow> pattern_definition \<Rightarrow> prompt_action list option" where
  "copy_static_actions al src =
     (if pd_actions src = [] then Some []
      else if \<not> al (length (pd_actions src) * 16) then None
      else copy_static_action_items al (pd_actions src))"

text \<open>One iteration of the loop of \<open>tmuxremote_prompt_ruleset_load\<close>; \<^const>\<open>None\<close> skips the rule.\<close>

definition load_rule ::
  "'re pcre2 \<Rightarrow> alloc \<Rightarrow> pattern_definition \<Rightarrow> 're compiled_prompt_rule option" where
  "load_rule api al def =
     (case (pd_id def, pd_prompt_regex def) of
        (Some i, Some pr) \<Rightarrow>
          (let pattern_id = strdup al i;
               max_scan = (if pd_max_scan_lines def > 0 then pd_max_scan_lines def else 10);
               prompt_regex = compile_regex api pr
           in if prompt_regex = None \<or> pattern_id = None then None
              else
                case (case pd_option_regex def of
                        None \<Rightarrow> Some None
                      | Some r \<Rightarrow> map_option Some (compile_regex api r)) of
                  None \<Rightarrow> None
                | Some option_regex \<Rightarrow>
                    (case copy_static_actions al def of
                       None \<Rightarrow> None
                     | Some static_actions \<Rightarrow>
                         (case (case pd_action_template def of
                                  Some (Some k) \<Rightarrow> map_option Some (strdup al k)
                                | _ \<Rightarrow> Some None) of
                            None \<Rightarrow> None
                          | Some tmpl \<Rightarrow>
                              Some \<lparr>cr_pattern_id = pattern_id, cr_pattern_type = pd_type def,
                                    cr_max_scan_lines = max_scan,
                                    cr_prompt_regex = prompt_regex,
                                    cr_option_regex = option_regex,
                                    cr_static_actions = static_actions,
                                    cr_action_template_keys = tmpl\<rparr>)))
      | _ \<Rightarrow> None)"

text \<open>
  The previous rules are released first, so the result depends only on the definitions; the
  boolean is the function's return value.
\<close>

definition tmuxremote_prompt_ruleset_load ::
  "'re pcre2 \<Rightarrow> alloc \<Rightarrow> pattern_definition list \<Rightarrow> bool \<times> 're prompt_ruleset" where
  "tmuxremote_prompt_ruleset_load api al definitions =
     (if definitions = [] then (True, [])
      else if \<not> al (length definitions * 56) then (False, [])
      else (True, List.map_filter (load_rule api al) definitions))"

section \<open>Matching\<close>

definition regex_matches_line :: "'re pcre2 \<Rightarrow> 're option \<Rightarrow> string option \<Rightarrow> bool" where
  "regex_matches_line api regex line =
     (case (regex, line) of
        (Some re, Some l) \<Rightarrow>
          if \<not> pcre2_match_data_create api re then False
          else fst (pcre2_match api re l) \<ge> 0
      | _ \<Rightarrow> False)"

definition trim :: "string \<Rightarrow> string" where
  "trim s = rev (dropWhile isspace (rev (dropWhile isspace s)))"

definition trim_dup :: "alloc \<Rightarrow> string option \<Rightarrow> string option" where
  "trim_dup al input =
     (case input of None \<Rightarrow> None
      | Some s \<Rightarrow> if al (length (trim s) + 1) then Some (trim s) else None)"

definition replace_number_token :: "alloc \<Rightarrow> string \<Rightarrow> string \<Rightarrow> string option" where
  "replace_number_token al template_keys number =
     (case strstr template_keys ''{number}'' of
        None \<Rightarrow> strdup al template_keys
      | Some (prefix, suffix) \<Rightarrow>
          (let out = prefix @ number @ suffix
           in if al (length out + 1) then Some out else None))"

definition append_action ::
  "alloc \<Rightarrow> prompt_candidate \<Rightarrow> string option \<Rightarrow> string option \<Rightarrow> bool \<times> prompt_candidate" where
  "append_action al c label keys =
     (if cd_action_count c \<ge> int TMUXREMOTE_PROMPT_MAX_ACTIONS then (False, c)
      else
        let label_copy = trim_dup al label; keys_copy = strdup_safe al keys
        in if label_copy = None \<or> keys_copy = None then (False, c)
           else (True, c\<lparr>cd_actions := (cd_actions c)[nat (cd_action_count c) :=
                              \<lparr>pa_label = label_copy, pa_keys = keys_copy\<rparr>],
                         cd_action_count := cd_action_count c + 1\<rparr>))"

definition dup_capture :: "alloc \<Rightarrow> string \<Rightarrow> nat option list \<Rightarrow> int \<Rightarrow> string option option" where
  "dup_capture al subject ovector capture_index =
     array_get ovector (capture_index * 2) \<bind> (\<lambda>s. array_get ovector (capture_index * 2 + 1) \<bind> (\<lambda>e.
       case (s, e) of
         (Some start, Some stop) \<Rightarrow>
           if stop < start then Some None
           else if \<not> al (stop - start + 1) then Some None
           else map_option Some (mem_read subject start (stop - start))
       | _ \<Rightarrow> Some None))"

fun find_numbered_option_start :: "string \<Rightarrow> string option" where
  "find_numbered_option_start [] = None"
| "find_numbered_option_start (c # cs) =
     (if \<not> isdigit c then find_numbered_option_start cs
      else
        let q = dropWhile isdigit (c # cs)
        in if q \<noteq> [] \<and> hd q = CHR ''.'' \<and> tl q \<noteq> [] \<and> isspace (hd (tl q)) then Some (c # cs)
           else find_numbered_option_start cs)"

text \<open>
  The subject and the result of matching one line against the option regex: the line itself,
  or, when that gives fewer than three pairs, the text from the first numbered option on.
\<close>

definition match_option_line ::
  "'re pcre2 \<Rightarrow> 're \<Rightarrow> string \<Rightarrow> string \<times> int \<times> nat option list" where
  "match_option_line api re line =
     (let (rc, ov) = pcre2_match api re line
      in if rc < 3
         then (case find_numbered_option_start line of
                 None \<Rightarrow> (line, rc, ov)
               | Some start \<Rightarrow>
                   if start \<noteq> line
                   then (let (rc', ov') = pcre2_match api re start in (start, rc', ov'))
                   else (line, rc, ov))
         else (line, rc, ov))"

text \<open>The loop over the rows below the prompt, with the array \<open>seen_numbers\<close>.\<close>

fun extract_rows ::
  "'re pcre2 \<Rightarrow> alloc \<Rightarrow> 're \<Rightarrow> string \<Rightarrow> string option list \<Rightarrow> prompt_candidate \<Rightarrow> bool list
     \<Rightarrow> int list \<Rightarrow> (prompt_candidate \<times> bool list) option" where
  "extract_rows api al re tmpl lines c seen [] = Some (c, seen)"
| "extract_rows api al re tmpl lines c seen (row # rows) =
     array_get lines row \<bind> (\<lambda>line.
       if line = None \<or> line = Some [] then extract_rows api al re tmpl lines c seen rows
       else
         let (subject, rc, ovector) = match_option_line api re (the line)
         in if rc < 3 then extract_rows api al re tmpl lines c seen rows
            else
              dup_capture al subject ovector 1 \<bind> (\<lambda>number.
              dup_capture al subject ovector 2 \<bind> (\<lambda>label.
                if number = None \<or> label = None
                then extract_rows api al re tmpl lines c seen rows
                else case strtol (the number) of
                  None \<Rightarrow> extract_rows api al re tmpl lines c seen rows
                | Some (option_number, _) \<Rightarrow>
                    if option_number \<le> 0 \<or> option_number > int TMUXREMOTE_PROMPT_MAX_ACTIONS
                    then extract_rows api al re tmpl lines c seen rows
                    else array_get seen option_number \<bind> (\<lambda>already.
                      if already then extract_rows api al re tmpl lines c seen rows
                      else case replace_number_token al tmpl (the number) of
                        None \<Rightarrow> extract_rows api al re tmpl lines c seen rows
                      | Some keys \<Rightarrow>
                          (let (ok, c') = append_action al c label (Some keys)
                           in if ok
                              then extract_rows api al re tmpl lines c'
                                     (seen[nat option_number := True]) rows
                              else Some (c', seen))))))"

definition fallback_option_pattern :: string where
  "fallback_option_pattern =
     ''^'' @ [CHR 0x5C] @ ''s*([0-9]+)'' @ [CHR 0x5C] @ ''.'' @ [CHR 0x5C] @ ''s+(.+)$''"

definition extract_numbered_menu_actions ::
  "'re pcre2 \<Rightarrow> alloc \<Rightarrow> 're compiled_prompt_rule \<Rightarrow> terminal_snapshot \<Rightarrow> int \<Rightarrow> prompt_candidate
     \<Rightarrow> (bool \<times> prompt_candidate) option" where
  "extract_numbered_menu_actions api al rule snapshot prompt_row c =
     (case cr_action_template_keys rule of
        None \<Rightarrow> Some (False, c)
      | Some tmpl \<Rightarrow>
          (case (case cr_option_regex rule of
                   Some re \<Rightarrow> Some re
                 | None \<Rightarrow> compile_regex api fallback_option_pattern) of
             None \<Rightarrow> Some (False, c)
           | Some re \<Rightarrow>
               c_add prompt_row (cr_max_scan_lines rule) \<bind> (\<lambda>sum.
                 let max_row = (if sum \<ge> sn_rows snapshot then sn_rows snapshot - 1 else sum)
                 in if \<not> pcre2_match_data_create api re then Some (False, c)
                    else extract_rows api al re tmpl (sn_lines snapshot) c
                           (replicate (TMUXREMOTE_PROMPT_MAX_ACTIONS + 1) False)
                           [prompt_row + 1..max_row] \<bind> (\<lambda>(c', seen).
                      if cd_action_count c' < 2 \<or> \<not> seen ! 1 then Some (False, c')
                      else Some (\<forall>n \<in> set [1..cd_action_count c']. seen ! nat n, c')))))"

fun append_static_actions ::
  "alloc \<Rightarrow> prompt_candidate \<Rightarrow> prompt_action list \<Rightarrow> bool \<times> prompt_candidate" where
  "append_static_actions al c [] = (True, c)"
| "append_static_actions al c (a # as) =
     (let (ok, c') = append_action al c (pa_label a) (pa_keys a)
      in if \<not> ok then (False, c') else append_static_actions al c' as)"

text \<open>Inside the option for undefined behaviour, \<^const>\<open>None\<close> is \<open>false\<close>: no candidate.\<close>

definition fill_candidate_from_rule ::
  "'re pcre2 \<Rightarrow> alloc \<Rightarrow> 're compiled_prompt_rule \<Rightarrow> terminal_snapshot \<Rightarrow> int
     \<Rightarrow> prompt_candidate option option" where
  "fill_candidate_from_rule api al rule snapshot prompt_row =
     cr_pattern_id rule \<bind> (\<lambda>pid. array_get (sn_lines snapshot) prompt_row \<bind> (\<lambda>line.
       let c = empty_candidate\<lparr>cd_pattern_id := strdup al pid,
                 cd_pattern_type := cr_pattern_type rule,
                 cd_prompt := trim_dup al line, cd_anchor_row := prompt_row\<rparr>
       in if cd_pattern_id c = None \<or> cd_prompt c = None then Some None
          else if cr_pattern_type rule = NUMBERED_MENU
          then extract_numbered_menu_actions api al rule snapshot prompt_row c \<bind> (\<lambda>(ok, c').
                 Some (if ok then Some c' else None))
          else
            let (ok, c') = append_static_actions al c (cr_static_actions rule)
            in if \<not> ok then Some None
               else if cd_action_count c' \<le> 0 then Some None
               else Some (Some c')))"

definition is_cursor_relevant_for_prompt ::
  "'re compiled_prompt_rule \<Rightarrow> terminal_snapshot \<Rightarrow> int \<Rightarrow> bool option" where
  "is_cursor_relevant_for_prompt rule snapshot prompt_row =
     (if sn_cursor_row snapshot < prompt_row - 1 then Some False
      else c_add prompt_row (cr_max_scan_lines rule) \<bind> (\<lambda>s. c_add s 2 \<bind> (\<lambda>max_relevant_row.
        Some (sn_cursor_row snapshot \<le> max_relevant_row))))"

fun match_rows ::
  "'re pcre2 \<Rightarrow> alloc \<Rightarrow> 're compiled_prompt_rule \<Rightarrow> terminal_snapshot \<Rightarrow> int list
     \<Rightarrow> prompt_candidate option option" where
  "match_rows api al rule snapshot [] = Some None"
| "match_rows api al rule snapshot (row # rows) =
     array_get (sn_lines snapshot) row \<bind> (\<lambda>line.
       if line = None \<or> line = Some [] then match_rows api al rule snapshot rows
       else if \<not> regex_matches_line api (cr_prompt_regex rule) line
       then match_rows api al rule snapshot rows
       else is_cursor_relevant_for_prompt rule snapshot row \<bind> (\<lambda>relevant.
         if \<not> relevant then match_rows api al rule snapshot rows
         else fill_candidate_from_rule api al rule snapshot row \<bind> (\<lambda>filled.
           case filled of
             Some c \<Rightarrow> Some (Some c)
           | None \<Rightarrow> match_rows api al rule snapshot rows)))"

fun tmuxremote_prompt_ruleset_match ::
  "'re pcre2 \<Rightarrow> alloc \<Rightarrow> 're prompt_ruleset \<Rightarrow> terminal_snapshot
     \<Rightarrow> prompt_candidate option option" where
  "tmuxremote_prompt_ruleset_match api al [] snapshot = Some None"
| "tmuxremote_prompt_ruleset_match api al (rule # rules) snapshot =
     match_rows api al rule snapshot (rev [0..sn_rows snapshot - 1]) \<bind> (\<lambda>r.
       case r of
         Some c \<Rightarrow> Some (Some c)
       | None \<Rightarrow> tmuxremote_prompt_ruleset_match api al rules snapshot)"

section \<open>From candidates to instances\<close>

fun instance_actions :: "alloc \<Rightarrow> prompt_action list \<Rightarrow> nat \<Rightarrow> nat \<Rightarrow> prompt_action list
    \<Rightarrow> bool \<times> prompt_action list" where
  "instance_actions al src i 0 dst = (True, dst)"
| "instance_actions al src i (Suc n) dst =
     (let label = strdup_safe al (pa_label (src ! i)); keys = strdup_safe al (pa_keys (src ! i));
          dst' = dst[i := \<lparr>pa_label = label, pa_keys = keys\<rparr>]
      in if label = None \<or> keys = None then (False, dst')
         else instance_actions al src (i + 1) n dst')"

definition tmuxremote_prompt_candidate_to_instance ::
  "alloc \<Rightarrow> prompt_candidate \<Rightarrow> prompt_instance \<Rightarrow> bool \<times> prompt_instance" where
  "tmuxremote_prompt_candidate_to_instance al c i0 =
     (let i = (tmuxremote_prompt_instance_free i0)
                \<lparr>pi_pattern_id := strdup_safe al (cd_pattern_id c),
                 pi_prompt := strdup_safe al (cd_prompt c),
                 pi_pattern_type := cd_pattern_type c, pi_anchor_row := cd_anchor_row c\<rparr>
      in if pi_pattern_id i = None \<or> pi_prompt i = None
         then (False, tmuxremote_prompt_instance_free i)
         else
           let (ok, as) = instance_actions al (cd_actions c) 0 (nat (cd_action_count c)) (pi_actions i);
               i = i\<lparr>pi_actions := as\<rparr>
           in if \<not> ok then (False, tmuxremote_prompt_instance_free i)
              else (True, i\<lparr>pi_action_count := cd_action_count c\<rparr>))"

section \<open>Invariants\<close>

definition wf_candidate :: "prompt_candidate \<Rightarrow> bool" where
  "wf_candidate c \<longleftrightarrow> cd_pattern_id c \<noteq> None \<and> cd_prompt c \<noteq> None \<and>
     length (cd_actions c) = 16 \<and> 0 \<le> cd_action_count c \<and> cd_action_count c \<le> 16 \<and>
     (\<forall>a \<in> set (take (nat (cd_action_count c)) (cd_actions c)).
        pa_label a \<noteq> None \<and> pa_keys a \<noteq> None)"

definition wf_snapshot :: "terminal_snapshot \<Rightarrow> bool" where
  "wf_snapshot sn \<longleftrightarrow> 0 \<le> sn_rows sn \<and> sn_rows sn \<le> 65535 \<and>
     length (sn_lines sn) = nat (sn_rows sn)"

text \<open>What the PCRE2 documentation promises of a match that sets \<open>rc\<close> pairs.\<close>

definition pcre2_ok :: "'re pcre2 \<Rightarrow> bool" where
  "pcre2_ok api \<longleftrightarrow> (\<forall>re s rc ov. pcre2_match api re s = (rc, ov) \<and> 0 < rc \<longrightarrow>
     2 * rc \<le> int (length ov) \<and> (\<forall>k. Some k \<in> set ov \<longrightarrow> k \<le> length s))"

text \<open>A rule as \<open>load_rule\<close> produces it, whose scan window does not overflow \<open>int\<close>.\<close>

definition wf_rule :: "'re compiled_prompt_rule \<Rightarrow> bool" where
  "wf_rule r \<longleftrightarrow> cr_pattern_id r \<noteq> None \<and> cr_prompt_regex r \<noteq> None \<and>
     0 < cr_max_scan_lines r \<and> cr_max_scan_lines r \<le> INT_MAX - 65537"

lemma dup_capture_safe:
  assumes "pcre2_ok api" and "pcre2_match api re s = (rc, ov)" and "3 \<le> rc"
    and "i = 1 \<or> i = 2"
  shows "\<exists>r. dup_capture al s ov i = Some r"
proof -
  have ov: "6 \<le> int (length ov)" "\<And>k. Some k \<in> set ov \<Longrightarrow> k \<le> length s"
    using assms(1,2,3) by (force simp: pcre2_ok_def)+
  have i: "0 \<le> i * 2" "i * 2 < int (length ov)" "0 \<le> i * 2 + 1" "i * 2 + 1 < int (length ov)"
    using assms(4) ov(1) by auto
  let ?e = "ov ! nat (i * 2 + 1)"
  have "?e \<in> set ov" using i by simp
  then have "\<And>k. ?e = Some k \<Longrightarrow> k \<le> length s" using ov(2) by metis
  then show ?thesis
    unfolding dup_capture_def using i
    by (auto simp: array_get_Some mem_read_def split: option.splits)
qed

lemma append_action_wf:
  assumes "wf_candidate c" and "append_action al c l k = (ok, c')"
  shows "wf_candidate c'"
    and "ok \<Longrightarrow> cd_action_count c' = cd_action_count c + 1"
    and "\<not> ok \<Longrightarrow> c' = c"
    and "cd_pattern_id c' = cd_pattern_id c" "cd_pattern_type c' = cd_pattern_type c"
      "cd_prompt c' = cd_prompt c" "cd_anchor_row c' = cd_anchor_row c"
proof -
  have "nat (cd_action_count c + 1) = Suc (nat (cd_action_count c))"
    using assms(1) by (simp add: wf_candidate_def nat_add_distrib)
  then show "wf_candidate c'"
    using assms
    by (auto simp: append_action_def wf_candidate_def Let_def take_Suc_conv_app_nth
        split: if_splits)
qed (use assms(2) in \<open>auto simp: append_action_def Let_def split: if_splits\<close>)

section \<open>Numbered menus\<close>

lemma match_option_line_pcre2:
  assumes "match_option_line api re line = (subject, rc, ov)"
  shows "pcre2_match api re subject = (rc, ov)"
  using assms unfolding match_option_line_def
  by (auto simp: Let_def split: prod.splits if_splits option.splits)

text \<open>The three ways in which one row of the menu scan ends.\<close>

lemma extract_rows_step:
  assumes "extract_rows api al re tmpl lines c seen (row # rows) = Some r"
  obtains (skip) "extract_rows api al re tmpl lines c seen rows = Some r"
  | (stop) "r = (c, seen)"
  | (add) c' num label n rest keys where
      "strtol num = Some (n, rest)" "1 \<le> n" "n \<le> 16" "nat n < length seen" "\<not> seen ! nat n"
      "replace_number_token al tmpl num = Some keys"
      "append_action al c (Some label) (Some keys) = (True, c')"
      "extract_rows api al re tmpl lines c' (seen[nat n := True]) rows = Some r"
proof -
  have append_fail: "c' = c" if "append_action al c l k = (False, c')" for l k c'
    using that by (auto simp: append_action_def Let_def split: if_splits)
  obtain line where line: "array_get lines row = Some line"
    using assms by (cases "array_get lines row") simp_all
  obtain subject rc ov where m: "match_option_line api re (the line) = (subject, rc, ov)"
    by (metis prod_cases3)
  show thesis
  proof (cases "line = None \<or> line = Some [] \<or> rc < 3")
    case True
    with assms line m have "extract_rows api al re tmpl lines c seen rows = Some r"
      by (auto simp: Let_def split: if_splits)
    then show thesis by (rule skip)
  next
    case False
    then have "dup_capture al subject ov 1 \<noteq> None \<and> dup_capture al subject ov 2 \<noteq> None"
      using assms line m by (auto simp: bind_eq_Some_conv)
    then obtain number label
      where nl: "dup_capture al subject ov 1 = Some number" "dup_capture al subject ov 2 = Some label"
      by blast
    show thesis
    proof (cases "number = None \<or> label = None \<or> strtol (the number) = None")
      case True
      with assms line m nl False have "extract_rows api al re tmpl lines c seen rows = Some r"
        by (auto simp: bind_eq_Some_conv split: option.splits)
      then show thesis by (rule skip)
    next
      case F2: False
      then obtain num lb n rest where num: "number = Some num" "label = Some lb"
        "strtol num = Some (n, rest)" by auto
      from assms line m nl False num show thesis
        by (auto simp: Let_def array_get_eq_Some_iff bind_eq_Some_conv intro: skip stop add
            dest: append_fail split: option.splits if_splits prod.splits)
    qed
  qed
qed

definition menu_numbers :: "string \<Rightarrow> prompt_candidate \<Rightarrow> (int \<times> string) list \<Rightarrow> bool" where
  "menu_numbers tmpl c nums \<longleftrightarrow> length nums = nat (cd_action_count c) \<and> distinct (map fst nums) \<and>
     (\<forall>i < length nums. (\<exists>rest. strtol (snd (nums ! i)) = Some (fst (nums ! i), rest)) \<and>
        pa_keys (cd_actions c ! i) = replace_number_token mem_ok tmpl (snd (nums ! i)))"

definition menu_inv :: "string \<Rightarrow> prompt_candidate \<Rightarrow> bool list \<Rightarrow> bool" where
  "menu_inv tmpl c seen \<longleftrightarrow> wf_candidate c \<and> length seen = 17 \<and>
     (\<exists>nums. menu_numbers tmpl c nums \<and>
        set (map fst nums) = {n. 1 \<le> n \<and> n \<le> 16 \<and> seen ! nat n})"

lemma replace_number_token_mem_ok:
  "replace_number_token al t n = Some k \<Longrightarrow> replace_number_token mem_ok t n = Some k"
  by (auto simp: replace_number_token_def Let_def dest: strdup_eq_Some split: option.splits if_splits)

lemma append_action_keys:
  assumes "append_action al c l (Some k) = (True, c')"
  shows "cd_actions c' = (cd_actions c)[nat (cd_action_count c) :=
           \<lparr>pa_label = trim_dup al l, pa_keys = Some k\<rparr>]"
    and "cd_action_count c < 16"
  using assms by (auto simp: append_action_def Let_def strdup_safe_def dest: strdup_eq_Some split: if_splits)

lemma menu_inv_add:
  assumes inv: "menu_inv tmpl c seen" and n: "strtol num = Some (n, rest)" "1 \<le> n" "n \<le> 16"
    and unseen: "\<not> seen ! nat n" and keys: "replace_number_token al tmpl num = Some keys"
    and app: "append_action al c (Some label) (Some keys) = (True, c')"
  shows "menu_inv tmpl c' (seen[nat n := True])"
proof -
  from inv obtain nums where wf: "wf_candidate c" and len: "length seen = 17"
    and nums: "menu_numbers tmpl c nums" "set (map fst nums) = {n. 1 \<le> n \<and> n \<le> 16 \<and> seen ! nat n}"
    by (auto simp: menu_inv_def)
  note wf' = append_action_wf [OF wf app]
  have ln: "length nums = nat (cd_action_count c)" using nums(1) by (simp add: menu_numbers_def)
  have room: "nat (cd_action_count c) < length (cd_actions c)"
    using wf append_action_keys(2) [OF app] by (auto simp: wf_candidate_def)
  have "nat (cd_action_count c') = Suc (nat (cd_action_count c))"
    using wf wf'(2) by (simp add: wf_candidate_def nat_add_distrib)
  moreover have "n \<notin> set (map fst nums)" using nums(2) unseen n by simp
  ultimately have "menu_numbers tmpl c' (nums @ [(n, num)])"
    using nums(1) n(1) room ln replace_number_token_mem_ok [OF keys] append_action_keys(1) [OF app]
    by (auto simp: menu_numbers_def nth_append less_Suc_eq nth_list_update)
  moreover have "set (map fst (nums @ [(n, num)])) =
      {m. 1 \<le> m \<and> m \<le> 16 \<and> seen[nat n := True] ! nat m}"
    using nums(2) n(2,3) len by (auto simp: nth_list_update)
  ultimately show ?thesis using wf'(1) len by (auto simp: menu_inv_def simp del: set_map map_append)
qed

definition same_head :: "prompt_candidate \<Rightarrow> prompt_candidate \<Rightarrow> bool" where
  "same_head a b \<longleftrightarrow> cd_pattern_id a = cd_pattern_id b \<and> cd_pattern_type a = cd_pattern_type b \<and>
     cd_prompt a = cd_prompt b \<and> cd_anchor_row a = cd_anchor_row b"

lemma extract_rows_inv:
  "extract_rows api al re tmpl lines c seen rows = Some (c', seen') \<Longrightarrow> menu_inv tmpl c seen \<Longrightarrow>
     menu_inv tmpl c' seen' \<and> same_head c c'"
proof (induction rows arbitrary: c seen)
  case Nil
  then show ?case by (simp add: same_head_def)
next
  case (Cons row rows)
  from Cons.prems(1) show ?case
  proof (cases rule: extract_rows_step)
    case skip
    with Cons show ?thesis by simp
  next
    case stop
    with Cons.prems(2) show ?thesis by (simp add: same_head_def)
  next
    case (add c1 num label n rest keys)
    from Cons.prems(2) have "wf_candidate c" by (simp add: menu_inv_def)
    note wf' = append_action_wf [OF this add(7)]
    from Cons.IH [OF add(8) menu_inv_add [OF Cons.prems(2) add(1,2,3,5,6,7)]] wf'
    show ?thesis by (simp add: same_head_def)
  qed
qed

lemma menu_inv_init:
  "wf_candidate c \<Longrightarrow> cd_action_count c = 0 \<Longrightarrow> menu_inv tmpl c (replicate 17 False)"
  by (auto simp: menu_inv_def menu_numbers_def nth_replicate)

lemma extract_menu:
  assumes "extract_numbered_menu_actions api al rule sn row c = Some (True, c')"
    and wf: "wf_candidate c" "cd_action_count c = 0"
  obtains tmpl nums where "cr_action_template_keys rule = Some tmpl" "menu_numbers tmpl c' nums"
    "fst ` set nums = {1..cd_action_count c'}" "2 \<le> cd_action_count c'" "wf_candidate c'"
    "same_head c c'"
proof -
  from assms(1) obtain tmpl re rows seen where tmpl: "cr_action_template_keys rule = Some tmpl"
    and ex: "extract_rows api al re tmpl (sn_lines sn) c (replicate 17 False) rows = Some (c', seen)"
    and two: "2 \<le> cd_action_count c'" and all: "\<forall>n \<in> set [1..cd_action_count c']. seen ! nat n"
    by (auto simp: extract_numbered_menu_actions_def Let_def bind_eq_Some_conv
        split: option.splits if_splits)
  from extract_rows_inv [OF ex menu_inv_init [OF wf]] obtain nums
    where inv: "wf_candidate c'" "same_head c c'" and nums: "menu_numbers tmpl c' nums"
      and set: "fst ` set nums = {n. 1 \<le> n \<and> n \<le> 16 \<and> seen ! nat n}"
    by (auto simp: menu_inv_def)
  have sub: "{1..cd_action_count c'} \<subseteq> fst ` set nums"
    using all inv(1) by (auto simp: set wf_candidate_def)
  moreover have "card (fst ` set nums) = card {1..cd_action_count c'}"
    using nums distinct_card [of "map fst nums"] by (simp add: menu_numbers_def)
  ultimately have "fst ` set nums = {1..cd_action_count c'}"
    by (metis card_subset_eq finite_imageI finite_set)
  with that [OF tmpl nums _ two inv] show thesis .
qed

section \<open>No undefined behaviour\<close>

lemma extract_rows_safe:
  assumes api: "pcre2_ok api" and "\<forall>row \<in> set rows. 0 \<le> row \<and> row < int (length lines)"
    and "length seen = 17"
  shows "\<exists>r. extract_rows api al re tmpl lines c seen rows = Some r"
  using assms(2,3)
proof (induction rows arbitrary: c seen)
  case Nil
  then show ?case by simp
next
  case (Cons row rows)
  have IH: "\<exists>r. extract_rows api al re tmpl lines c seen rows = Some r" if "length seen = 17" for c seen
    using Cons that by simp
  have row: "array_get lines row = Some (lines ! nat row)" using Cons.prems by (simp add: array_get_Some)
  obtain subject rc ov where m: "match_option_line api re (the (lines ! nat row)) = (subject, rc, ov)"
    by (metis prod_cases3)
  show ?case
  proof (cases "lines ! nat row = None \<or> lines ! nat row = Some [] \<or> rc < 3")
    case True
    with row m IH [OF Cons.prems(2)] show ?thesis by auto
  next
    case False
    from dup_capture_safe [OF api match_option_line_pcre2 [OF m]] False obtain number label
      where "dup_capture al subject ov 1 = Some number" "dup_capture al subject ov 2 = Some label"
      by (metis linorder_not_le)
    with row m False IH Cons.prems(2) show ?thesis
      by (auto simp: Let_def array_get_Some split: option.splits prod.splits)
  qed
qed

lemma extract_menu_safe:
  assumes "pcre2_ok api" and "wf_rule rule" and "wf_snapshot sn" and "0 \<le> row" and "row < sn_rows sn"
  shows "extract_numbered_menu_actions api al rule sn row c \<noteq> None"
proof -
  have add: "c_add row (cr_max_scan_lines rule) = Some (row + cr_max_scan_lines rule)"
    using assms by (intro c_add_Some) (auto simp: wf_rule_def wf_snapshot_def INT_MAX_def)
  have ex: "\<exists>r. extract_rows api al re tmpl (sn_lines sn) c (replicate 17 False) [row + 1..m] = Some r"
    if "m < sn_rows sn" for re tmpl m
    using assms that by (intro extract_rows_safe) (auto simp: wf_snapshot_def)
  define m where "m = (if sn_rows sn \<le> row + cr_max_scan_lines rule
    then sn_rows sn - 1 else row + cr_max_scan_lines rule)"
  have m: "m < sn_rows sn" by (simp add: m_def)
  have body: "(extract_rows api al re tmpl (sn_lines sn) c (replicate 17 False) [row + 1..m] \<bind>
      (\<lambda>(c', seen). if cd_action_count c' < 2 \<or> \<not> seen ! 1 then Some (False, c')
        else Some (\<forall>n \<in> set [1..cd_action_count c']. seen ! nat n, c'))) \<noteq> None" for re tmpl
    using ex [OF m, of re tmpl] by (auto split: prod.splits)
  let ?re = "case cr_option_regex rule of Some re \<Rightarrow> Some re
    | None \<Rightarrow> compile_regex api fallback_option_pattern"
  show ?thesis
  proof (cases "cr_action_template_keys rule = None \<or> ?re = None")
    case True
    then show ?thesis by (auto simp: extract_numbered_menu_actions_def split: option.split)
  next
    case False
    then obtain tmpl re where tr: "cr_action_template_keys rule = Some tmpl" "?re = Some re"
      by (metis not_None_eq)
    show ?thesis
      unfolding extract_numbered_menu_actions_def tr add Let_def
      using body [of re tmpl] by (auto simp: m_def)
  qed
qed

lemma match_rows_safe:
  assumes "pcre2_ok api" and "wf_rule rule" and "wf_snapshot sn"
    and "\<forall>row \<in> set rows. 0 \<le> row \<and> row < sn_rows sn"
  shows "\<exists>r. match_rows api al rule sn rows = Some r"
  using assms(4)
proof (induction rows)
  case Nil
  then show ?case by simp
next
  case (Cons row rows)
  then have IH: "\<exists>r. match_rows api al rule sn rows = Some r" and row: "0 \<le> row" "row < sn_rows sn"
    by simp_all
  have line: "array_get (sn_lines sn) row = Some (sn_lines sn ! nat row)"
    using row assms(3) by (simp add: wf_snapshot_def array_get_Some)
  have "\<exists>b. is_cursor_relevant_for_prompt rule sn row = Some b"
    using row assms(2,3)
    by (auto simp: is_cursor_relevant_for_prompt_def c_add_def wf_rule_def wf_snapshot_def INT_MAX_def)
  moreover have "fill_candidate_from_rule api al rule sn row \<noteq> None"
  proof -
    obtain pid where "cr_pattern_id rule = Some pid" using assms(2) by (auto simp: wf_rule_def)
    moreover have "(extract_numbered_menu_actions api al rule sn row c \<bind>
        (\<lambda>(ok, c'). Some (if ok then Some c' else None))) \<noteq> None" for c
      using extract_menu_safe [OF assms(1,2,3) row, of al c] by (auto split: prod.splits)
    ultimately show ?thesis using line
      by (simp add: fill_candidate_from_rule_def Let_def split: prod.split)
  qed
  then have "\<exists>f. fill_candidate_from_rule api al rule sn row = Some f" by simp
  ultimately show ?case using IH line by (auto split: option.splits)
qed

lemma ruleset_match_safe:
  assumes "pcre2_ok api" and "\<forall>r \<in> set rules. wf_rule r" and "wf_snapshot sn"
  shows "\<exists>r. tmuxremote_prompt_ruleset_match api al rules sn = Some r"
  using assms(2)
proof (induction rules)
  case Nil
  then show ?case by simp
next
  case (Cons rule rules)
  have "\<exists>r. match_rows api al rule sn (rev [0..sn_rows sn - 1]) = Some r"
    using Cons.prems assms by (intro match_rows_safe) auto
  with Cons show ?case by (auto split: option.splits)
qed

section \<open>What a match means\<close>

lemma append_static_actions_wf:
  "append_static_actions al c as = (ok, c') \<Longrightarrow> wf_candidate c \<Longrightarrow>
     wf_candidate c' \<and> same_head c c' \<and>
     (ok \<longrightarrow> cd_action_count c' = cd_action_count c + int (length as))"
proof (induction as arbitrary: c)
  case Nil
  then show ?case by (simp add: same_head_def)
next
  case (Cons a as)
  obtain ok1 c1 where app: "append_action al c (pa_label a) (pa_keys a) = (ok1, c1)"
    by (metis prod.exhaust)
  note wf' = append_action_wf [OF Cons.prems(2) app]
  show ?case
    using Cons.prems(1) Cons.IH [of c1] wf' app by (cases ok1) (auto simp: same_head_def)
qed

definition head_of :: "'re compiled_prompt_rule \<Rightarrow> terminal_snapshot \<Rightarrow> int \<Rightarrow> prompt_candidate \<Rightarrow> bool" where
  "head_of rule sn row c \<longleftrightarrow> cd_pattern_id c = cr_pattern_id rule \<and>
     cd_pattern_type c = cr_pattern_type rule \<and> cd_anchor_row c = row \<and>
     (\<exists>l. sn_lines sn ! nat row = Some l \<and> cd_prompt c = Some (trim l))"

lemma fill_candidate:
  assumes "fill_candidate_from_rule api al rule sn row = Some (Some c)"
  shows "wf_candidate c" and "0 < cd_action_count c" and "head_of rule sn row c"
    and "cr_pattern_type rule = NUMBERED_MENU \<Longrightarrow>
       \<exists>tmpl nums. cr_action_template_keys rule = Some tmpl \<and> menu_numbers tmpl c nums \<and>
         fst ` set nums = {1..cd_action_count c} \<and> 2 \<le> cd_action_count c"
    and "cr_pattern_type rule \<noteq> NUMBERED_MENU \<Longrightarrow> cd_action_count c = int (length (cr_static_actions rule))"
proof -
  from assms obtain pid line where pid: "cr_pattern_id rule = Some pid"
    and line: "array_get (sn_lines sn) row = Some line"
    by (auto simp: fill_candidate_from_rule_def bind_eq_Some_conv)
  define c0 where "c0 = empty_candidate\<lparr>cd_pattern_id := strdup al pid,
    cd_pattern_type := cr_pattern_type rule, cd_prompt := trim_dup al line, cd_anchor_row := row\<rparr>"
  from assms pid line have ne: "cd_pattern_id c0 \<noteq> None" "cd_prompt c0 \<noteq> None"
    by (auto simp: fill_candidate_from_rule_def c0_def Let_def split: if_splits)
  then have c0: "wf_candidate c0" "cd_action_count c0 = 0"
    by (simp_all add: wf_candidate_def c0_def empty_candidate_def)
  have head: "head_of rule sn row c" if "same_head c0 c"
    using that ne pid line
    by (auto simp: head_of_def same_head_def c0_def trim_dup_def array_get_eq_Some_iff
        dest: strdup_eq_Some split: option.splits if_splits)
  have *: "wf_candidate c \<and> 0 < cd_action_count c \<and> same_head c0 c \<and>
       (\<exists>tmpl nums. cr_action_template_keys rule = Some tmpl \<and> menu_numbers tmpl c nums \<and>
         fst ` set nums = {1..cd_action_count c} \<and> 2 \<le> cd_action_count c)"
    if "cr_pattern_type rule = NUMBERED_MENU"
  proof -
    from assms pid line that have "extract_numbered_menu_actions api al rule sn row c0 = Some (True, c)"
      by (auto simp: fill_candidate_from_rule_def c0_def Let_def bind_eq_Some_conv split: if_splits)
    from extract_menu [OF this c0] show ?thesis by (metis less_le_trans zero_less_numeral)
  qed
  have **: "wf_candidate c \<and> 0 < cd_action_count c \<and> same_head c0 c \<and>
       cd_action_count c = int (length (cr_static_actions rule))"
    if "cr_pattern_type rule \<noteq> NUMBERED_MENU"
  proof -
    from assms pid line that
    have "append_static_actions al c0 (cr_static_actions rule) = (True, c)" "0 < cd_action_count c"
      by (auto simp: fill_candidate_from_rule_def c0_def Let_def split: if_splits prod.splits)
    with append_static_actions_wf [OF this(1) c0(1)] c0(2) show ?thesis by simp
  qed
  from * ** head show "wf_candidate c" "0 < cd_action_count c" "head_of rule sn row c" by blast+
  from * show "cr_pattern_type rule = NUMBERED_MENU \<Longrightarrow>
       \<exists>tmpl nums. cr_action_template_keys rule = Some tmpl \<and> menu_numbers tmpl c nums \<and>
         fst ` set nums = {1..cd_action_count c} \<and> 2 \<le> cd_action_count c" by blast
  from ** show "cr_pattern_type rule \<noteq> NUMBERED_MENU \<Longrightarrow>
       cd_action_count c = int (length (cr_static_actions rule))" by blast
qed

text \<open>The conditions under which a row is the place of a prompt for a rule.\<close>

definition prompt_row_for ::
  "'re pcre2 \<Rightarrow> 're compiled_prompt_rule \<Rightarrow> terminal_snapshot \<Rightarrow> int \<Rightarrow> bool" where
  "prompt_row_for api rule sn row \<longleftrightarrow>
     (\<exists>l. sn_lines sn ! nat row = Some l \<and> l \<noteq> [] \<and>
        regex_matches_line api (cr_prompt_regex rule) (Some l)) \<and>
     row - 1 \<le> sn_cursor_row sn \<and> sn_cursor_row sn \<le> row + cr_max_scan_lines rule + 2"

lemma match_rows_sound:
  "match_rows api al rule sn rows = Some (Some c) \<Longrightarrow>
     \<exists>row \<in> set rows. prompt_row_for api rule sn row \<and>
       fill_candidate_from_rule api al rule sn row = Some (Some c)"
proof (induction rows)
  case Nil
  then show ?case by simp
next
  case (Cons row rows)
  obtain line where line: "array_get (sn_lines sn) row = Some line"
    using Cons.prems by (cases "array_get (sn_lines sn) row") simp_all
  show ?case
  proof (cases "match_rows api al rule sn rows = Some (Some c)")
    case True
    with Cons.IH show ?thesis by auto
  next
    case False
    with Cons.prems line have "line \<noteq> None \<and> line \<noteq> Some []"
      and "regex_matches_line api (cr_prompt_regex rule) line"
      and rel: "is_cursor_relevant_for_prompt rule sn row = Some True"
      and "fill_candidate_from_rule api al rule sn row = Some (Some c)"
      by (auto simp: bind_eq_Some_conv split: if_splits option.splits)
    moreover from rel have "row - 1 \<le> sn_cursor_row sn"
      "sn_cursor_row sn \<le> row + cr_max_scan_lines rule + 2"
      by (auto simp: is_cursor_relevant_for_prompt_def bind_eq_Some_conv dest!: c_add_eq_Some
          split: if_splits)
    ultimately show ?thesis using line by (auto simp: prompt_row_for_def array_get_eq_Some_iff)
  qed
qed

lemma ruleset_match_sound:
  "tmuxremote_prompt_ruleset_match api al rules sn = Some (Some c) \<Longrightarrow>
     \<exists>rule \<in> set rules. \<exists>row. 0 \<le> row \<and> row < sn_rows sn \<and> prompt_row_for api rule sn row \<and>
       fill_candidate_from_rule api al rule sn row = Some (Some c)"
proof (induction rules)
  case Nil
  then show ?case by simp
next
  case (Cons rule rules)
  then obtain r where r: "match_rows api al rule sn (rev [0..sn_rows sn - 1]) = Some r"
    by (auto simp: bind_eq_Some_conv)
  show ?case
  proof (cases r)
    case None
    with Cons r show ?thesis by auto
  next
    case (Some d)
    with Cons.prems r have "d = c" by simp
    with match_rows_sound [of api al rule sn "rev [0..sn_rows sn - 1]" c] r Some show ?thesis
      by force
  qed
qed

section \<open>Candidates become instances\<close>

lemma instance_actions_length:
  "instance_actions al src i n dst = (ok, as) \<Longrightarrow> length as = length dst"
  by (induction al src i n dst rule: instance_actions.induct) (auto simp: Let_def split: if_splits)

lemma instance_actions_mem_ok:
  assumes "i + n \<le> length src" and "i + n \<le> length dst"
    and "\<forall>a \<in> set (take n (drop i src)). pa_label a \<noteq> None \<and> pa_keys a \<noteq> None"
  shows "instance_actions mem_ok src i n dst =
     (True, take i dst @ take n (drop i src) @ drop (i + n) dst)"
  using assms
proof (induction n arbitrary: i dst)
  case 0
  then show ?case by simp
next
  case (Suc n)
  have src: "drop i src = src ! i # drop (Suc i) src" using Suc.prems by (simp add: Cons_nth_drop_Suc)
  have i: "i < length dst" using Suc.prems by simp
  let ?d = "dst[i := src ! i]"
  from src Suc.prems(3) have "pa_label (src ! i) \<noteq> None" "pa_keys (src ! i) \<noteq> None" by auto
  then have step: "instance_actions mem_ok src i (Suc n) dst = instance_actions mem_ok src (i + 1) n ?d"
    by (auto simp: Let_def strdup_safe_def intro!: arg_cong [where f = "instance_actions mem_ok src (Suc i) n"]
        prompt_action.equality arg_cong [where f = "\<lambda>x. dst[i := x]"])
  have "instance_actions mem_ok src (i + 1) n ?d =
      (True, take (i + 1) ?d @ take n (drop (i + 1) src) @ drop (i + 1 + n) ?d)"
    using Suc.prems src by (intro Suc.IH) auto
  moreover have "take (i + 1) ?d = take i dst @ [src ! i]"
    using i by (simp add: take_Suc_conv_app_nth)
  ultimately show ?case unfolding step using src by simp
qed

lemma candidate_to_instance_ok:
  assumes "wf_candidate c" and "inst_ok i"
  shows "inst_ok (snd (tmuxremote_prompt_candidate_to_instance al c i))"
proof -
  let ?f = "tmuxremote_prompt_instance_free i"
  have f: "inst_ok ?f" "length (pi_actions ?f) = 16" using assms inst_okD [of ?f] by simp_all
  have len: "length as = 16" if "instance_actions al (cd_actions c) 0 n (pi_actions ?f) = (ok, as)"
    for n ok as using instance_actions_length [OF that] f by simp
  have head: "inst_ok (?f\<lparr>pi_pattern_id := a, pi_prompt := b, pi_pattern_type := t, pi_anchor_row := r\<rparr>)"
    for a b t r using f by (simp add: inst_ok_def)
  have upd: "inst_ok (j\<lparr>pi_actions := as, pi_action_count := n\<rparr>)"
    if "inst_ok j" "length as = 16" "0 \<le> n" "n \<le> 16" for j as n using that by (simp add: inst_ok_def)
  show ?thesis
    using head len assms(1) upd [OF head]
    by (simp add: tmuxremote_prompt_candidate_to_instance_def Let_def wf_candidate_def inst_ok_upd(3)
        split: prod.splits)
qed

lemma candidate_to_instance_mem_ok:
  assumes c: "wf_candidate c" and i: "inst_ok i"
  obtains j where "tmuxremote_prompt_candidate_to_instance mem_ok c i = (True, j)"
    and "inst_ok j" and "inst_full j" and "pi_pattern_id j = cd_pattern_id c"
    and "pi_pattern_type j = cd_pattern_type c" and "pi_prompt j = cd_prompt c"
    and "visible_actions j = take (nat (cd_action_count c)) (cd_actions c)"
    and "pi_action_count j = cd_action_count c" and "pi_anchor_row j = cd_anchor_row c"
proof -
  let ?n = "nat (cd_action_count c)" and ?f = "tmuxremote_prompt_instance_free i"
  let ?j = "snd (tmuxremote_prompt_candidate_to_instance mem_ok c i)"
  have n: "?n \<le> length (cd_actions c)" "?n \<le> length (pi_actions ?f)"
    using c inst_okD [OF inst_ok_free [OF i]] by (auto simp: wf_candidate_def)
  have acts: "instance_actions mem_ok (cd_actions c) 0 ?n (pi_actions ?f) =
      (True, take ?n (cd_actions c) @ drop ?n (pi_actions ?f))"
    using instance_actions_mem_ok [of 0 ?n "cd_actions c" "pi_actions ?f"] c n
    by (simp add: wf_candidate_def)
  obtain pid p where heads: "cd_pattern_id c = Some pid" "cd_prompt c = Some p"
    using c by (auto simp: wf_candidate_def)
  have eq: "tmuxremote_prompt_candidate_to_instance mem_ok c i =
      (True, ?f\<lparr>pi_pattern_id := cd_pattern_id c, pi_prompt := cd_prompt c,
         pi_pattern_type := cd_pattern_type c, pi_anchor_row := cd_anchor_row c,
         pi_actions := take ?n (cd_actions c) @ drop ?n (pi_actions ?f),
         pi_action_count := cd_action_count c\<rparr>)"
    by (simp add: tmuxremote_prompt_candidate_to_instance_def Let_def strdup_safe_def heads acts)
  have vis: "visible_actions ?j = take ?n (cd_actions c)"
    using eq n by (simp add: visible_actions_def)
  show thesis
  proof (rule that [of ?j])
    show "inst_ok ?j" by (rule candidate_to_instance_ok [OF c i])
    show "inst_full ?j" using vis c by (simp add: inst_full_def wf_candidate_def)
  qed (use eq vis in simp_all)
qed

lemma load_rule_wf:
  assumes "load_rule api al d = Some r" and "pd_max_scan_lines d \<le> INT_MAX - 65537"
  shows "wf_rule r"
  using assms unfolding load_rule_def Let_def
  by (auto simp: wf_rule_def INT_MAX_def split: option.splits if_splits)

lemma ruleset_load_wf:
  assumes "r \<in> set (snd (tmuxremote_prompt_ruleset_load api al ds))"
    and "\<forall>d \<in> set ds. pd_max_scan_lines d \<le> INT_MAX - 65537"
  shows "wf_rule r"
proof -
  from assms(1) obtain d where "d \<in> set ds" "load_rule api al d = Some r"
    by (auto simp: tmuxremote_prompt_ruleset_load_def List.map_filter_def split: if_splits)
  with assms(2) show ?thesis by (auto intro: load_rule_wf)
qed

section \<open>A concrete matcher and screen\<close>

text \<open>
  A small regex engine for the concrete instances below: a pattern matches the lines that
  start with it, and the fallback option pattern matches \<open>digits. label\<close>.
\<close>

definition sample_match :: "string \<Rightarrow> string \<Rightarrow> int \<times> nat option list" where
  "sample_match re s =
     (if re = fallback_option_pattern
      then (let d = takeWhile isdigit s; r = dropWhile isdigit s
            in if d \<noteq> [] \<and> take 2 r = ''. '' \<and> 2 < length r
               then (3, [Some 0, Some (length s), Some 0, Some (length d),
                         Some (length d + 2), Some (length s)])
               else (-1, []))
      else if take (length re) s = re then (1, [Some 0, Some (length re)]) else (-1, []))"

definition sample_pcre2 :: "string pcre2" where
  "sample_pcre2 = \<lparr>pcre2_compile = Some, pcre2_match_data_create = (\<lambda>_. True), pcre2_match = sample_match\<rparr>"

lemma take_eq_length_le: "take (length re) s = re \<Longrightarrow> length re \<le> length s"
  by (metis length_take min.cobounded1)

lemma sample_pcre2_ok: "pcre2_ok sample_pcre2"
proof -
  have "length (takeWhile isdigit s) + 2 \<le> length s" if "2 < length (dropWhile isdigit s)" for s
    using that length_append [of "takeWhile isdigit s" "dropWhile isdigit s"]
    by (metis add_le_mono1 add.commute less_imp_le_nat nat_add_left_cancel_le takeWhile_dropWhile_id)
  then show ?thesis
    by (auto simp: pcre2_ok_def sample_pcre2_def sample_match_def Let_def length_takeWhile_le
        dest: take_eq_length_le split: if_splits)
qed

definition sample_definition :: pattern_definition where
  "sample_definition = \<lparr>pd_id = Some ''m'', pd_type = NUMBERED_MENU, pd_prompt_regex = Some ''Do'',
     pd_option_regex = None, pd_actions = [], pd_action_template = Some (Some ''{number}''),
     pd_max_scan_lines = 5\<rparr>"

definition sample_snapshot :: terminal_snapshot where
  "sample_snapshot = \<lparr>sn_sequence = 1, sn_rows = 3, sn_cols = 20, sn_cursor_row = 2,
     sn_cursor_col = 0, sn_alt_screen = False,
     sn_lines = [Some ''Do it?'', Some '' > 2. No'', Some ''1. Yes'']\<rparr>"

definition sample_candidate :: prompt_candidate where
  "sample_candidate = \<lparr>cd_pattern_id = Some ''m'', cd_pattern_type = NUMBERED_MENU,
     cd_prompt = Some ''Do it?'',
     cd_actions = \<lparr>pa_label = Some ''No'', pa_keys = Some ''2''\<rparr> #
       \<lparr>pa_label = Some ''Yes'', pa_keys = Some ''1''\<rparr> # replicate 14 null_action,
     cd_action_count = 2, cd_anchor_row = 0\<rparr>"

lemma sample_match_eval:
  "tmuxremote_prompt_ruleset_match sample_pcre2 mem_ok
     (snd (tmuxremote_prompt_ruleset_load sample_pcre2 mem_ok [sample_definition])) sample_snapshot =
   Some (Some sample_candidate)"
  by code_simp

section \<open>Properties\<close>

text \<open>
  Matching the compiled rules against a screen never faults: no read outside the lines,
  the captures or the table of seen numbers, no overflow of \<open>int\<close>, whatever allocations
  fail.  It holds for a regex library that reports offsets inside its subject, and for rules
  whose scan window leaves room for the screen's rows.
\<close>

theorem rule_matching_never_faults:
  assumes "pcre2_ok api" and "\<forall>d \<in> set defs. pd_max_scan_lines d \<le> INT_MAX - 65537"
    and "wf_snapshot sn"
  shows "\<exists>r. tmuxremote_prompt_ruleset_match api al
     (snd (tmuxremote_prompt_ruleset_load api al' defs)) sn = Some r"
  using assms by (intro ruleset_match_safe) (auto intro: ruleset_load_wf)

theorem rule_matching_never_faults_witness:
  "\<exists>r. tmuxremote_prompt_ruleset_match sample_pcre2 (\<lambda>n. n \<noteq> 3)
     (snd (tmuxremote_prompt_ruleset_load sample_pcre2 mem_ok [sample_definition])) sample_snapshot = Some r"
  by (rule rule_matching_never_faults)
     (simp_all add: sample_pcre2_ok sample_definition_def sample_snapshot_def wf_snapshot_def INT_MAX_def)

text \<open>
  C36: a detected prompt is on the screen: it belongs to a rule of the rule set and to a row
  whose text the rule's prompt regex matches, the cursor is between one row above that row and
  two rows below the rule's scan window, its text is the row without surrounding white space,
  and it offers between 1 and 16 actions, each with a label and keys.
\<close>

theorem detected_prompt_is_on_screen:
  assumes "tmuxremote_prompt_ruleset_match api al rules sn = Some (Some c)"
  shows "\<exists>rule \<in> set rules. \<exists>row. 0 \<le> row \<and> row < sn_rows sn \<and>
     prompt_row_for api rule sn row \<and> head_of rule sn row c \<and> wf_candidate c \<and> 0 < cd_action_count c"
proof -
  from ruleset_match_sound [OF assms] obtain rule row
    where *: "rule \<in> set rules" "0 \<le> row" "row < sn_rows sn" "prompt_row_for api rule sn row"
      and fill: "fill_candidate_from_rule api al rule sn row = Some (Some c)" by blast
  with fill_candidate [OF fill] show ?thesis by blast
qed

theorem detected_prompt_is_on_screen_witness:
  "\<exists>rule \<in> set (snd (tmuxremote_prompt_ruleset_load sample_pcre2 mem_ok [sample_definition])).
     \<exists>row. 0 \<le> row \<and> row < sn_rows sample_snapshot \<and>
     prompt_row_for sample_pcre2 rule sample_snapshot row \<and>
     head_of rule sample_snapshot row sample_candidate \<and>
     wf_candidate sample_candidate \<and> 0 < cd_action_count sample_candidate"
  by (rule detected_prompt_is_on_screen [OF sample_match_eval])

text \<open>
  C4: a detected numbered menu is complete: it has between 2 and 16 options, and the numbers
  read from the screen are exactly 1, 2, \<open>...\<close>, N, each once, in whatever order the rows
  show them.  Choosing the option with number \<open>n\<close> sends the rule's key template with the
  number put in.
\<close>

theorem numbered_menu_is_complete:
  assumes match: "tmuxremote_prompt_ruleset_match api al rules sn = Some (Some c)"
    and menu: "cd_pattern_type c = NUMBERED_MENU"
  shows "2 \<le> cd_action_count c \<and> cd_action_count c \<le> 16 \<and>
     (\<exists>rule \<in> set rules. \<exists>tmpl nums. cr_action_template_keys rule = Some tmpl \<and>
        cd_pattern_id c = cr_pattern_id rule \<and>
        length nums = nat (cd_action_count c) \<and> distinct (map fst nums) \<and>
        set (map fst nums) = {1..cd_action_count c} \<and>
        (\<forall>i < length nums. (\<exists>rest. strtol (snd (nums ! i)) = Some (fst (nums ! i), rest)) \<and>
           pa_keys (cd_actions c ! i) = replace_number_token mem_ok tmpl (snd (nums ! i))))"
proof -
  from ruleset_match_sound [OF match] obtain rule row where rule: "rule \<in> set rules"
    and fill: "fill_candidate_from_rule api al rule sn row = Some (Some c)" by blast
  note f = fill_candidate [OF fill]
  from f(3) menu have "cr_pattern_type rule = NUMBERED_MENU" "cd_pattern_id c = cr_pattern_id rule"
    by (simp_all add: head_of_def)
  with f(1,4) rule show ?thesis
    by (simp add: menu_numbers_def wf_candidate_def) blast
qed

theorem numbered_menu_is_complete_witness:
  "2 \<le> cd_action_count sample_candidate \<and> cd_action_count sample_candidate \<le> 16 \<and>
     (\<exists>rule \<in> set (snd (tmuxremote_prompt_ruleset_load sample_pcre2 mem_ok [sample_definition])).
        \<exists>tmpl nums. cr_action_template_keys rule = Some tmpl \<and>
        cd_pattern_id sample_candidate = cr_pattern_id rule \<and>
        length nums = nat (cd_action_count sample_candidate) \<and> distinct (map fst nums) \<and>
        set (map fst nums) = {1..cd_action_count sample_candidate} \<and>
        (\<forall>i < length nums. (\<exists>rest. strtol (snd (nums ! i)) = Some (fst (nums ! i), rest)) \<and>
           pa_keys (cd_actions sample_candidate ! i) =
             replace_number_token mem_ok tmpl (snd (nums ! i))))"
  by (rule numbered_menu_is_complete [OF sample_match_eval]) (simp add: sample_candidate_def)

text \<open>
  A yes/no or accept/reject rule with more than 16 actions is never detected, on any
  screen: the seventeenth action does not fit, and the whole candidate is dropped.
\<close>

theorem too_many_actions_never_match:
  assumes "cr_pattern_type rule \<noteq> NUMBERED_MENU" and "16 < length (cr_static_actions rule)"
  shows "tmuxremote_prompt_ruleset_match api al [rule] sn \<noteq> Some (Some c)"
proof
  assume "tmuxremote_prompt_ruleset_match api al [rule] sn = Some (Some c)"
  from ruleset_match_sound [OF this] obtain row
    where fill: "fill_candidate_from_rule api al rule sn row = Some (Some c)" by auto
  from fill_candidate(1,5) [OF fill] assms show False by (simp add: wf_candidate_def)
qed

theorem too_many_actions_never_match_witness:
  "tmuxremote_prompt_ruleset_match sample_pcre2 mem_ok
     [\<lparr>cr_pattern_id = Some ''m'', cr_pattern_type = YES_NO, cr_max_scan_lines = 5,
       cr_prompt_regex = Some ''Do'', cr_option_regex = None,
       cr_static_actions = replicate 17 \<lparr>pa_label = Some ''a'', pa_keys = Some ''a''\<rparr>,
       cr_action_template_keys = None\<rparr>] sample_snapshot \<noteq> Some (Some sample_candidate)"
  by (rule too_many_actions_never_match) simp_all

text \<open>
  The scan window of a configuration file is only bounded by the range of \<open>int\<close>.  At
  the top of that range the test whether the cursor is near a prompt overflows, on every row
  that the cursor is not above of.
\<close>

theorem scan_window_overflows:
  assumes "cr_max_scan_lines rule = INT_MAX" and "0 \<le> row" and "row - 1 \<le> sn_cursor_row sn"
  shows "is_cursor_relevant_for_prompt rule sn row = None"
  using assms by (auto simp: is_cursor_relevant_for_prompt_def c_add_def INT_MAX_def bind_eq_None_conv)

theorem scan_window_overflows_witness:
  "is_cursor_relevant_for_prompt
     (\<lparr>cr_pattern_id = Some ''m'', cr_pattern_type = YES_NO, cr_max_scan_lines = INT_MAX,
       cr_prompt_regex = Some ''Do'', cr_option_regex = None, cr_static_actions = [],
       cr_action_template_keys = None\<rparr>) sample_snapshot 0 = None"
  by (rule scan_window_overflows) (simp_all add: sample_snapshot_def)

end
