(* ===== verification/Prompt_Lifecycle.thy ===== *)
theory Prompt_Lifecycle
  imports Prompt_Rules
begin

text \<open>
  The prompt lifecycle (\<open>agent/src/tmuxremote_prompt_lifecycle.c\<close>): which prompt is active,
  when it is presented, updated and withdrawn, and the suppression of a resolved prompt.

  The callback is what the detector installs; it does not call back into the lifecycle.  An
  operation returns the new state and the list of the callback's invocations, in order.  The
  platforms of the agent are little-endian with a 4-byte \<open>int\<close> and enum, which fixes the
  bytes hashed for \<open>pattern_type\<close> and \<open>anchor_row\<close>.
\<close>

definition TMUXREMOTE_PROMPT_ABSENCE_SNAPSHOTS :: int where
  "TMUXREMOTE_PROMPT_ABSENCE_SNAPSHOTS = 2"

record prompt_lifecycle =
  lc_active :: prompt_instance
  lc_has_active :: bool
  lc_absence_snapshots :: int
  lc_last_sequence :: "64 word"
  lc_resolved_instance_id :: string
  lc_suppress_resolved :: bool
  lc_callback :: bool

datatype prompt_event = Event prompt_event_type "prompt_instance option" (event_id: string)

section \<open>Instance identity\<close>

fun fnv1a64 :: "byte list \<Rightarrow> 64 word \<Rightarrow> 64 word" where
  "fnv1a64 [] hash = hash"
| "fnv1a64 (b # bs) hash = fnv1a64 bs (xor hash (ucast b) * 1099511628211)"

definition bytes :: "string \<Rightarrow> byte list" where
  "bytes s = map byte_of_char s"

definition hash_string :: "string option \<Rightarrow> 64 word \<Rightarrow> 64 word" where
  "hash_string s hash = (case s of None \<Rightarrow> hash | Some x \<Rightarrow> fnv1a64 (bytes x) hash)"

fun prompt_type_value :: "prompt_type \<Rightarrow> 32 word" where
  "prompt_type_value YES_NO = 0"
| "prompt_type_value NUMBERED_MENU = 1"
| "prompt_type_value ACCEPT_REJECT = 2"

fun hash_actions :: "prompt_action list \<Rightarrow> 64 word \<Rightarrow> 64 word" where
  "hash_actions [] hash = hash"
| "hash_actions (a # as) hash = hash_actions as (hash_string (pa_keys a) (hash_string (pa_label a) hash))"

definition hex_digit :: "nat \<Rightarrow> char" where
  "hex_digit d = char_of (if d < 10 then 48 + d else 87 + d)"

text \<open>\<open>"%016" PRIx64\<close>: sixteen lower-case hexadecimal digits.\<close>

definition hex16 :: "64 word \<Rightarrow> string" where
  "hex16 w = map (\<lambda>i. hex_digit (nat (uint w div 16 ^ i mod 16))) (rev [0..<16])"

definition instance_hash :: "prompt_candidate \<Rightarrow> 64 word" where
  "instance_hash c =
     (let h = 1469598103934665603;
          h = hash_string (cd_pattern_id c) h;
          h = fnv1a64 (le32 (prompt_type_value (cd_pattern_type c))) h;
          h = hash_string (cd_prompt c) h;
          h = hash_actions (take (nat (cd_action_count c)) (cd_actions c)) h
      in fnv1a64 (le32 (word_of_int (cd_anchor_row c))) h)"

definition build_instance_id :: "prompt_candidate \<Rightarrow> string" where
  "build_instance_id c = strncpy_term TMUXREMOTE_PROMPT_INSTANCE_ID_MAX (hex16 (instance_hash c))"

section \<open>The state machine\<close>

definition emit_event ::
  "prompt_lifecycle \<Rightarrow> prompt_event_type \<Rightarrow> prompt_instance option \<Rightarrow> string \<Rightarrow> prompt_event list" where
  "emit_event lc type i instance_id = (if lc_callback lc then [Event type i instance_id] else [])"

definition clear_active :: "prompt_lifecycle \<Rightarrow> prompt_lifecycle" where
  "clear_active lc =
     (if \<not> lc_has_active lc then lc
      else lc\<lparr>lc_active := tmuxremote_prompt_instance_free (lc_active lc),
              lc_has_active := False, lc_absence_snapshots := 0\<rparr>)"

definition candidate_to_instance_with_id ::
  "alloc \<Rightarrow> prompt_candidate \<Rightarrow> prompt_instance \<Rightarrow> bool \<times> prompt_instance" where
  "candidate_to_instance_with_id al c out =
     (let (ok, i) = tmuxremote_prompt_candidate_to_instance al c out
      in if \<not> ok then (False, i) else (True, i\<lparr>pi_instance_id := build_instance_id c\<rparr>))"

definition tmuxremote_prompt_lifecycle_init :: prompt_lifecycle where
  "tmuxremote_prompt_lifecycle_init =
     \<lparr>lc_active = tmuxremote_prompt_instance_reset, lc_has_active = False,
      lc_absence_snapshots = 0, lc_last_sequence = 0, lc_resolved_instance_id = [],
      lc_suppress_resolved = False, lc_callback = False\<rparr>"

definition tmuxremote_prompt_lifecycle_free :: "prompt_lifecycle \<Rightarrow> prompt_lifecycle" where
  "tmuxremote_prompt_lifecycle_free lc = clear_active lc"

definition tmuxremote_prompt_lifecycle_set_callback ::
  "prompt_lifecycle \<Rightarrow> bool \<Rightarrow> prompt_lifecycle" where
  "tmuxremote_prompt_lifecycle_set_callback lc callback = lc\<lparr>lc_callback := callback\<rparr>"

definition is_suppressed :: "prompt_lifecycle \<Rightarrow> string \<Rightarrow> bool" where
  "is_suppressed lc instance_id \<longleftrightarrow>
     lc_suppress_resolved lc \<and> lc_resolved_instance_id lc \<noteq> [] \<and>
     instance_id = lc_resolved_instance_id lc"

definition end_suppression :: "prompt_lifecycle \<Rightarrow> prompt_lifecycle" where
  "end_suppression lc = lc\<lparr>lc_suppress_resolved := False, lc_resolved_instance_id := []\<rparr>"

text \<open>
  The incoming instance of a snapshot: whether there is one, whether it was suppressed, and
  its value.
\<close>

definition incoming_instance ::
  "alloc \<Rightarrow> prompt_lifecycle \<Rightarrow> prompt_candidate option \<Rightarrow> bool \<times> bool \<times> prompt_instance" where
  "incoming_instance al lc candidate =
     (case candidate of
        None \<Rightarrow> (False, False, tmuxremote_prompt_instance_reset)
      | Some c \<Rightarrow>
          (let (has, i) = candidate_to_instance_with_id al c tmuxremote_prompt_instance_reset
           in if has \<and> is_suppressed lc (pi_instance_id i)
              then (False, True, tmuxremote_prompt_instance_free i)
              else (has, False, i)))"

text \<open>
  \<open>if (copy(incoming, active)) { has_active = true; emit(type) }\<close>; only the branch without an
  active prompt also resets the absence counter.
\<close>

definition activate ::
  "alloc \<Rightarrow> prompt_lifecycle \<Rightarrow> prompt_instance \<Rightarrow> prompt_event_type \<Rightarrow> bool
     \<Rightarrow> prompt_lifecycle \<times> prompt_event list" where
  "activate al lc incoming type reset_absence =
     (let (ok, a) = tmuxremote_prompt_instance_copy al incoming (lc_active lc);
          lc = lc\<lparr>lc_active := a\<rparr>
      in if \<not> ok then (lc, [])
         else
           let lc = lc\<lparr>lc_has_active := True\<rparr>;
               lc = (if reset_absence then lc\<lparr>lc_absence_snapshots := 0\<rparr> else lc)
           in (lc, emit_event lc type (Some a) (pi_instance_id a)))"

text \<open>\<open>gone_id\<close> is copied before the active prompt is released, and reported after it.\<close>

definition withdraw :: "prompt_lifecycle \<Rightarrow> prompt_lifecycle \<times> prompt_event list" where
  "withdraw lc =
     (let gone_id = strncpy_term TMUXREMOTE_PROMPT_INSTANCE_ID_MAX (pi_instance_id (lc_active lc));
          lc = clear_active lc
      in (lc, emit_event lc GONE None gone_id))"

text \<open>The tail of \<open>process\<close> when a prompt is active and the snapshot shows one.\<close>

definition process_seen ::
  "alloc \<Rightarrow> prompt_lifecycle \<Rightarrow> prompt_instance \<Rightarrow> prompt_lifecycle \<times> prompt_event list" where
  "process_seen al lc0 incoming =
     (let lc = lc0\<lparr>lc_absence_snapshots := 0\<rparr>
      in if pi_instance_id (lc_active lc) = pi_instance_id incoming
         then
           if \<not> tmuxremote_prompt_instance_same_semantics (lc_active lc)
                  (incoming\<lparr>pi_revision := pi_revision (lc_active lc)\<rparr>)
           then activate al (clear_active lc)
                  (incoming\<lparr>pi_revision := pi_revision (lc_active lc) + 1\<rparr>) UPDATE False
           else (lc, [])
         else
           let (lc, gone) = withdraw lc;
               (lc, present) = activate al lc (incoming\<lparr>pi_revision := 1\<rparr>) PRESENT False
           in (lc, gone @ present))"

text \<open>The branch of \<open>process\<close> when a prompt is active and the snapshot does not show it.\<close>

definition process_missing :: "prompt_lifecycle \<Rightarrow> prompt_lifecycle \<times> prompt_event list" where
  "process_missing lc0 =
     (let lc = lc0\<lparr>lc_absence_snapshots := lc_absence_snapshots lc0 + 1\<rparr>
      in if lc_absence_snapshots lc \<ge> TMUXREMOTE_PROMPT_ABSENCE_SNAPSHOTS
         then let (lc, gone) = withdraw lc in (end_suppression lc, gone)
         else (lc, []))"

definition tmuxremote_prompt_lifecycle_process ::
  "alloc \<Rightarrow> prompt_lifecycle \<Rightarrow> prompt_candidate option \<Rightarrow> 64 word
     \<Rightarrow> prompt_lifecycle \<times> prompt_event list" where
  "tmuxremote_prompt_lifecycle_process al lc0 candidate snapshot_sequence =
     (let lc = lc0\<lparr>lc_last_sequence := snapshot_sequence\<rparr>;
          (has_incoming, suppressed_incoming, incoming) = incoming_instance al lc candidate;
          lc = (if has_incoming \<and> lc_suppress_resolved lc then end_suppression lc else lc)
      in if \<not> lc_has_active lc
         then
           if has_incoming then activate al lc (incoming\<lparr>pi_revision := 1\<rparr>) PRESENT True
           else if lc_suppress_resolved lc \<and> \<not> suppressed_incoming then (end_suppression lc, [])
           else (lc, [])
         else if \<not> has_incoming then process_missing lc
         else process_seen al lc incoming)"

definition tmuxremote_prompt_lifecycle_resolve ::
  "prompt_lifecycle \<Rightarrow> string option \<Rightarrow> prompt_lifecycle \<times> prompt_event list" where
  "tmuxremote_prompt_lifecycle_resolve lc instance_id =
     (case instance_id of
        None \<Rightarrow> (lc, [])
      | Some i \<Rightarrow>
          if i = [] then (lc, [])
          else
            let lc = lc\<lparr>lc_resolved_instance_id := strncpy_term TMUXREMOTE_PROMPT_INSTANCE_ID_MAX i,
                        lc_suppress_resolved := True\<rparr>
            in if lc_has_active lc \<and> pi_instance_id (lc_active lc) = i
               then withdraw lc else (lc, []))"

definition tmuxremote_prompt_lifecycle_copy_active ::
  "alloc \<Rightarrow> prompt_lifecycle \<Rightarrow> prompt_instance \<Rightarrow> bool \<times> prompt_instance" where
  "tmuxremote_prompt_lifecycle_copy_active al lc out =
     (if \<not> lc_has_active lc then (False, out)
      else tmuxremote_prompt_instance_copy al (lc_active lc) out)"

section \<open>The abstract machine\<close>

text \<open>
  What the lifecycle promises, without buffers and copies: the active prompt (identity,
  content, revision), the number of snapshots it has been missing from, and the identity that
  is held back because it was resolved.
\<close>

type_synonym prompt_content =
  "string option \<times> prompt_type \<times> string option \<times> prompt_action list \<times> int"

datatype spec_event =
    Present string prompt_content "32 word"
  | Update string prompt_content "32 word"
  | Gone string

type_synonym spec_state = "(string \<times> prompt_content \<times> 32 word) option \<times> int \<times> string option"

definition spec_process ::
  "spec_state \<Rightarrow> (string \<times> prompt_content) option \<Rightarrow> spec_state \<times> spec_event list" where
  "spec_process s seen =
     (case s of (active, missed, held) \<Rightarrow>
        (case (case seen of Some (i, _) \<Rightarrow> if held = Some i then None else seen | None \<Rightarrow> None) of
           None \<Rightarrow>
             (case active of
                None \<Rightarrow> ((None, 0, if seen = None then None else held), [])
              | Some (i, _, _) \<Rightarrow>
                  if missed + 1 \<ge> 2 then ((None, 0, None), [Gone i])
                  else ((active, missed + 1, held), []))
         | Some (i, content) \<Rightarrow>
             (case active of
                None \<Rightarrow> ((Some (i, content, 1), 0, None), [Present i content 1])
              | Some (i', content', v) \<Rightarrow>
                  if i' = i
                  then if content' = content then ((active, 0, None), [])
                       else ((Some (i, content, v + 1), 0, None), [Update i content (v + 1)])
                  else ((Some (i, content, 1), 0, None), [Gone i', Present i content 1]))))"

definition spec_resolve :: "spec_state \<Rightarrow> string \<Rightarrow> spec_state \<times> spec_event list" where
  "spec_resolve s i =
     (case s of (active, missed, held) \<Rightarrow>
        (case active of
           Some (i', _, _) \<Rightarrow> if i' = i then ((None, 0, Some i), [Gone i])
                            else ((active, missed, Some i), [])
         | None \<Rightarrow> ((None, missed, Some i), [])))"

definition content_of :: "prompt_instance \<Rightarrow> prompt_content" where
  "content_of i = (pi_pattern_id i, pi_pattern_type i, pi_prompt i, visible_actions i, pi_anchor_row i)"

definition candidate_content :: "prompt_candidate \<Rightarrow> prompt_content" where
  "candidate_content c = (cd_pattern_id c, cd_pattern_type c, cd_prompt c,
     take (nat (cd_action_count c)) (cd_actions c), cd_anchor_row c)"

definition abs_candidate :: "prompt_candidate \<Rightarrow> string \<times> prompt_content" where
  "abs_candidate c = (build_instance_id c, candidate_content c)"

definition abs_lifecycle :: "prompt_lifecycle \<Rightarrow> spec_state" where
  "abs_lifecycle lc =
     (if lc_has_active lc
      then Some (pi_instance_id (lc_active lc), content_of (lc_active lc), pi_revision (lc_active lc))
      else None,
      lc_absence_snapshots lc,
      if lc_suppress_resolved lc then Some (lc_resolved_instance_id lc) else None)"

text \<open>
  The meaning of a callback invocation; \<^const>\<open>None\<close> is a malformed one (the instance is
  missing, or its identity is not the one reported beside it).
\<close>

fun abs_event :: "prompt_event \<Rightarrow> spec_event option" where
  "abs_event (Event PRESENT (Some i) x) =
     (if pi_instance_id i = x then Some (Present x (content_of i) (pi_revision i)) else None)"
| "abs_event (Event UPDATE (Some i) x) =
     (if pi_instance_id i = x then Some (Update x (content_of i) (pi_revision i)) else None)"
| "abs_event (Event GONE None x) = Some (Gone x)"
| "abs_event _ = None"

definition wf_lifecycle :: "prompt_lifecycle \<Rightarrow> bool" where
  "wf_lifecycle lc \<longleftrightarrow> lc_callback lc \<and> inst_ok (lc_active lc) \<and>
     (lc_has_active lc \<longrightarrow> inst_full (lc_active lc)) \<and>
     (\<not> lc_has_active lc \<longrightarrow> lc_absence_snapshots lc = 0) \<and>
     (lc_suppress_resolved lc \<longrightarrow> lc_resolved_instance_id lc \<noteq> [])"

section \<open>Refinement\<close>

lemma length_hex16 [simp]: "length (hex16 w) = 16"
  by (simp add: hex16_def)

lemma build_instance_id_eq: "build_instance_id c = hex16 (instance_hash c)"
  by (simp add: build_instance_id_def strncpy_term_def)

lemma length_instance_id [simp]: "length (build_instance_id c) = 16"
  by (simp add: build_instance_id_eq)

lemma instance_id_not_empty [simp]: "build_instance_id c \<noteq> []"
  using length_instance_id [of c] by force

lemma instance_with_id:
  assumes "wf_candidate c"
  obtains i where "candidate_to_instance_with_id mem_ok c tmuxremote_prompt_instance_reset = (True, i)"
    and "inst_ok i" and "inst_full i" and "pi_instance_id i = build_instance_id c"
    and "content_of i = candidate_content c"
proof -
  from candidate_to_instance_mem_ok [OF assms inst_ok_reset] obtain j
    where j: "tmuxremote_prompt_candidate_to_instance mem_ok c tmuxremote_prompt_instance_reset = (True, j)"
      "inst_ok j" "inst_full j" and content: "content_of j = candidate_content c"
    unfolding content_of_def candidate_content_def by metis
  let ?i = "j\<lparr>pi_instance_id := build_instance_id c\<rparr>"
  have "inst_ok ?i" using j(2) by (simp add: inst_ok_def)
  moreover have "inst_full ?i" "content_of ?i = content_of j"
    using j(3) by (simp_all add: inst_full_def content_of_def visible_actions_def)
  ultimately show thesis using j(1) content
    by (intro that [of ?i]) (simp_all add: candidate_to_instance_with_id_def)
qed

lemma same_semantics_content:
  assumes "inst_ok a" and "inst_ok b"
  shows "tmuxremote_prompt_instance_same_semantics a b \<longleftrightarrow> content_of a = content_of b"
  using same_semantics_iff [OF assms] by (simp add: content_of_def)

lemma content_of_revision [simp]: "content_of (i\<lparr>pi_revision := r\<rparr>) = content_of i"
  by (simp add: content_of_def visible_actions_def)

lemma inst_ok_revision [simp]: "inst_ok (i\<lparr>pi_revision := r\<rparr>) = inst_ok i"
  by (simp add: inst_ok_def)

lemma inst_full_revision [simp]: "inst_full (i\<lparr>pi_revision := r\<rparr>) = inst_full i"
  by (simp add: inst_full_def visible_actions_def)

lemma copy_content:
  assumes "inst_ok src" "inst_full src" "inst_ok dst"
  obtains d where "tmuxremote_prompt_instance_copy mem_ok src dst = (True, d)" "inst_ok d" "inst_full d"
    "content_of d = content_of src" "pi_instance_id d = pi_instance_id src"
    "pi_revision d = pi_revision src"
  using copy_mem_ok [OF assms] unfolding content_of_def by metis

lemma activate_mem_ok:
  assumes i: "inst_ok i" "inst_full i" and lc: "inst_ok (lc_active lc)" "lc_callback lc"
  obtains a where "activate mem_ok lc i type b =
      (lc\<lparr>lc_active := a, lc_has_active := True,
          lc_absence_snapshots := (if b then 0 else lc_absence_snapshots lc)\<rparr>,
       [Event type (Some a) (pi_instance_id i)])"
    and "inst_ok a" "inst_full a" "content_of a = content_of i"
    "pi_instance_id a = pi_instance_id i" "pi_revision a = pi_revision i"
proof -
  from copy_content [OF i lc(1)] obtain a
    where a: "tmuxremote_prompt_instance_copy mem_ok i (lc_active lc) = (True, a)" "inst_ok a"
      "inst_full a" "content_of a = content_of i" "pi_instance_id a = pi_instance_id i"
      "pi_revision a = pi_revision i" by metis
  moreover from a(1,5) lc(2) have "activate mem_ok lc i type b =
      (lc\<lparr>lc_active := a, lc_has_active := True,
          lc_absence_snapshots := (if b then 0 else lc_absence_snapshots lc)\<rparr>,
       [Event type (Some a) (pi_instance_id i)])"
    by (simp add: activate_def emit_event_def)
  ultimately show thesis by (intro that)
qed

definition refines_step ::
  "prompt_lifecycle \<times> prompt_event list \<Rightarrow> spec_state \<times> spec_event list \<Rightarrow> bool" where
  "refines_step r s \<longleftrightarrow> wf_lifecycle (fst r) \<and> abs_lifecycle (fst r) = fst s \<and>
     map abs_event (snd r) = map Some (snd s)"

lemmas lifecycle_defs = refines_step_def wf_lifecycle_def abs_lifecycle_def
  end_suppression_def TMUXREMOTE_PROMPT_ABSENCE_SNAPSHOTS_def

lemma withdraw_eq:
  assumes "wf_lifecycle lc" and "lc_has_active lc"
  shows "withdraw lc = (lc\<lparr>lc_active := tmuxremote_prompt_instance_free (lc_active lc),
       lc_has_active := False, lc_absence_snapshots := 0\<rparr>,
     [Event GONE None (pi_instance_id (lc_active lc))])"
  using assms
  by (auto simp: withdraw_def clear_active_def emit_event_def wf_lifecycle_def strncpy_term_id
      dest: inst_okD(5))

lemma wf_lifecycle_upd [simp]:
  "wf_lifecycle (lc\<lparr>lc_last_sequence := q\<rparr>) = wf_lifecycle lc"
  "wf_lifecycle lc \<Longrightarrow> wf_lifecycle (end_suppression lc)"
  "wf_lifecycle lc \<Longrightarrow> lc_has_active lc \<Longrightarrow> wf_lifecycle (lc\<lparr>lc_absence_snapshots := n\<rparr>)"
  by (auto simp: wf_lifecycle_def end_suppression_def)

lemma process_missing_refines:
  assumes "wf_lifecycle lc" and "lc_has_active lc"
  shows "refines_step (process_missing lc)
     (let (a, m, h) = abs_lifecycle lc
      in if m + 1 \<ge> 2 then ((None, 0, None), [Gone (pi_instance_id (lc_active lc))])
         else ((a, m + 1, h), []))"
  using assms withdraw_eq [of "lc\<lparr>lc_absence_snapshots := lc_absence_snapshots lc + 1\<rparr>"]
  by (simp add: process_missing_def Let_def) (auto simp: lifecycle_defs)

lemma process_absent:
  assumes wf: "wf_lifecycle lc"
    and inc: "incoming_instance mem_ok (lc\<lparr>lc_last_sequence := q\<rparr>) cand = (False, cand \<noteq> None, j)"
    and held: "\<And>c. cand = Some c \<Longrightarrow> lc_suppress_resolved lc \<and>
       build_instance_id c = lc_resolved_instance_id lc"
  shows "refines_step (tmuxremote_prompt_lifecycle_process mem_ok lc cand q)
     (spec_process (abs_lifecycle lc) (map_option abs_candidate cand))"
proof (cases "lc_has_active lc")
  case True
  then have "tmuxremote_prompt_lifecycle_process mem_ok lc cand q =
      process_missing (lc\<lparr>lc_last_sequence := q\<rparr>)"
    using inc by (simp add: tmuxremote_prompt_lifecycle_process_def)
  with process_missing_refines [of "lc\<lparr>lc_last_sequence := q\<rparr>"] wf True held show ?thesis
    by (cases cand) (auto simp: spec_process_def abs_lifecycle_def abs_candidate_def)
next
  case False
  with wf inc held show ?thesis
    by (cases cand) (auto simp: Let_def lifecycle_defs tmuxremote_prompt_lifecycle_process_def
      spec_process_def abs_candidate_def)
qed

lemma reactivate:
  assumes wf: "wf_lifecycle lc" "lc_has_active lc" and i: "inst_ok i" "inst_full i" "pi_instance_id i = x" "content_of i = ct"
  shows "\<exists>a. activate mem_ok (lc\<lparr>lc_absence_snapshots := 0, lc_active := tmuxremote_prompt_instance_free (lc_active lc), lc_has_active := False\<rparr>)
        (i\<lparr>pi_revision := r\<rparr>) type False =
        (lc\<lparr>lc_active := a, lc_has_active := True, lc_absence_snapshots := 0\<rparr>, [Event type (Some a) x]) \<and>
      wf_lifecycle (lc\<lparr>lc_active := a, lc_has_active := True, lc_absence_snapshots := 0\<rparr>) \<and>
      content_of a = ct \<and> pi_instance_id a = x \<and> pi_revision a = r" (is "\<exists>a. activate mem_ok ?cleared _ _ _ = _ a \<and> _ a")
proof -
  have "inst_ok (lc_active lc)" "lc_callback lc" using wf by (simp_all add: wf_lifecycle_def)
  then have "inst_ok (i\<lparr>pi_revision := r\<rparr>)" "inst_full (i\<lparr>pi_revision := r\<rparr>)"
    "inst_ok (lc_active ?cleared)" "lc_callback ?cleared" using i by simp_all
  from activate_mem_ok [OF this, of type False] obtain a
    where "activate mem_ok ?cleared (i\<lparr>pi_revision := r\<rparr>) type False =
      (lc\<lparr>lc_active := a, lc_has_active := True, lc_absence_snapshots := 0\<rparr>, [Event type (Some a) x])"
      "inst_ok a" "inst_full a" "content_of a = ct" "pi_instance_id a = x" "pi_revision a = r"
    using i by auto
  then show ?thesis using wf by (intro exI [of _ a]) (auto simp: wf_lifecycle_def)
qed

lemma process_seen_refines:
  assumes wf: "wf_lifecycle lc" "lc_has_active lc" "\<not> lc_suppress_resolved lc"
    and i: "inst_ok i" "inst_full i" "pi_instance_id i = x" "content_of i = ct"
  shows "refines_step (process_seen mem_ok lc i) (spec_process (abs_lifecycle lc) (Some (x, ct)))"
proof -
  let ?lc = "lc\<lparr>lc_absence_snapshots := 0\<rparr>" and ?a = "lc_active lc"
  let ?cleared = "?lc\<lparr>lc_active := tmuxremote_prompt_instance_free ?a, lc_has_active := False\<rparr>"
  have act: "inst_ok ?a" "inst_full ?a" "lc_callback lc" using wf by (simp_all add: wf_lifecycle_def)
  have abs: "abs_lifecycle lc = (Some (pi_instance_id ?a, content_of ?a, pi_revision ?a),
      lc_absence_snapshots lc, None)" using wf by (simp add: abs_lifecycle_def)
  have clear: "clear_active ?lc = ?cleared" using wf by (simp add: clear_active_def)
  note new = reactivate [OF wf(1,2) i]
  consider (other) "pi_instance_id ?a \<noteq> x" | (same) "pi_instance_id ?a = x" "content_of ?a = ct"
    | (update) "pi_instance_id ?a = x" "content_of ?a \<noteq> ct" by blast
  then show ?thesis
  proof cases
    case other
    from new [of 1 PRESENT] obtain a
      where a: "activate mem_ok ?cleared (i\<lparr>pi_revision := 1\<rparr>) PRESENT False =
        (lc\<lparr>lc_active := a, lc_has_active := True, lc_absence_snapshots := 0\<rparr>, [Event PRESENT (Some a) x])"
        "wf_lifecycle (lc\<lparr>lc_active := a, lc_has_active := True, lc_absence_snapshots := 0\<rparr>)"
        "content_of a = ct" "pi_instance_id a = x" "pi_revision a = 1" by blast
    have "withdraw ?lc = (?cleared, [Event GONE None (pi_instance_id ?a)])"
      using wf by (subst withdraw_eq) simp_all
    with a other i wf show ?thesis
      by (simp add: process_seen_def refines_step_def spec_process_def abs abs_lifecycle_def)
  next
    case same
    with i wf act abs show ?thesis
      by (auto simp: process_seen_def refines_step_def spec_process_def same_semantics_content
          abs_lifecycle_def)
  next
    case update
    from new [of "pi_revision ?a + 1" UPDATE] obtain a
      where a: "activate mem_ok ?cleared (i\<lparr>pi_revision := pi_revision ?a + 1\<rparr>) UPDATE False =
        (lc\<lparr>lc_active := a, lc_has_active := True, lc_absence_snapshots := 0\<rparr>, [Event UPDATE (Some a) x])"
        "wf_lifecycle (lc\<lparr>lc_active := a, lc_has_active := True, lc_absence_snapshots := 0\<rparr>)"
        "content_of a = ct" "pi_instance_id a = x" "pi_revision a = pi_revision ?a + 1" by blast
    with update i wf act clear show ?thesis
      by (simp add: process_seen_def refines_step_def spec_process_def abs abs_lifecycle_def
          same_semantics_content)
  qed
qed

lemma process_present:
  assumes wf: "wf_lifecycle lc" and c: "wf_candidate c"
    and free: "\<not> (lc_suppress_resolved lc \<and> build_instance_id c = lc_resolved_instance_id lc)"
  shows "refines_step (tmuxremote_prompt_lifecycle_process mem_ok lc (Some c) q)
     (spec_process (abs_lifecycle lc) (Some (abs_candidate c)))"
proof -
  from instance_with_id [OF c] obtain i
    where i: "candidate_to_instance_with_id mem_ok c tmuxremote_prompt_instance_reset = (True, i)"
      "inst_ok i" "inst_full i" "pi_instance_id i = build_instance_id c"
      "content_of i = candidate_content c" by metis
  let ?lc = "lc\<lparr>lc_last_sequence := q\<rparr>"
  have inc: "incoming_instance mem_ok ?lc (Some c) = (True, False, i)"
    using i free by (auto simp: incoming_instance_def is_suppressed_def)
  define lc1 where "lc1 = (if lc_suppress_resolved ?lc then end_suppression ?lc else ?lc)"
  have lc1: "lc_active lc1 = lc_active lc" "lc_has_active lc1 = lc_has_active lc"
    "lc_callback lc1" "\<not> lc_suppress_resolved lc1" "wf_lifecycle lc1"
    "lc_absence_snapshots lc1 = lc_absence_snapshots lc"
    using wf by (auto simp: lc1_def end_suppression_def wf_lifecycle_def)
  have spec: "spec_process (abs_lifecycle lc) (Some (abs_candidate c)) =
      spec_process (abs_lifecycle lc1) (Some (abs_candidate c))"
    using free lc1 by (auto simp: spec_process_def abs_lifecycle_def abs_candidate_def)
  have eq: "tmuxremote_prompt_lifecycle_process mem_ok lc (Some c) q =
      (if lc_has_active lc1 then process_seen mem_ok lc1 i
       else activate mem_ok lc1 (i\<lparr>pi_revision := 1\<rparr>) PRESENT True)"
    using inc by (simp add: tmuxremote_prompt_lifecycle_process_def lc1_def Let_def)
  show ?thesis
  proof (cases "lc_has_active lc1")
    case True
    with process_seen_refines [OF lc1(5) True lc1(4) i(2-5)] show ?thesis
      unfolding eq spec by (simp add: abs_candidate_def)
  next
    case False
    have "inst_ok (i\<lparr>pi_revision := 1\<rparr>)" "inst_full (i\<lparr>pi_revision := 1\<rparr>)"
      "inst_ok (lc_active lc1)" using i lc1 by (simp_all add: wf_lifecycle_def)
    from activate_mem_ok [OF this lc1(3), of PRESENT True] obtain a
      where a: "activate mem_ok lc1 (i\<lparr>pi_revision := 1\<rparr>) PRESENT True =
          (lc1\<lparr>lc_active := a, lc_has_active := True, lc_absence_snapshots := 0\<rparr>,
           [Event PRESENT (Some a) (build_instance_id c)])"
        "inst_ok a" "inst_full a" "content_of a = candidate_content c"
        "pi_instance_id a = build_instance_id c" "pi_revision a = 1"
      using i by auto
    then show ?thesis
      using lc1 False
      unfolding eq spec by (simp add: refines_step_def wf_lifecycle_def abs_lifecycle_def spec_process_def
          abs_candidate_def)
  qed
qed

lemma process_refines:
  assumes wf: "wf_lifecycle lc" and c: "\<And>c. cand = Some c \<Longrightarrow> wf_candidate c"
  shows "refines_step (tmuxremote_prompt_lifecycle_process mem_ok lc cand q)
     (spec_process (abs_lifecycle lc) (map_option abs_candidate cand))"
proof (cases cand)
  case None
  with wf show ?thesis by (intro process_absent) (auto simp: incoming_instance_def)
next
  case (Some c)
  show ?thesis
  proof (cases "lc_suppress_resolved lc \<and> build_instance_id c = lc_resolved_instance_id lc")
    case True
    from instance_with_id [OF assms(2) [OF Some]] obtain i
      where i: "candidate_to_instance_with_id mem_ok c tmuxremote_prompt_instance_reset = (True, i)"
        "pi_instance_id i = build_instance_id c" by metis
    with True have "incoming_instance mem_ok (lc\<lparr>lc_last_sequence := q\<rparr>) cand =
        (False, True, tmuxremote_prompt_instance_free i)"
      using instance_id_not_empty [of c] by (simp add: Some incoming_instance_def is_suppressed_def)
    with wf True show ?thesis by (intro process_absent) (auto simp: Some)
  next
    case False
    with process_present [OF wf assms(2) [OF Some] False] Some show ?thesis by simp
  qed
qed

lemma resolve_refines:
  assumes wf: "wf_lifecycle lc" and i: "i \<noteq> []" "length i < 32"
  shows "refines_step (tmuxremote_prompt_lifecycle_resolve lc (Some i)) (spec_resolve (abs_lifecycle lc) i)"
proof -
  let ?lc = "lc\<lparr>lc_resolved_instance_id := i, lc_suppress_resolved := True\<rparr>"
  have "wf_lifecycle ?lc" using wf i by (simp add: wf_lifecycle_def)
  note w = withdraw_eq [OF this]
  show ?thesis
  proof (cases "lc_has_active lc \<and> pi_instance_id (lc_active lc) = i")
    case True
    with w wf i show ?thesis
      by (simp add: tmuxremote_prompt_lifecycle_resolve_def strncpy_term_id spec_resolve_def lifecycle_defs)
  next
    case False
    with wf i show ?thesis
      by (auto simp: tmuxremote_prompt_lifecycle_resolve_def strncpy_term_id spec_resolve_def lifecycle_defs)
  qed
qed

section \<open>The stream of events\<close>

text \<open>
  A client follows the events with one variable, the prompt it shows: a prompt is presented
  only when none is shown, and only the shown prompt is updated or withdrawn.
\<close>

fun client_step :: "string option \<Rightarrow> spec_event \<Rightarrow> string option option" where
  "client_step shown (Present x _ _) = (if shown = None then Some (Some x) else None)"
| "client_step shown (Update x _ _) = (if shown = Some x then Some (Some x) else None)"
| "client_step shown (Gone x) = (if shown = Some x then Some None else None)"

definition client_run :: "string option \<Rightarrow> prompt_event list \<Rightarrow> string option option" where
  "client_run = fold_opt (\<lambda>shown e. abs_event e \<bind> client_step shown)"

fun run_ops :: "('s \<Rightarrow> 'o \<Rightarrow> 's \<times> prompt_event list) \<Rightarrow> 's \<Rightarrow> 'o list \<Rightarrow> 's \<times> prompt_event list" where
  "run_ops step s [] = (s, [])"
| "run_ops step s (x # xs) =
     (let (s1, es1) = step s x; (s2, es2) = run_ops step s1 xs in (s2, es1 @ es2))"

lemma run_ops_append:
  "run_ops step s (xs @ ys) =
     (let (s1, es1) = run_ops step s xs; (s2, es2) = run_ops step s1 ys in (s2, es1 @ es2))"
  by (induction xs arbitrary: s) (auto simp: Let_def split: prod.splits)

lemma client_run_append: "client_run a (xs @ ys) = client_run a xs \<bind> (\<lambda>b. client_run b ys)"
  by (simp add: client_run_def fold_opt_append)

text \<open>
  The contract of a component that reports prompt events: every admissible operation keeps
  the invariant, and a client that shows what the component considers active can follow the
  events of the operation and shows the new active prompt afterwards.
\<close>

locale event_source =
  fixes step :: "'s \<Rightarrow> 'o \<Rightarrow> 's \<times> prompt_event list"
    and admissible :: "'o \<Rightarrow> bool"
    and inv :: "'s \<Rightarrow> bool"
    and shown :: "'s \<Rightarrow> string option"
  assumes step_inv: "inv s \<Longrightarrow> admissible x \<Longrightarrow> inv (fst (step s x))"
    and step_stream: "inv s \<Longrightarrow> admissible x \<Longrightarrow>
      client_run (shown s) (snd (step s x)) = Some (shown (fst (step s x)))"
begin

lemma run_stream:
  assumes "inv s" and "\<forall>x \<in> set xs. admissible x"
  shows "inv (fst (run_ops step s xs)) \<and>
    client_run (shown s) (snd (run_ops step s xs)) = Some (shown (fst (run_ops step s xs)))"
  using assms
proof (induction xs arbitrary: s)
  case Nil
  then show ?case by (simp add: client_run_def)
next
  case (Cons x xs)
  obtain s1 es1 where s1: "step s x = (s1, es1)" by force
  with step_inv [of s x] step_stream [of s x] Cons.prems
  have "inv s1" "client_run (shown s) es1 = Some (shown s1)" by auto
  with Cons.IH [of s1] Cons.prems s1 show ?case
    by (auto simp: client_run_append split: prod.splits)
qed

end

datatype lifecycle_op = LProcess "prompt_candidate option" "64 word" | LResolve "string option"

fun lifecycle_step ::
  "prompt_lifecycle \<Rightarrow> lifecycle_op \<Rightarrow> prompt_lifecycle \<times> prompt_event list" where
  "lifecycle_step lc (LProcess c q) = tmuxremote_prompt_lifecycle_process mem_ok lc c q"
| "lifecycle_step lc (LResolve i) = tmuxremote_prompt_lifecycle_resolve lc i"

fun lifecycle_op_ok :: "lifecycle_op \<Rightarrow> bool" where
  "lifecycle_op_ok (LProcess (Some c) q) = wf_candidate c"
| "lifecycle_op_ok _ = True"

definition shown_prompt :: "prompt_lifecycle \<Rightarrow> string option" where
  "shown_prompt lc = (if lc_has_active lc then Some (pi_instance_id (lc_active lc)) else None)"

lemma shown_prompt_abs: "shown_prompt lc = map_option fst (fst (abs_lifecycle lc))"
  by (simp add: shown_prompt_def abs_lifecycle_def)

lemma client_run_refines:
  assumes "map abs_event es = map Some ses"
  shows "client_run a es = fold_opt client_step a ses"
  using assms
  by (induction es arbitrary: a ses) (auto simp: client_run_def Cons_eq_map_conv bind_def split: option.splits)

lemma spec_process_stream:
  "fold_opt client_step (map_option fst (fst s)) (snd (spec_process s seen)) =
     Some (map_option fst (fst (fst (spec_process s seen))))"
  by (auto simp: spec_process_def split: prod.splits option.splits if_splits)

lemma spec_resolve_stream:
  "fold_opt client_step (map_option fst (fst s)) (snd (spec_resolve s i)) =
     Some (map_option fst (fst (fst (spec_resolve s i))))"
  by (auto simp: spec_resolve_def split: prod.splits option.splits if_splits)

lemma refines_stream:
  assumes "refines_step r sr"
    and "fold_opt client_step (map_option fst (fst (abs_lifecycle lc))) (snd sr) =
      Some (map_option fst (fst (fst sr)))"
  shows "client_run (shown_prompt lc) (snd r) = Some (shown_prompt (fst r))"
  using assms client_run_refines [of "snd r" "snd sr"]
  by (simp add: refines_step_def shown_prompt_abs)

lemma resolve_long:
  assumes "wf_lifecycle lc" and "32 \<le> length i"
  shows "tmuxremote_prompt_lifecycle_resolve lc (Some i) =
    (lc\<lparr>lc_resolved_instance_id := take 31 i, lc_suppress_resolved := True\<rparr>, [])"
proof -
  have "pi_instance_id (lc_active lc) \<noteq> i" using assms inst_okD(5) by (force simp: wf_lifecycle_def)
  with assms show ?thesis
    by (auto simp: tmuxremote_prompt_lifecycle_resolve_def strncpy_term_def)
qed

lemma lifecycle_step_sound:
  assumes "wf_lifecycle lc" and "lifecycle_op_ok x"
  shows "wf_lifecycle (fst (lifecycle_step lc x)) \<and>
    client_run (shown_prompt lc) (snd (lifecycle_step lc x)) =
      Some (shown_prompt (fst (lifecycle_step lc x)))"
proof (cases x)
  case (LProcess c q)
  with assms have c: "\<And>d. c = Some d \<Longrightarrow> wf_candidate d" by auto
  from process_refines [OF assms(1) c] refines_stream [OF process_refines [OF assms(1) c] spec_process_stream]
  show ?thesis by (auto simp: LProcess refines_step_def)
next
  case (LResolve i)
  consider (none) "i = None \<or> i = Some []" | (short) j where "i = Some j" "j \<noteq> []" "length j < 32"
    | (long) j where "i = Some j" "32 \<le> length j" by (cases i) (auto simp: not_less [symmetric])
  then show ?thesis
  proof cases
    case none
    with assms(1) show ?thesis
      by (auto simp: LResolve tmuxremote_prompt_lifecycle_resolve_def client_run_def)
  next
    case short
    note r = resolve_refines [OF assms(1) short(2,3)]
    from r refines_stream [OF r spec_resolve_stream] short(1) show ?thesis
      by (auto simp: LResolve refines_step_def)
  next
    case long
    with resolve_long [OF assms(1) long(2)] assms(1) show ?thesis
      by (auto simp: LResolve wf_lifecycle_def client_run_def shown_prompt_def)
  qed
qed

interpretation lifecycle: event_source lifecycle_step lifecycle_op_ok wf_lifecycle shown_prompt
  by unfold_locales (simp_all add: lifecycle_step_sound)

definition lifecycle_start :: prompt_lifecycle where
  "lifecycle_start = tmuxremote_prompt_lifecycle_set_callback tmuxremote_prompt_lifecycle_init True"

lemma wf_lifecycle_start: "wf_lifecycle lifecycle_start"
  by (simp add: wf_lifecycle_def lifecycle_start_def tmuxremote_prompt_lifecycle_init_def
      tmuxremote_prompt_lifecycle_set_callback_def)

lemma shown_start: "shown_prompt lifecycle_start = None"
  by (simp add: shown_prompt_def lifecycle_start_def tmuxremote_prompt_lifecycle_init_def
      tmuxremote_prompt_lifecycle_set_callback_def)

section \<open>Where the active prompt comes from\<close>

definition seen_candidates :: "lifecycle_op list \<Rightarrow> prompt_candidate set" where
  "seen_candidates xs = {c. \<exists>q. LProcess (Some c) q \<in> set xs}"

lemma spec_process_active:
  "fst (fst (spec_process s seen)) = Some (i, ct, v) \<Longrightarrow>
     (\<exists>v'. fst s = Some (i, ct, v')) \<or> seen = Some (i, ct)"
  by (auto simp: spec_process_def split: prod.splits option.splits if_splits)

lemma spec_resolve_active:
  "fst (fst (spec_resolve s j)) = Some (i, ct, v) \<Longrightarrow> fst s = Some (i, ct, v)"
  by (auto simp: spec_resolve_def split: prod.splits option.splits if_splits)

lemma resolve_active:
  assumes "wf_lifecycle lc"
    and "fst (abs_lifecycle (fst (tmuxremote_prompt_lifecycle_resolve lc i))) = Some a"
  shows "fst (abs_lifecycle lc) = Some a"
  using assms
  by (auto simp: Let_def tmuxremote_prompt_lifecycle_resolve_def abs_lifecycle_def withdraw_def
      clear_active_def split: option.splits if_splits)

lemma active_was_seen:
  assumes "\<forall>x \<in> set xs. lifecycle_op_ok x"
    and "fst (abs_lifecycle (fst (run_ops lifecycle_step lifecycle_start xs))) = Some (i, ct, v)"
  shows "\<exists>c \<in> seen_candidates xs. abs_candidate c = (i, ct)"
  using assms
proof (induction xs arbitrary: v rule: rev_induct)
  case Nil
  then show ?case using shown_start by (auto simp: shown_prompt_abs)
next
  case (snoc x xs)
  let ?lc = "fst (run_ops lifecycle_step lifecycle_start xs)"
  have wf: "wf_lifecycle ?lc"
    using lifecycle.run_stream [OF wf_lifecycle_start, of xs] snoc.prems(1) by simp
  have fin: "fst (abs_lifecycle (fst (lifecycle_step ?lc x))) = Some (i, ct, v)"
    using snoc.prems(2) by (simp add: run_ops_append Let_def split: prod.splits)
  have mono: "seen_candidates xs \<subseteq> seen_candidates (xs @ [x])" by (auto simp: seen_candidates_def)
  show ?case
  proof (cases x)
    case (LResolve j)
    with resolve_active [OF wf, of j] fin have "fst (abs_lifecycle ?lc) = Some (i, ct, v)" by simp
    with snoc mono show ?thesis by fastforce
  next
    case (LProcess c q)
    with snoc.prems(1) have ok: "\<And>d. c = Some d \<Longrightarrow> wf_candidate d" by auto
    from process_refines [OF wf ok] fin
    have "fst (fst (spec_process (abs_lifecycle ?lc) (map_option abs_candidate c))) = Some (i, ct, v)"
      by (simp add: LProcess refines_step_def)
    from spec_process_active [OF this] show ?thesis
    proof
      assume "\<exists>v'. fst (abs_lifecycle ?lc) = Some (i, ct, v')"
      with snoc mono show ?thesis by fastforce
    next
      assume "map_option abs_candidate c = Some (i, ct)"
      then show ?thesis using LProcess by (auto simp: seen_candidates_def)
    qed
  qed
qed

section \<open>Identity\<close>

lemma digits_inj:
  fixes m n :: nat
  assumes "n < 16 ^ k" and "m < 16 ^ k" and "\<forall>i < k. n div 16 ^ i mod 16 = m div 16 ^ i mod 16"
  shows "n = m"
  using assms
proof (induction k arbitrary: n m)
  case 0
  then show ?case by simp
next
  case (Suc k)
  have "n div 16 = m div 16"
  proof (rule Suc.IH)
    show "n div 16 < 16 ^ k" "m div 16 < 16 ^ k"
      using Suc.prems by (simp_all add: less_mult_imp_div_less mult.commute)
    show "\<forall>i < k. n div 16 div 16 ^ i mod 16 = m div 16 div 16 ^ i mod 16"
    proof (intro allI impI)
      fix i assume "i < k"
      then have "n div 16 ^ Suc i mod 16 = m div 16 ^ Suc i mod 16" using Suc.prems(3) by blast
      then show "n div 16 div 16 ^ i mod 16 = m div 16 div 16 ^ i mod 16"
        by (simp add: div_mult2_eq)
    qed
  qed
  moreover have "n mod 16 = m mod 16" using Suc.prems(3) by (auto dest: spec [of _ 0])
  ultimately show ?case by (metis div_mult_mod_eq)
qed

lemma hex_digit_inj: "a < 16 \<Longrightarrow> b < 16 \<Longrightarrow> hex_digit a = hex_digit b \<Longrightarrow> a = b"
proof -
  assume ab: "a < 16" "b < 16" "hex_digit a = hex_digit b"
  have "code (hex_digit d) = (if d < 10 then 48 + d else 87 + d)" if "d < 16" for d
    using that by (simp add: hex_digit_def)
  from this [OF ab(1)] this [OF ab(2)]
  have "(if a < 10 then 48 + a else 87 + a) = (if b < 10 then 48 + b else 87 + b)"
    unfolding ab(3) by (rule trans [OF sym])
  with ab(1,2) show "a = b" by (auto split: if_splits)
qed

lemma hex16_inj: "hex16 w = hex16 w' \<Longrightarrow> w = w'"
proof -
  assume eq: "hex16 w = hex16 w'"
  have digit: "nat (uint v div 16 ^ i mod 16) = unat v div 16 ^ i mod 16" for v :: "64 word" and i
  proof -
    have "uint v div 16 ^ i mod 16 = int (unat v div 16 ^ i mod 16)" by (simp add: zdiv_int zmod_int)
    then show ?thesis by (simp only: nat_int)
  qed
  have "unat w div 16 ^ i mod 16 = unat w' div 16 ^ i mod 16" if "i < 16" for i
  proof (rule hex_digit_inj)
    have "i \<in> set (rev [0..<16])" using that by simp
    with eq show "hex_digit (unat w div 16 ^ i mod 16) = hex_digit (unat w' div 16 ^ i mod 16)"
      unfolding hex16_def map_eq_conv digit by (rule_tac bspec)
  qed simp_all
  moreover have "unat v < 16 ^ 16" for v :: "64 word"
    using unsigned_less [of v, where ?'a = nat] by simp
  ultimately have "unat w = unat w'" by (intro digits_inj [where k = 16]) auto
  then show "w = w'" by (rule unsigned_word_eqI)
qed

section \<open>Properties\<close>

definition sample_prompt :: prompt_candidate where
  "sample_prompt = empty_candidate\<lparr>cd_pattern_id := Some ''p'', cd_prompt := Some ''Go?'',
     cd_actions := \<lparr>pa_label = Some ''Yes'', pa_keys = Some ''y''\<rparr> # replicate 15 null_action,
     cd_action_count := 1, cd_anchor_row := 3\<rparr>"

lemma sample_prompt_wf: "wf_candidate sample_prompt"
  by (simp add: sample_prompt_def empty_candidate_def wf_candidate_def)

text \<open>
  C2: one snapshot moves the lifecycle exactly as the abstract machine prescribes.  With
  memory available, \<open>process\<close> on a well-formed state reports the events of the abstract
  step, in order and with matching identities and revisions, and ends in a well-formed state
  that represents the abstract result.
\<close>

theorem process_implements_spec:
  assumes "wf_lifecycle lc" and "\<And>c. cand = Some c \<Longrightarrow> wf_candidate c"
  shows "case tmuxremote_prompt_lifecycle_process mem_ok lc cand q of (lc', es) \<Rightarrow>
     wf_lifecycle lc' \<and>
     (abs_lifecycle lc', map abs_event es) =
       map_prod id (map Some) (spec_process (abs_lifecycle lc) (map_option abs_candidate cand))"
  using process_refines [OF assms(1), of cand q] assms(2)
  by (simp add: refines_step_def case_prod_unfold map_prod_def)

theorem process_implements_spec_witness:
  "case tmuxremote_prompt_lifecycle_process mem_ok lifecycle_start (Some sample_prompt) 1 of (lc', es) \<Rightarrow>
     wf_lifecycle lc' \<and>
     (abs_lifecycle lc', map abs_event es) =
       map_prod id (map Some)
         (spec_process (abs_lifecycle lifecycle_start) (map_option abs_candidate (Some sample_prompt)))"
  by (rule process_implements_spec) (simp_all add: wf_lifecycle_start sample_prompt_wf [simplified])

text \<open>
  C3: over the whole life of a detector, with snapshots and resolutions in any order, a
  client can follow the events with a single variable: a prompt is presented only when none is
  shown, only the shown prompt is updated or withdrawn, every event carries the identity of
  its instance, and the client ends up showing exactly the active prompt.
\<close>

theorem lifecycle_event_stream:
  assumes "\<forall>x \<in> set xs. lifecycle_op_ok x"
  shows "case run_ops lifecycle_step lifecycle_start xs of (lc, es) \<Rightarrow>
     client_run None es = Some (shown_prompt lc)"
  using lifecycle.run_stream [OF wf_lifecycle_start assms]
  by (simp add: shown_start case_prod_unfold)

theorem lifecycle_event_stream_witness:
  "case run_ops lifecycle_step lifecycle_start
       [LProcess (Some sample_prompt) 1, LResolve (Some ''x''), LProcess None 2, LProcess None 3] of
     (lc, es) \<Rightarrow> client_run None es = Some (shown_prompt lc)"
  by (rule lifecycle_event_stream) (simp add: sample_prompt_wf)

lemma spec_process_shows:
  "held \<noteq> Some i \<Longrightarrow>
     \<exists>v. fst (spec_process (a, m, held) (Some (i, ct))) = (Some (i, ct, v), 0, None)"
  by (cases a) (auto simp: spec_process_def)

lemma process_stable:
  assumes "wf_lifecycle lc" and "wf_candidate c" and "abs_lifecycle lc = (Some (i, ct, v), 0, None)"
    and "abs_candidate c = (i, ct)"
  shows "wf_lifecycle (fst (run_ops lifecycle_step lc (map (LProcess (Some c)) qs))) \<and>
    abs_lifecycle (fst (run_ops lifecycle_step lc (map (LProcess (Some c)) qs))) = abs_lifecycle lc \<and>
    snd (run_ops lifecycle_step lc (map (LProcess (Some c)) qs)) = []"
  using assms(1,3)
proof (induction qs arbitrary: lc)
  case Nil
  then show ?case by simp
next
  case (Cons q qs)
  obtain lc1 es1 where step: "tmuxremote_prompt_lifecycle_process mem_ok lc (Some c) q = (lc1, es1)"
    by force
  from process_refines [OF Cons.prems(1), of "Some c" q] assms(2,4) Cons.prems(2) step
  have "wf_lifecycle lc1" "abs_lifecycle lc1 = (Some (i, ct, v), 0, None)" "es1 = []"
    by (auto simp: refines_step_def spec_process_def)
  with Cons.IH [of lc1] step Cons.prems(2) show ?case by (simp split: prod.splits)
qed

text \<open>
  A prompt that stays on the screen does not oscillate: once a snapshot shows a prompt
  that is not held back as resolved, it is the shown prompt, and any number of further
  snapshots that show it report nothing.
\<close>

theorem shown_prompt_does_not_oscillate:
  assumes "wf_lifecycle lc" and "wf_candidate c"
    and "lc_suppress_resolved lc \<longrightarrow> lc_resolved_instance_id lc \<noteq> build_instance_id c"
  shows "case tmuxremote_prompt_lifecycle_process mem_ok lc (Some c) q of (lc1, _) \<Rightarrow>
     shown_prompt lc1 = Some (build_instance_id c) \<and>
     snd (run_ops lifecycle_step lc1 (map (LProcess (Some c)) qs)) = []"
proof -
  obtain lc1 es1 where step: "tmuxremote_prompt_lifecycle_process mem_ok lc (Some c) q = (lc1, es1)"
    by force
  from process_refines [OF assms(1), of "Some c" q] assms(2) step
  have r: "wf_lifecycle lc1"
    "abs_lifecycle lc1 = fst (spec_process (abs_lifecycle lc) (Some (abs_candidate c)))"
    by (auto simp: refines_step_def)
  obtain a m held where abs: "abs_lifecycle lc = (a, m, held)" by (metis prod_cases3)
  with assms(3) have "held \<noteq> Some (build_instance_id c)"
    by (auto simp: abs_lifecycle_def split: if_splits)
  from spec_process_shows [OF this, of a m "candidate_content c"] obtain v
    where v: "fst (spec_process (abs_lifecycle lc) (Some (abs_candidate c))) =
      (Some (build_instance_id c, candidate_content c, v), 0, None)"
    unfolding abs abs_candidate_def by blast
  have lc1: "abs_lifecycle lc1 = (Some (build_instance_id c, candidate_content c, v), 0, None)"
    using r(2) v by simp
  then have "shown_prompt lc1 = Some (build_instance_id c)"
    by (simp only: shown_prompt_abs fst_conv option.map)
  with process_stable [OF r(1) assms(2) lc1 abs_candidate_def, of qs] step show ?thesis by simp
qed

theorem shown_prompt_does_not_oscillate_witness:
  "case tmuxremote_prompt_lifecycle_process mem_ok lifecycle_start (Some sample_prompt) 1 of (lc1, _) \<Rightarrow>
     shown_prompt lc1 = Some (build_instance_id sample_prompt) \<and>
     snd (run_ops lifecycle_step lc1 (map (LProcess (Some sample_prompt)) [2, 3])) = []"
  by (rule shown_prompt_does_not_oscillate [OF wf_lifecycle_start sample_prompt_wf])
     (simp add: lifecycle_start_def tmuxremote_prompt_lifecycle_init_def
        tmuxremote_prompt_lifecycle_set_callback_def)

lemma spec_held: "spec_process (None, 0, Some i) (Some (i, ct)) = ((None, 0, Some i), [])"
  by (simp add: spec_process_def)

lemma process_held:
  assumes "wf_lifecycle lc" and "wf_candidate c"
    and "abs_lifecycle lc = (None, 0, Some (build_instance_id c))"
  shows "wf_lifecycle (fst (run_ops lifecycle_step lc (map (LProcess (Some c)) qs))) \<and>
    abs_lifecycle (fst (run_ops lifecycle_step lc (map (LProcess (Some c)) qs))) = abs_lifecycle lc \<and>
    snd (run_ops lifecycle_step lc (map (LProcess (Some c)) qs)) = []"
  using assms(1,3)
proof (induction qs arbitrary: lc)
  case Nil
  then show ?case by simp
next
  case (Cons q qs)
  obtain lc1 es1 where step: "tmuxremote_prompt_lifecycle_process mem_ok lc (Some c) q = (lc1, es1)"
    by force
  from process_refines [OF Cons.prems(1), of "Some c" q] assms(2) Cons.prems(2) step
  have "wf_lifecycle lc1" "abs_lifecycle lc1 = (None, 0, Some (build_instance_id c))" "es1 = []"
    by (auto simp: refines_step_def abs_candidate_def spec_held)
  with Cons.IH [of lc1] step Cons.prems(2) show ?case by (simp split: prod.splits)
qed

text \<open>
  C35: resolving the shown prompt withdraws it at once, with exactly one event, and as long as
  the screen keeps showing it nothing is reported; one snapshot without it ends the hold, and
  the same prompt is then presented again.
\<close>

theorem resolve_withdraws_and_holds:
  assumes wf: "wf_lifecycle lc" and c: "wf_candidate c"
    and shown: "shown_prompt lc = Some (build_instance_id c)"
  shows "case run_ops lifecycle_step lc
       (LResolve (Some (build_instance_id c)) # map (LProcess (Some c)) qs) of (lc1, es1) \<Rightarrow>
     es1 = [Event GONE None (build_instance_id c)] \<and>
     map abs_event (snd (run_ops lifecycle_step lc1 [LProcess None q1, LProcess (Some c) q2])) =
       [Some (Present (build_instance_id c) (candidate_content c) 1)]"
proof -
  let ?i = "build_instance_id c"
  obtain lc0 es0 where res: "tmuxremote_prompt_lifecycle_resolve lc (Some ?i) = (lc0, es0)" by force
  from shown have act: "lc_has_active lc" "pi_instance_id (lc_active lc) = ?i"
    by (auto simp: shown_prompt_def split: if_splits)
  have "wf_lifecycle (lc\<lparr>lc_resolved_instance_id := ?i, lc_suppress_resolved := True\<rparr>)"
    using wf by (simp add: wf_lifecycle_def)
  from withdraw_eq [OF this] act res have es0: "es0 = [Event GONE None ?i]"
    by (simp add: tmuxremote_prompt_lifecycle_resolve_def strncpy_term_id)
  from resolve_refines [OF wf, of ?i] res act
  have lc0: "wf_lifecycle lc0" "abs_lifecycle lc0 = (None, 0, Some ?i)"
    by (auto simp: refines_step_def spec_resolve_def abs_lifecycle_def)
  obtain lc1 es1 where run: "run_ops lifecycle_step lc0 (map (LProcess (Some c)) qs) = (lc1, es1)" by force
  from process_held [OF lc0(1) c lc0(2), of qs] run lc0(2)
  have lc1: "wf_lifecycle lc1" "abs_lifecycle lc1 = (None, 0, Some ?i)" "es1 = []" by auto
  obtain lc2 es2 where p2: "tmuxremote_prompt_lifecycle_process mem_ok lc1 None q1 = (lc2, es2)" by force
  from process_refines [OF lc1(1), of None q1] lc1(2) p2
  have lc2: "wf_lifecycle lc2" "abs_lifecycle lc2 = (None, 0, None)" "es2 = []"
    by (auto simp: refines_step_def spec_process_def)
  from process_refines [OF lc2(1), of "Some c" q2] lc2(2) c
  have "map abs_event (snd (tmuxremote_prompt_lifecycle_process mem_ok lc2 (Some c) q2)) =
      [Some (Present ?i (candidate_content c) 1)]"
    by (auto simp: refines_step_def spec_process_def abs_candidate_def)
  with res run lc1(3) es0 p2 lc2(3) show ?thesis by (simp split: prod.splits)
qed

theorem resolve_withdraws_and_holds_witness:
  "\<exists>lc. shown_prompt lc = Some (build_instance_id sample_prompt) \<and>
     (case run_ops lifecycle_step lc
       (LResolve (Some (build_instance_id sample_prompt)) # map (LProcess (Some sample_prompt)) [5, 6]) of
       (lc1, es1) \<Rightarrow>
     es1 = [Event GONE None (build_instance_id sample_prompt)] \<and>
     map abs_event (snd (run_ops lifecycle_step lc1 [LProcess None 7, LProcess (Some sample_prompt) 8])) =
       [Some (Present (build_instance_id sample_prompt) (candidate_content sample_prompt) 1)])"
proof -
  let ?lc = "fst (tmuxremote_prompt_lifecycle_process mem_ok lifecycle_start (Some sample_prompt) 1)"
  have held: "abs_lifecycle lifecycle_start = (None, 0, None)"
    by (simp add: abs_lifecycle_def lifecycle_start_def tmuxremote_prompt_lifecycle_init_def
        tmuxremote_prompt_lifecycle_set_callback_def)
  from process_refines [OF wf_lifecycle_start, of "Some sample_prompt" 1] sample_prompt_wf held
  have "wf_lifecycle ?lc" "shown_prompt ?lc = Some (build_instance_id sample_prompt)"
    by (auto simp: refines_step_def spec_process_def abs_candidate_def shown_prompt_abs)
  note shown = this(2) and * = resolve_withdraws_and_holds
    [OF this(1) sample_prompt_wf this(2), where qs = "[5, 6]" and ?q1.0 = 7 and ?q2.0 = 8]
  show ?thesis by (rule exI [of _ ?lc], rule conjI, rule shown, rule *)
qed

text \<open>
  An update event needs a collision of the 64-bit hash.  In every run, when a snapshot
  with candidate \<open>c\<close> reports an update, an earlier snapshot showed a prompt with a different
  content and the same hash value; different hash values give different identities.
\<close>

theorem update_needs_hash_collision:
  assumes ok: "\<forall>x \<in> set xs. lifecycle_op_ok x" and c: "wf_candidate c"
    and upd: "Event UPDATE i x \<in> set (snd (lifecycle_step
      (fst (run_ops lifecycle_step lifecycle_start xs)) (LProcess (Some c) q)))"
  shows "\<exists>d \<in> seen_candidates xs. candidate_content d \<noteq> candidate_content c \<and>
     instance_hash d = instance_hash c"
proof -
  let ?lc = "fst (run_ops lifecycle_step lifecycle_start xs)"
  let ?r = "tmuxremote_prompt_lifecycle_process mem_ok ?lc (Some c) q"
  have wf: "wf_lifecycle ?lc" using lifecycle.run_stream [OF wf_lifecycle_start ok] by simp
  let ?s = "spec_process (abs_lifecycle ?lc) (Some (abs_candidate c))"
  from process_refines [OF wf, of "Some c" q] c have ev: "map abs_event (snd ?r) = map Some (snd ?s)"
    by (simp add: refines_step_def)
  have "abs_event (Event UPDATE i x) \<in> set (map abs_event (snd ?r))" using upd by simp
  then obtain y ct v where "abs_event (Event UPDATE i x) = Some (Update y ct v)"
    and "Update y ct v \<in> set (snd ?s)"
    unfolding ev by (cases i) (auto split: if_splits)
  then obtain ct' v' where "fst (abs_lifecycle ?lc) = Some (build_instance_id c, ct', v')"
    and ne: "ct' \<noteq> candidate_content c"
    by (auto simp: spec_process_def abs_candidate_def split: prod.splits option.splits if_splits)
  from active_was_seen [OF ok this(1)] obtain d where d: "d \<in> seen_candidates xs"
    "abs_candidate d = (build_instance_id c, ct')" by blast
  then have "instance_hash d = instance_hash c"
    using hex16_inj by (simp add: abs_candidate_def build_instance_id_eq)
  with d ne show ?thesis by (auto simp: abs_candidate_def)
qed

text \<open>
  Such collisions exist:
  the same characters, divided differently between a label and its keys.
\<close>

definition shifted_prompt :: prompt_candidate where
  "shifted_prompt = sample_prompt\<lparr>
     cd_actions := \<lparr>pa_label = Some ''Ye'', pa_keys = Some ''sy''\<rparr> # replicate 15 null_action\<rparr>"

lemma shifted_prompt_collides: "instance_hash shifted_prompt = instance_hash sample_prompt"
  by (simp add: instance_hash_def shifted_prompt_def sample_prompt_def hash_string_def bytes_def
      empty_candidate_def)

lemma shifted_prompt_wf: "wf_candidate shifted_prompt"
  by (simp add: shifted_prompt_def sample_prompt_def empty_candidate_def wf_candidate_def)

lemma shifted_prompt_content: "candidate_content shifted_prompt \<noteq> candidate_content sample_prompt"
  by (simp add: candidate_content_def shifted_prompt_def sample_prompt_def)

theorem update_needs_hash_collision_witness:
  "\<exists>d \<in> seen_candidates [LProcess (Some sample_prompt) 1].
     candidate_content d \<noteq> candidate_content shifted_prompt \<and>
     instance_hash d = instance_hash shifted_prompt"
proof -
  let ?xs = "[LProcess (Some sample_prompt) 1]"
  let ?lc = "fst (run_ops lifecycle_step lifecycle_start ?xs)"
  have lc: "?lc = fst (tmuxremote_prompt_lifecycle_process mem_ok lifecycle_start (Some sample_prompt) 1)"
    by (simp add: case_prod_unfold)
  have held: "abs_lifecycle lifecycle_start = (None, 0, None)"
    by (simp add: abs_lifecycle_def lifecycle_start_def tmuxremote_prompt_lifecycle_init_def
        tmuxremote_prompt_lifecycle_set_callback_def)
  from process_refines [OF wf_lifecycle_start, of "Some sample_prompt" 1] sample_prompt_wf held
  have wf: "wf_lifecycle ?lc"
    and abs: "abs_lifecycle ?lc =
      (Some (build_instance_id sample_prompt, candidate_content sample_prompt, 1), 0, None)"
    unfolding lc by (auto simp: refines_step_def spec_process_def abs_candidate_def)
  have "build_instance_id shifted_prompt = build_instance_id sample_prompt"
    by (simp add: build_instance_id_eq shifted_prompt_collides)
  with process_refines [OF wf, of "Some shifted_prompt" 2] abs shifted_prompt_wf shifted_prompt_content
  have "map abs_event (snd (lifecycle_step ?lc (LProcess (Some shifted_prompt) 2))) =
      [Some (Update (build_instance_id sample_prompt) (candidate_content shifted_prompt) 2)]"
    by (auto simp: refines_step_def spec_process_def abs_candidate_def)
  then obtain e where e: "e \<in> set (snd (lifecycle_step ?lc (LProcess (Some shifted_prompt) 2)))"
    "abs_event e = Some (Update (build_instance_id sample_prompt) (candidate_content shifted_prompt) 2)"
    by auto
  from e(2) obtain i x where "e = Event UPDATE i x"
    by (cases e rule: abs_event.cases) (auto split: if_splits)
  with e(1) update_needs_hash_collision [OF _ shifted_prompt_wf, of ?xs i x 2] sample_prompt_wf
  show ?thesis by simp
qed

text \<open>
  The identity does not determine the prompt.  The hash takes the fields one after the
  other without separators, so two well-formed prompts whose labels and keys divide the same
  characters differently have the same identity.
\<close>

theorem distinct_prompts_share_identity:
  "wf_candidate sample_prompt \<and> wf_candidate shifted_prompt \<and>
   candidate_content shifted_prompt \<noteq> candidate_content sample_prompt \<and>
   build_instance_id shifted_prompt = build_instance_id sample_prompt"
  by (simp add: sample_prompt_wf shifted_prompt_wf shifted_prompt_content build_instance_id_eq
      shifted_prompt_collides)

end
