(* ===== verification/Prompt_Detector.thy ===== *)
theory Prompt_Detector
  imports Prompt_Lifecycle
begin

text \<open>
  The prompt detector (\<open>agent/src/tmuxremote_prompt_detector.c\<close>): PTY output goes through the
  terminal, the rules and the lifecycle.

  Every function of the C interface runs under the detector's mutex, so the operations are
  atomic steps and a history is a sequence of them.  The result of an operation is
  \<^const>\<open>None\<close> for undefined behaviour, otherwise the new state and the invocations of the
  callback.  The callback is the one of \<open>tmuxremote_stream.c\<close>, which does not call back into
  the detector.
\<close>

record 're prompt_detector =
  dt_terminal_state :: terminal_state
  dt_ruleset :: "'re prompt_ruleset"
  dt_lifecycle :: prompt_lifecycle
  dt_config :: "pattern_config option"
  dt_active_agent :: "string option"
  dt_callback :: bool

definition lifecycle_forwarder :: "'re prompt_detector \<Rightarrow> prompt_event list \<Rightarrow> prompt_event list" where
  "lifecycle_forwarder d es = (if dt_callback d then es else [])"

definition default_agent :: "pattern_config \<Rightarrow> agent_config option" where
  "default_agent config = find (\<lambda>a. ac_patterns a \<noteq> [] \<and> ac_id a \<noteq> None) (pc_agents config)"

definition reload_rules_locked :: "'re pcre2 \<Rightarrow> alloc \<Rightarrow> 're prompt_detector \<Rightarrow> 're prompt_detector" where
  "reload_rules_locked api al d0 =
     (let d = d0\<lparr>dt_ruleset := snd (tmuxremote_prompt_ruleset_load api al [])\<rparr>
      in if dt_config d = None \<or> dt_active_agent d = None then d
         else case tmuxremote_pattern_config_find_agent (dt_config d) (dt_active_agent d) of
                None \<Rightarrow> d
              | Some agent \<Rightarrow>
                  d\<lparr>dt_ruleset := snd (tmuxremote_prompt_ruleset_load api al (ac_patterns agent))\<rparr>)"

definition tmuxremote_prompt_detector_init :: "alloc \<Rightarrow> int \<Rightarrow> int \<Rightarrow> 're prompt_detector" where
  "tmuxremote_prompt_detector_init al rows cols =
     \<lparr>dt_terminal_state = tmuxremote_terminal_state_init al rows cols, dt_ruleset = [],
      dt_lifecycle = tmuxremote_prompt_lifecycle_set_callback tmuxremote_prompt_lifecycle_init True,
      dt_config = None, dt_active_agent = None, dt_callback = False\<rparr>"

definition tmuxremote_prompt_detector_free :: "'re prompt_detector \<Rightarrow> 're prompt_detector" where
  "tmuxremote_prompt_detector_free d =
     d\<lparr>dt_active_agent := None,
       dt_lifecycle := tmuxremote_prompt_lifecycle_free (dt_lifecycle d),
       dt_ruleset := [],
       dt_terminal_state := tmuxremote_terminal_state_free (dt_terminal_state d)\<rparr>"

definition tmuxremote_prompt_detector_set_callback ::
  "'re prompt_detector \<Rightarrow> bool \<Rightarrow> 're prompt_detector" where
  "tmuxremote_prompt_detector_set_callback d callback = d\<lparr>dt_callback := callback\<rparr>"

definition tmuxremote_prompt_detector_load_config ::
  "'re pcre2 \<Rightarrow> alloc \<Rightarrow> 're prompt_detector \<Rightarrow> pattern_config option \<Rightarrow> 're prompt_detector" where
  "tmuxremote_prompt_detector_load_config api al d0 config =
     (let d = d0\<lparr>dt_config := config\<rparr>;
          d = (case config of
                 None \<Rightarrow> d
               | Some c \<Rightarrow>
                   if dt_active_agent d \<noteq> None then d
                   else (case default_agent c of
                           None \<Rightarrow> d
                         | Some agent \<Rightarrow>
                             (case ac_id agent of
                                None \<Rightarrow> d
                              | Some i \<Rightarrow> d\<lparr>dt_active_agent := strdup al i\<rparr>)))
      in reload_rules_locked api al d)"

definition tmuxremote_prompt_detector_select_agent ::
  "'re pcre2 \<Rightarrow> alloc \<Rightarrow> 're prompt_detector \<Rightarrow> string option \<Rightarrow> 're prompt_detector" where
  "tmuxremote_prompt_detector_select_agent api al d agent_id =
     reload_rules_locked api al (d\<lparr>dt_active_agent := strdup_safe al agent_id\<rparr>)"

definition tmuxremote_prompt_detector_feed ::
  "'re pcre2 \<Rightarrow> alloc \<Rightarrow> 're prompt_detector \<Rightarrow> char list
     \<Rightarrow> ('re prompt_detector \<times> prompt_event list) option" where
  "tmuxremote_prompt_detector_feed api al d0 data =
     (if data = [] then Some (d0, [])
      else
        tmuxremote_terminal_state_feed (dt_terminal_state d0) data \<bind> (\<lambda>ts.
        let d = d0\<lparr>dt_terminal_state := ts\<rparr> in
        tmuxremote_terminal_state_snapshot al ts \<bind> (\<lambda>snap.
          case snap of
            None \<Rightarrow> Some (d, [])
          | Some snapshot \<Rightarrow>
              tmuxremote_prompt_ruleset_match api al (dt_ruleset d) snapshot \<bind> (\<lambda>candidate.
                let (lc, es) = tmuxremote_prompt_lifecycle_process al (dt_lifecycle d) candidate
                                 (sn_sequence snapshot)
                in Some (d\<lparr>dt_lifecycle := lc\<rparr>, lifecycle_forwarder d es)))))"

definition tmuxremote_prompt_detector_resize ::
  "alloc \<Rightarrow> 're prompt_detector \<Rightarrow> int \<Rightarrow> int \<Rightarrow> 're prompt_detector option" where
  "tmuxremote_prompt_detector_resize al d rows cols =
     map_option (\<lambda>ts. d\<lparr>dt_terminal_state := ts\<rparr>)
       (tmuxremote_terminal_state_resize al (dt_terminal_state d) rows cols)"

text \<open>The decision and the keys of a resolution are not used by the detector.\<close>

definition tmuxremote_prompt_detector_resolve ::
  "'re prompt_detector \<Rightarrow> string option \<Rightarrow> 're prompt_detector \<times> prompt_event list" where
  "tmuxremote_prompt_detector_resolve d instance_id =
     (if instance_id = None \<or> instance_id = Some [] then (d, [])
      else
        let (lc, es) = tmuxremote_prompt_lifecycle_resolve (dt_lifecycle d) instance_id
        in (d\<lparr>dt_lifecycle := lc\<rparr>, lifecycle_forwarder d es))"

definition tmuxremote_prompt_detector_copy_active ::
  "alloc \<Rightarrow> 're prompt_detector \<Rightarrow> prompt_instance option" where
  "tmuxremote_prompt_detector_copy_active al d =
     (if \<not> al 328 then None
      else
        let (ok, copy) = tmuxremote_prompt_lifecycle_copy_active al (dt_lifecycle d)
                           tmuxremote_prompt_instance_reset
        in if \<not> ok then None else Some copy)"

section \<open>Histories\<close>

text \<open>
  How \<open>tmuxremote_stream.c\<close> sets a detector up for a new stream, and what reaches it
  afterwards: PTY output, resizes (the sizes are 16-bit values of the session entry or of a
  resize request), resolutions and a change of the agent, each with its own allocator.
\<close>

definition detector_start ::
  "'re pcre2 \<Rightarrow> alloc \<Rightarrow> pattern_config option \<Rightarrow> 16 word \<Rightarrow> 16 word \<Rightarrow> 're prompt_detector" where
  "detector_start api al config rows cols =
     (let d = tmuxremote_prompt_detector_init al (int (unat rows)) (int (unat cols));
          d = (if config = None then d else tmuxremote_prompt_detector_load_config api al d config)
      in tmuxremote_prompt_detector_set_callback d True)"

datatype detector_op =
    DFeed alloc "char list"
  | DResize alloc "16 word" "16 word"
  | DResolve "string option"
  | DSelect alloc "string option"

fun detector_step ::
  "'re pcre2 \<Rightarrow> 're prompt_detector \<Rightarrow> detector_op \<Rightarrow> ('re prompt_detector \<times> prompt_event list) option" where
  "detector_step api d (DFeed al data) = tmuxremote_prompt_detector_feed api al d data"
| "detector_step api d (DResize al rows cols) =
     map_option (\<lambda>d. (d, [])) (tmuxremote_prompt_detector_resize al d (int (unat rows)) (int (unat cols)))"
| "detector_step api d (DResolve i) = Some (tmuxremote_prompt_detector_resolve d i)"
| "detector_step api d (DSelect al a) = Some (tmuxremote_prompt_detector_select_agent api al d a, [])"

text \<open>A history together with the events reported so far.\<close>

definition detector_trace ::
  "'re pcre2 \<Rightarrow> 're prompt_detector \<times> prompt_event list \<Rightarrow> detector_op
     \<Rightarrow> ('re prompt_detector \<times> prompt_event list) option" where
  "detector_trace api s x =
     (case s of (d, es) \<Rightarrow> map_option (\<lambda>(d', es'). (d', es @ es')) (detector_step api d x))"

section \<open>Invariant\<close>

definition bounded_config :: "pattern_config \<Rightarrow> bool" where
  "bounded_config c \<longleftrightarrow> (\<forall>a \<in> set (pc_agents c). \<forall>d \<in> set (ac_patterns a).
     pd_max_scan_lines d \<le> INT_MAX - 65537)"

definition wf_detector :: "'re prompt_detector \<Rightarrow> bool" where
  "wf_detector d \<longleftrightarrow> wf_term (dt_terminal_state d) \<and> ts_rows (dt_terminal_state d) \<le> 65535 \<and>
     (\<forall>r \<in> set (dt_ruleset d). wf_rule r) \<and>
     (\<forall>c. dt_config d = Some c \<longrightarrow> bounded_config c)"

lemma find_agent_in_set: "find_agent_in as i = Some a \<Longrightarrow> a \<in> set as"
  by (induction as) (auto split: if_splits)

lemma reload_rules_frame [simp]:
  "dt_lifecycle (reload_rules_locked api al d) = dt_lifecycle d"
  "dt_callback (reload_rules_locked api al d) = dt_callback d"
  by (auto simp: reload_rules_locked_def Let_def split: option.splits)

lemma reload_rules_wf:
  assumes "\<And>c. dt_config d = Some c \<Longrightarrow> bounded_config c"
    and "wf_term (dt_terminal_state d)" and "ts_rows (dt_terminal_state d) \<le> 65535"
  shows "wf_detector (reload_rules_locked api al d)"
proof -
  have "wf_rule r"
    if "tmuxremote_pattern_config_find_agent (dt_config d) (dt_active_agent d) = Some a"
      and r: "r \<in> set (snd (tmuxremote_prompt_ruleset_load api al (ac_patterns a)))" for a r
    using that(1) assms(1)
    by (intro ruleset_load_wf [OF r])
       (auto simp: tmuxremote_pattern_config_find_agent_def bounded_config_def
          dest: find_agent_in_set split: option.splits)
  then show ?thesis
    using assms
    by (auto simp: reload_rules_locked_def Let_def wf_detector_def
        tmuxremote_prompt_ruleset_load_def [of api al "[]"] split: option.splits)
qed

lemma snapshot_wf:
  assumes wf: "wf_term st" and "ts_rows st \<le> 65535"
    and snap: "tmuxremote_terminal_state_snapshot al st = Some (Some sn)"
  shows "wf_snapshot sn"
proof -
  have len: "length xs = length rs" if "snapshot_lines al st rs = Some (Some xs)" for rs xs
    using that by (induction rs arbitrary: xs) (auto simp: bind_eq_Some_conv split: option.splits)
  from snap obtain xs where "snapshot_lines al st [0..ts_rows st - 1] = Some (Some xs)"
    "sn_rows sn = ts_rows st" "sn_lines sn = xs"
    by (auto simp: tmuxremote_terminal_state_snapshot_def bind_eq_Some_conv split: option.splits if_splits)
  with len [of "[0..ts_rows st - 1]" xs] assms(1,2) show ?thesis
    by (simp add: wf_snapshot_def wf_term_def)
qed

lemma feed_keeps_rows:
  assumes "tmuxremote_terminal_state_feed st data = Some st'"
  shows "ts_rows st' = ts_rows st"
  using assms fold_feed_grid [of st data]
  by (auto simp: tmuxremote_terminal_state_feed_def keeps_grid_def bind_eq_Some_conv split: if_splits)

lemma feed_cases:
  assumes api: "pcre2_ok api" and wf: "wf_detector d"
  obtains (quiet) d' where "tmuxremote_prompt_detector_feed api al d data = Some (d', [])"
      "wf_detector d'" "dt_lifecycle d' = dt_lifecycle d" "dt_callback d' = dt_callback d"
  | (snapshot) ts sn cand lc es where
      "tmuxremote_prompt_ruleset_match api al (dt_ruleset d) sn = Some cand"
      "tmuxremote_prompt_lifecycle_process al (dt_lifecycle d) cand (sn_sequence sn) = (lc, es)"
      "tmuxremote_prompt_detector_feed api al d data =
         Some (d\<lparr>dt_terminal_state := ts, dt_lifecycle := lc\<rparr>, lifecycle_forwarder d es)"
      "wf_detector (d\<lparr>dt_terminal_state := ts, dt_lifecycle := lc\<rparr>)"
proof (cases "data = []")
  case True
  with wf show thesis by (intro quiet) (simp_all add: tmuxremote_prompt_detector_feed_def)
next
  case False
  from feed_safe [of "dt_terminal_state d" data] wf obtain ts
    where ts: "tmuxremote_terminal_state_feed (dt_terminal_state d) data = Some ts" "wf_term ts"
    by (auto simp: wf_detector_def)
  from feed_keeps_rows [OF ts(1)] wf have rows: "ts_rows ts \<le> 65535" by (simp add: wf_detector_def)
  have wf': "wf_detector (d\<lparr>dt_terminal_state := ts\<rparr>)"
    "\<And>lc. wf_detector (d\<lparr>dt_terminal_state := ts, dt_lifecycle := lc\<rparr>)"
    using wf ts(2) rows by (simp_all add: wf_detector_def)
  from snapshot_safe [OF ts(2), of al] obtain snap
    where snap: "tmuxremote_terminal_state_snapshot al ts = Some snap" by blast
  show thesis
  proof (cases snap)
    case None
    with False ts snap wf' show thesis
      by (intro quiet [of "d\<lparr>dt_terminal_state := ts\<rparr>"])
         (simp_all add: tmuxremote_prompt_detector_feed_def)
  next
    case (Some sn)
    have "wf_snapshot sn" using snapshot_wf [OF ts(2) rows] snap Some by simp
    from ruleset_match_safe [OF api _ this, of "dt_ruleset d" al] wf obtain cand
      where cand: "tmuxremote_prompt_ruleset_match api al (dt_ruleset d) sn = Some cand"
      by (auto simp: wf_detector_def)
    obtain lc es where "tmuxremote_prompt_lifecycle_process al (dt_lifecycle d) cand (sn_sequence sn) = (lc, es)"
      by force
    with cand False ts snap Some wf' show thesis
      by (intro snapshot) (simp_all add: tmuxremote_prompt_detector_feed_def lifecycle_forwarder_def)
  qed
qed

lemma resize_rows:
  assumes "wf_term st" and "ts_rows st \<le> 65535" and "rows \<le> 65535"
  shows "\<exists>st'. tmuxremote_terminal_state_resize al st rows cols = Some st' \<and> wf_term st' \<and> ts_rows st' \<le> 65535"
  using resize_spec [OF assms(1) refl refl, of al rows cols] assms(2,3)
  by (force simp: TERMINAL_DEFAULT_ROWS_def)

lemma word16_bound: "int (unat (w :: 16 word)) \<le> 65535"
  using unsigned_less [of w, where ?'a = int] by simp

lemma start_wf:
  assumes "\<And>c. config = Some c \<Longrightarrow> bounded_config c"
  shows "wf_detector (detector_start api al config rows cols)"
    and "dt_lifecycle (detector_start api al config rows cols) = lifecycle_start"
    and "dt_callback (detector_start api al config rows cols)"
proof -
  let ?d = "tmuxremote_prompt_detector_init al (int (unat rows)) (int (unat cols)) :: 'a prompt_detector"
  have rows: "ts_rows (dt_terminal_state ?d) \<le> 65535" "wf_term (dt_terminal_state ?d)"
    using word16_bound [of rows] init_wf [of al "int (unat rows)" "int (unat cols)"]
    by (auto simp: tmuxremote_prompt_detector_init_def tmuxremote_terminal_state_init_def init_cells_def
        Let_def TERMINAL_DEFAULT_ROWS_def)
  have d: "wf_detector ?d" "dt_lifecycle ?d = lifecycle_start" "\<not> dt_callback ?d"
    using rows by (auto simp: wf_detector_def tmuxremote_prompt_detector_init_def lifecycle_start_def)
  have load: "wf_detector (tmuxremote_prompt_detector_load_config api al ?d config) \<and>
      dt_lifecycle (tmuxremote_prompt_detector_load_config api al ?d config) = lifecycle_start"
    using rows d(2) assms unfolding tmuxremote_prompt_detector_load_config_def Let_def
    by (auto intro!: reload_rules_wf split: option.splits)
  have upd: "wf_detector (x\<lparr>dt_callback := b\<rparr>) = wf_detector x" for x :: "'a prompt_detector" and b
    by (simp add: wf_detector_def)
  show "wf_detector (detector_start api al config rows cols)"
    and "dt_lifecycle (detector_start api al config rows cols) = lifecycle_start"
    and "dt_callback (detector_start api al config rows cols)"
    using d load
    by (simp_all add: detector_start_def Let_def tmuxremote_prompt_detector_set_callback_def upd)
qed

section \<open>Histories are safe\<close>

lemma detector_step_safe:
  assumes api: "pcre2_ok api" and wf: "wf_detector d"
  shows "\<exists>d' es. detector_step api d x = Some (d', es) \<and> wf_detector d'"
proof (cases x)
  case (DFeed al data)
  show ?thesis
    by (cases rule: feed_cases [OF api wf, where al = al and data = data]) (auto simp: DFeed)
next
  case (DResize al rows cols)
  from resize_rows [of "dt_terminal_state d" "int (unat rows)" al "int (unat cols)"] wf
    word16_bound [of rows]
  obtain ts where "tmuxremote_terminal_state_resize al (dt_terminal_state d) (int (unat rows))
      (int (unat cols)) = Some ts" "wf_term ts" "ts_rows ts \<le> 65535"
    by (auto simp: wf_detector_def)
  with wf show ?thesis
    by (simp add: DResize tmuxremote_prompt_detector_resize_def wf_detector_def)
next
  case (DResolve i)
  with wf show ?thesis
    by (auto simp: tmuxremote_prompt_detector_resolve_def wf_detector_def Let_def split: prod.splits)
next
  case (DSelect al a)
  with wf show ?thesis
    by (auto simp: tmuxremote_prompt_detector_select_agent_def wf_detector_def [of d]
        intro!: reload_rules_wf)
qed

definition safe_trace :: "'re pcre2 \<Rightarrow> 're prompt_detector \<times> prompt_event list \<Rightarrow> bool" where
  "safe_trace api s \<longleftrightarrow> pcre2_ok api \<and> wf_detector (fst s)"

interpretation detector: byte_machine "detector_trace api" "safe_trace api" for api :: "'re pcre2"
proof
  fix s :: "'re prompt_detector \<times> prompt_event list" and x
  assume "safe_trace api s"
  with detector_step_safe [of api "fst s" x]
  show "\<exists>s'. detector_trace api s x = Some s' \<and> safe_trace api s'"
    by (auto simp: safe_trace_def detector_trace_def split: prod.splits)
qed

section \<open>Histories report a followable stream\<close>

text \<open>The operations of a history in which no allocation fails.\<close>

fun lossless :: "detector_op \<Rightarrow> bool" where
  "lossless (DFeed al _) = (\<forall>n. al n)"
| "lossless _ = True"

definition followed :: "'re pcre2 \<Rightarrow> 're prompt_detector \<times> prompt_event list \<Rightarrow> bool" where
  "followed api s \<longleftrightarrow> safe_trace api s \<and> dt_callback (fst s) \<and> wf_lifecycle (dt_lifecycle (fst s)) \<and>
     client_run None (snd s) = Some (shown_prompt (dt_lifecycle (fst s)))"

lemma match_wf_candidate:
  "tmuxremote_prompt_ruleset_match api al rules sn = Some (Some c) \<Longrightarrow> wf_candidate c"
  using ruleset_match_sound fill_candidate(1) by blast

lemma detector_step_lifecycle:
  assumes api: "pcre2_ok api" and wf: "wf_detector d" and x: "lossless x"
    and cb: "dt_callback d" and lc: "wf_lifecycle (dt_lifecycle d)"
    and step: "detector_step api d x = Some (d', es)"
  shows "dt_callback d' \<and> wf_lifecycle (dt_lifecycle d') \<and>
    client_run (shown_prompt (dt_lifecycle d)) es = Some (shown_prompt (dt_lifecycle d'))"
proof (cases x)
  case (DFeed al data)
  then have al: "al = mem_ok" using x by auto
  show ?thesis
  proof (rule feed_cases [OF api wf, where al = al and data = data], goal_cases)
    case (1 d1)
    with step DFeed cb lc show ?thesis by (simp add: client_run_def)
  next
    case (2 ts sn cand lc' es')
    have "lifecycle_op_ok (LProcess cand (sn_sequence sn))"
      using match_wf_candidate [of api al "dt_ruleset d" sn] 2(1) by (cases cand) auto
    from lifecycle_step_sound [OF lc this] 2 step DFeed cb al show ?thesis
      by (auto simp: lifecycle_forwarder_def)
  qed
next
  case (DResize al rows cols)
  with step cb lc show ?thesis
    by (auto simp: tmuxremote_prompt_detector_resize_def client_run_def)
next
  case (DResolve i)
  have "lifecycle_op_ok (LResolve i)" by simp
  from lifecycle_step_sound [OF lc this] step DResolve cb lc show ?thesis
    by (auto simp: tmuxremote_prompt_detector_resolve_def lifecycle_forwarder_def client_run_def Let_def
        split: prod.splits if_splits)
next
  case (DSelect al a)
  with step cb lc show ?thesis
    by (auto simp: tmuxremote_prompt_detector_select_agent_def reload_rules_locked_def Let_def client_run_def
        split: option.splits)
qed

lemma followed_step:
  assumes s: "followed api s" and x: "lossless x"
  shows "\<exists>s'. detector_trace api s x = Some s' \<and> followed api s'"
proof -
  obtain d es where [simp]: "s = (d, es)" by force
  have h: "pcre2_ok api" "wf_detector d" "dt_callback d" "wf_lifecycle (dt_lifecycle d)"
    "client_run None es = Some (shown_prompt (dt_lifecycle d))"
    using s by (simp_all add: followed_def safe_trace_def)
  from detector_step_safe [OF h(1,2), of x] obtain d' es'
    where st: "detector_step api d x = Some (d', es')" "wf_detector d'" by blast
  from detector_step_lifecycle [OF h(1,2) x h(3,4) st(1)] st h show ?thesis
    by (simp add: detector_trace_def followed_def safe_trace_def client_run_append)
qed

lemma followed_run:
  "followed api s \<Longrightarrow> \<forall>x \<in> set xs. lossless x \<Longrightarrow>
     \<exists>s'. fold_opt (detector_trace api) s xs = Some s' \<and> followed api s'"
proof (induction xs arbitrary: s)
  case Nil
  then show ?case by simp
next
  case (Cons x xs)
  from followed_step [OF Cons.prems(1), of x] Cons.prems(2) obtain s1
    where "detector_trace api s x = Some s1" "followed api s1" by auto
  with Cons show ?case by simp
qed

section \<open>Properties\<close>

text \<open>
  C5: the detector never faults.  Whatever PTY output, resizes, resolutions and agent changes
  reach it, in any order and with any allocations failing, every step is free of undefined
  behaviour.  It holds for a regex library that reports offsets inside its subject and a
  configuration whose scan windows leave room for the screen's rows.
\<close>

theorem detector_never_faults:
  assumes "pcre2_ok api" and "\<And>c. config = Some c \<Longrightarrow> bounded_config c"
  shows "\<exists>d es. fold_opt (detector_trace api) (detector_start api al config rows cols, []) xs = Some (d, es) \<and>
     wf_detector d"
proof -
  have "safe_trace api (detector_start api al config rows cols, [])"
    using assms start_wf(1) [of config api al rows cols] by (simp add: safe_trace_def)
  from detector.run_safe [OF this, of xs] show ?thesis by (auto simp: safe_trace_def)
qed

theorem detector_never_faults_witness:
  "\<exists>d es. fold_opt (detector_trace sample_pcre2)
       (detector_start sample_pcre2 mem_ok None 2 10, [])
       [DFeed mem_ok ''Do it?'', DResize (\<lambda>n. n < 100) 1 5, DResolve (Some ''x''), DFeed (\<lambda>_. False) ''y'']
     = Some (d, es) \<and> wf_detector d"
  by (rule detector_never_faults [OF sample_pcre2_ok]) simp



text \<open>A configuration and a one-line screen for the concrete runs below.\<close>

definition sample_config :: pattern_config where
  "sample_config = \<lparr>pc_version = 3, pc_agents = [\<lparr>ac_id = Some ''a'', ac_name = None, ac_patterns =
     [\<lparr>pd_id = Some ''m'', pd_type = YES_NO, pd_prompt_regex = Some ''Do'', pd_option_regex = None,
       pd_actions = [\<lparr>act_label = Some ''Yes'', act_keys = Some ''y''\<rparr>],
       pd_action_template = None, pd_max_scan_lines = 5\<rparr>]\<rparr>]\<rparr>"

definition fed_events :: "string list \<Rightarrow> prompt_event_type list option" where
  "fed_events chunks =
     map_option (\<lambda>(d, es). map (\<lambda>e. case e of Event t _ _ \<Rightarrow> t) es)
       (fold_opt (detector_trace sample_pcre2)
         (detector_start sample_pcre2 mem_ok (Some sample_config) 1 7, [])
         (map (DFeed mem_ok) chunks))"

text \<open>
  C38: the reported events depend on how the PTY output is cut into reads.  The same bytes (a
  prompt, then an erased line and one more character) report a withdrawal when the last
  character arrives in a read of its own, and leave the vanished prompt shown when it does
  not: the absence of a prompt is counted per read.
\<close>

theorem events_depend_on_chunking:
  "concat [''Do?'', [CHR 0x0D, CHR 0x1B] @ ''[K'', ''a''] =
     concat [''Do?'', [CHR 0x0D, CHR 0x1B] @ ''[Ka''] \<and>
   fed_events [''Do?'', [CHR 0x0D, CHR 0x1B] @ ''[K'', ''a''] = Some [PRESENT, GONE] \<and>
   fed_events [''Do?'', [CHR 0x0D, CHR 0x1B] @ ''[Ka''] = Some [PRESENT]"
proof (intro conjI)
  show "fed_events [''Do?'', [CHR 0x0D, CHR 0x1B] @ ''[K'', ''a''] = Some [PRESENT, GONE]"
    by code_simp
  show "fed_events [''Do?'', [CHR 0x0D, CHR 0x1B] @ ''[Ka''] = Some [PRESENT]"
    by code_simp
qed simp

end
