(* ===== verification/Prompt_Protocol.thy ===== *)
theory Prompt_Protocol
  imports Prompt
begin

text \<open>
  The prompt messages of the control stream (\<open>agent/src/tmuxremote_prompt_protocol.c\<close>): a
  4-byte big-endian length followed by a CBOR payload.

  TinyCBOR is third-party code.  A message is a value of type \<open>cbor\<close> and the encoder is a
  parameter \<open>enc\<close> that gives its bytes; writing past the fixed buffer makes
  \<open>cbor_encoder_close_container\<close> report an error, so a message is produced exactly when its
  bytes fit.  The parser is the record \<open>cbor_parser\<close>: initialisation on a payload, the test
  for a map, and the lookup of a text member (with its copy to the heap).
\<close>

definition PROMPT_CBOR_MAX :: nat where
  "PROMPT_CBOR_MAX = 8192"

datatype cbor =
    CText string
  | CUint "64 word"
  | CArray "cbor list"
  | CMap "(string \<times> cbor) list"

record 'v cbor_parser =
  cbor_parser_init :: "byte list \<Rightarrow> 'v option"
  cbor_value_is_map :: "'v \<Rightarrow> bool"
  cbor_map_text :: "'v \<Rightarrow> string \<Rightarrow> string option"

section \<open>Encoding\<close>

fun prompt_type_to_string :: "prompt_type \<Rightarrow> string" where
  "prompt_type_to_string NUMBERED_MENU = ''numbered_menu''"
| "prompt_type_to_string ACCEPT_REJECT = ''accept_reject''"
| "prompt_type_to_string YES_NO = ''yes_no''"

definition wrap_framed_payload :: "alloc \<Rightarrow> byte list \<Rightarrow> byte list option" where
  "wrap_framed_payload al payload =
     (if \<not> al (length payload + 4) then None
      else Some (be32 (word_of_nat (length payload)) @ payload))"

definition string_or_empty :: "string option \<Rightarrow> cbor" where
  "string_or_empty s = CText (case s of None \<Rightarrow> [] | Some x \<Rightarrow> x)"

definition encode_actions :: "prompt_instance \<Rightarrow> cbor" where
  "encode_actions i =
     CArray (map (\<lambda>a. CMap [(''label'', string_or_empty (pa_label a)),
                             (''keys'', string_or_empty (pa_keys a))])
               (take (nat (pi_action_count i)) (pi_actions i)))"

definition instance_message :: "string \<Rightarrow> prompt_instance \<Rightarrow> cbor" where
  "instance_message type i =
     CMap [(''type'', CText type),
           (''instance_id'', CText (pi_instance_id i)),
           (''pattern_id'', string_or_empty (pi_pattern_id i)),
           (''pattern_type'', CText (prompt_type_to_string (pi_pattern_type i))),
           (''prompt'', string_or_empty (pi_prompt i)),
           (''revision'', CUint (ucast (pi_revision i))),
           (''actions'', encode_actions i)]"

definition encode_into :: "(cbor \<Rightarrow> byte list) \<Rightarrow> alloc \<Rightarrow> nat \<Rightarrow> cbor \<Rightarrow> byte list option" where
  "encode_into enc al capacity m =
     (if length (enc m) > capacity then None else wrap_framed_payload al (enc m))"

definition encode_instance_message ::
  "(cbor \<Rightarrow> byte list) \<Rightarrow> alloc \<Rightarrow> string \<Rightarrow> prompt_instance option \<Rightarrow> byte list option" where
  "encode_instance_message enc al type i =
     (case i of None \<Rightarrow> None
      | Some inst \<Rightarrow> encode_into enc al PROMPT_CBOR_MAX (instance_message type inst))"

definition tmuxremote_prompt_protocol_encode_present ::
  "(cbor \<Rightarrow> byte list) \<Rightarrow> alloc \<Rightarrow> prompt_instance option \<Rightarrow> byte list option" where
  "tmuxremote_prompt_protocol_encode_present enc al i = encode_instance_message enc al ''pattern_present'' i"

definition tmuxremote_prompt_protocol_encode_update ::
  "(cbor \<Rightarrow> byte list) \<Rightarrow> alloc \<Rightarrow> prompt_instance option \<Rightarrow> byte list option" where
  "tmuxremote_prompt_protocol_encode_update enc al i = encode_instance_message enc al ''pattern_update'' i"

definition tmuxremote_prompt_protocol_encode_gone ::
  "(cbor \<Rightarrow> byte list) \<Rightarrow> alloc \<Rightarrow> string option \<Rightarrow> byte list option" where
  "tmuxremote_prompt_protocol_encode_gone enc al instance_id =
     (case instance_id of None \<Rightarrow> None
      | Some i \<Rightarrow> encode_into enc al 128
                    (CMap [(''type'', CText ''pattern_gone''), (''instance_id'', CText i)]))"

section \<open>Decoding\<close>

record resolve_message =
  rm_instance_id :: "string option"
  rm_decision :: "string option"
  rm_keys :: "string option"

text \<open>A duplicated text string is used as a C string: it ends at its first NUL.\<close>

definition map_string :: "'v cbor_parser \<Rightarrow> 'v \<Rightarrow> string \<Rightarrow> string option" where
  "map_string api m key = map_option c_string (cbor_map_text api m key)"

definition decode_resolve_payload :: "'v cbor_parser \<Rightarrow> byte list \<Rightarrow> resolve_message option" where
  "decode_resolve_payload api payload =
     (case cbor_parser_init api payload of
        None \<Rightarrow> None
      | Some root \<Rightarrow>
          if \<not> cbor_value_is_map api root then None
          else if map_string api root ''type'' \<noteq> Some ''pattern_resolve'' then None
          else
            let out = \<lparr>rm_instance_id = map_string api root ''instance_id'',
                       rm_decision = map_string api root ''decision'',
                       rm_keys = map_string api root ''keys''\<rparr>
            in if rm_instance_id out = None \<or> rm_decision out = None then None
               else if rm_decision out \<noteq> Some ''action'' \<and> rm_decision out \<noteq> Some ''dismiss'' then None
               else Some out)"

text \<open>
  The outer \<^const>\<open>None\<close> is an access outside \<open>framed_data\<close>, the inner one is \<open>false\<close>.  The
  length check adds 4 in \<open>uint32_t\<close>, before the conversion to \<open>size_t\<close>.
\<close>

definition tmuxremote_prompt_protocol_decode_resolve ::
  "'v cbor_parser \<Rightarrow> byte list \<Rightarrow> resolve_message option option" where
  "tmuxremote_prompt_protocol_decode_resolve api framed_data =
     (if length framed_data < 4 then Some None
      else
        let payload_len = from_be32 framed_data
        in if payload_len = 0 \<or> unat (payload_len + 4) > length framed_data then Some None
           else mem_read framed_data 4 (unat payload_len) \<bind> (\<lambda>payload.
             Some (decode_resolve_payload api payload)))"

section \<open>Lemmas\<close>

lemma frame_length:
  assumes "wrap_framed_payload al p = Some f"
  shows "length f = length p + 4"
  using assms by (auto simp: wrap_framed_payload_def split: if_splits)

lemma unat_of_nat_small: "n < 2 ^ 32 \<Longrightarrow> unat (word_of_nat n :: 32 word) = n"
  by (simp add: unat_of_nat take_bit_nat_eq_self)

lemma decode_frame:
  assumes "length p < 2 ^ 32 - 4"
  shows "tmuxremote_prompt_protocol_decode_resolve api (be32 (word_of_nat (length p)) @ p) =
     Some (if p = [] then None else decode_resolve_payload api p)"
proof -
  have len: "unat (word_of_nat (length p) :: 32 word) = length p"
    "unat (word_of_nat (length p) + 4 :: 32 word) = length p + 4"
  proof -
    show "unat (word_of_nat (length p) :: 32 word) = length p"
      by (rule unat_of_nat_small) (use assms in linarith)
    have "word_of_nat (length p) + 4 = (word_of_nat (length p + 4) :: 32 word)" by simp
    moreover have "unat (word_of_nat (length p + 4) :: 32 word) = length p + 4"
      by (rule unat_of_nat_small) (use assms in linarith)
    ultimately show "unat (word_of_nat (length p) + 4 :: 32 word) = length p + 4" by (simp only:)
  qed
  have zero: "(word_of_nat (length p) :: 32 word) = 0 \<longleftrightarrow> p = []"
  proof
    assume "(word_of_nat (length p) :: 32 word) = 0"
    with len(1) show "p = []" by (simp only: unsigned_0) simp
  qed simp
  have "mem_read (be32 (word_of_nat (length p)) @ p) 4 (length p) = Some p"
    by (simp add: mem_read_def)
  then show ?thesis
    using zero by (simp add: tmuxremote_prompt_protocol_decode_resolve_def Let_def len)
qed

section \<open>Properties\<close>

text \<open>
  Framing round trip.  A resolve payload of at most 65536 bytes (the control reader's
  limit) that was framed by \<open>wrap_framed_payload\<close> is read back unchanged: the decoder stays
  inside the frame and its verdict is the verdict on the payload alone.
\<close>

theorem frame_decode_roundtrip:
  assumes "wrap_framed_payload al p = Some f" and "0 < length p" and "length p \<le> 65536"
  shows "tmuxremote_prompt_protocol_decode_resolve api f = Some (decode_resolve_payload api p) \<and>
     take 4 f = be32 (word_of_nat (length p)) \<and> drop 4 f = p"
proof -
  have f: "f = be32 (word_of_nat (length p)) @ p"
    using assms(1) by (simp add: wrap_framed_payload_def split: if_splits)
  have "tmuxremote_prompt_protocol_decode_resolve api f = Some (decode_resolve_payload api p)"
    using decode_frame [of p api] assms(2,3) by (simp add: f)
  then show ?thesis by (simp add: f)
qed

definition no_parser :: "unit cbor_parser" where
  "no_parser = \<lparr>cbor_parser_init = (\<lambda>_. Some ()), cbor_value_is_map = (\<lambda>_. True),
     cbor_map_text = (\<lambda>_ k. if k = ''type'' then Some ''pattern_resolve''
       else if k = ''decision'' then Some ''dismiss'' else if k = ''instance_id'' then Some ''i'' else None)\<rparr>"

theorem frame_decode_roundtrip_witness:
  "tmuxremote_prompt_protocol_decode_resolve no_parser (be32 3 @ [1, 2, 3]) =
       Some (decode_resolve_payload no_parser [1, 2, 3]) \<and>
     take 4 (be32 3 @ [1, 2, 3]) = be32 (word_of_nat (length [1, 2, 3 :: byte])) \<and>
     drop 4 (be32 3 @ [1, 2, 3]) = [1, 2, 3]"
  by (rule frame_decode_roundtrip [where al = mem_ok]) (simp_all add: wrap_framed_payload_def)

text \<open>
  A frame whose length field is one of the four largest values passes the length check,
  because the sum with 4 wraps around in 32 bits, and the parser is given a payload that
  reaches outside the received data.
\<close>

theorem decode_length_check_wraps:
  assumes "length rest < 2 ^ 32 - 4" and "0xFFFFFFFC \<le> w"
  shows "tmuxremote_prompt_protocol_decode_resolve api (be32 w @ rest) = None"
proof -
  have w: "w \<noteq> 0" "4294967292 \<le> unat w" using assms(2)
    by (auto simp: word_le_nat_alt)
  have lt: "unat w < 4294967296" using unsigned_less [of w, where ?'a = nat] by simp
  then have "unat (w + 4) = (unat w + 4) mod 4294967296" "unat w + 4 < 2 * 4294967296"
    by (simp_all add: unat_word_ariths)
  with w(2) lt have "unat (w + 4) < 4" by (auto simp: mod_if)
  with w assms(1) show ?thesis
    by (simp add: tmuxremote_prompt_protocol_decode_resolve_def mem_read_def)
qed

theorem decode_length_check_wraps_witness:
  "tmuxremote_prompt_protocol_decode_resolve no_parser (be32 0xFFFFFFFF @ [0, 0]) = None"
  by (rule decode_length_check_wraps) simp_all

text \<open>
  A decoded resolve message is complete: it names an instance, its decision is
  \<open>action\<close> or \<open>dismiss\<close>, and the payload's type was \<open>pattern_resolve\<close>.
\<close>

theorem decoded_resolve_is_complete:
  assumes "tmuxremote_prompt_protocol_decode_resolve api f = Some (Some m)"
  shows "\<exists>p root. p = take (length p) (drop 4 f) \<and> cbor_parser_init api p = Some root \<and>
     map_string api root ''type'' = Some ''pattern_resolve'' \<and>
     rm_instance_id m = map_string api root ''instance_id'' \<and> rm_instance_id m \<noteq> None \<and>
     (rm_decision m = Some ''action'' \<or> rm_decision m = Some ''dismiss'')"
proof -
  from assms obtain p where p: "p = take (unat (from_be32 f)) (drop 4 f)"
    and d: "decode_resolve_payload api p = Some m"
    by (auto simp: tmuxremote_prompt_protocol_decode_resolve_def Let_def mem_read_def split: if_splits)
  have "p = take (length p) (drop 4 f)" unfolding p by (simp add: min_def)
  with d show ?thesis
    by (intro exI [of _ p])
       (auto simp: decode_resolve_payload_def Let_def split: option.splits if_splits)
qed

theorem decoded_resolve_is_complete_witness:
  "\<exists>p root. p = take (length p) (drop 4 (be32 1 @ [7])) \<and> cbor_parser_init no_parser p = Some root \<and>
     map_string no_parser root ''type'' = Some ''pattern_resolve'' \<and>
     Some ''i'' = map_string no_parser root ''instance_id'' \<and> Some ''i'' \<noteq> None \<and>
     (Some ''dismiss'' = Some ''action'' \<or> Some ''dismiss'' = Some ''dismiss'')"
proof -
  have "tmuxremote_prompt_protocol_decode_resolve no_parser (be32 1 @ [7]) =
      Some (Some \<lparr>rm_instance_id = Some ''i'', rm_decision = Some ''dismiss'', rm_keys = None\<rparr>)"
    using decode_frame [of "[7]" no_parser]
    by (simp add: decode_resolve_payload_def no_parser_def map_string_def c_string_def)
  from decoded_resolve_is_complete [OF this] show ?thesis by simp
qed

end
