(* ===== verification/Session_Map.thy ===== *)
theory Session_Map
  imports Prelude
begin

text \<open>
  The session map (\<open>agent/src/tmuxremote_session.c\<close>): which tmux session a connection attached
  to, in eight slots.  All functions run under the map's mutex, so they are atomic.
\<close>

type_synonym connection_ref = "64 word"

definition TMUXREMOTE_MAX_SESSIONS :: nat where
  "TMUXREMOTE_MAX_SESSIONS = 8"

definition TMUXREMOTE_SESSION_NAME_MAX :: nat where
  "TMUXREMOTE_SESSION_NAME_MAX = 64"

record session_entry =
  se_connectionRef :: connection_ref
  se_sessionName :: string
  se_cols :: "16 word"
  se_rows :: "16 word"
  se_valid :: bool

type_synonym session_map = "session_entry list"

definition zero_entry :: session_entry where
  "zero_entry = \<lparr>se_connectionRef = 0, se_sessionName = [], se_cols = 0, se_rows = 0, se_valid = False\<rparr>"

definition tmuxremote_session_map_init :: session_map where
  "tmuxremote_session_map_init = replicate TMUXREMOTE_MAX_SESSIONS zero_entry"

text \<open>A loop that stops at the first entry with a property and changes that entry.\<close>

fun update_first :: "('a \<Rightarrow> bool) \<Rightarrow> ('a \<Rightarrow> 'a) \<Rightarrow> 'a list \<Rightarrow> 'a list option" where
  "update_first P f [] = None"
| "update_first P f (x # xs) = (if P x then Some (f x # xs) else map_option (Cons x) (update_first P f xs))"

definition is_entry_of :: "connection_ref \<Rightarrow> session_entry \<Rightarrow> bool" where
  "is_entry_of ref e \<longleftrightarrow> se_valid e \<and> se_connectionRef e = ref"

definition fill_entry :: "string \<Rightarrow> 16 word \<Rightarrow> 16 word \<Rightarrow> session_entry \<Rightarrow> session_entry" where
  "fill_entry sessionName cols rows e =
     e\<lparr>se_sessionName := strncpy_term TMUXREMOTE_SESSION_NAME_MAX sessionName,
       se_cols := cols, se_rows := rows\<rparr>"

definition tmuxremote_session_set ::
  "session_map \<Rightarrow> connection_ref \<Rightarrow> string \<Rightarrow> 16 word \<Rightarrow> 16 word \<Rightarrow> bool \<times> session_map" where
  "tmuxremote_session_set m ref sessionName cols rows =
     (case update_first (is_entry_of ref) (fill_entry sessionName cols rows) m of
        Some m' \<Rightarrow> (True, m')
      | None \<Rightarrow>
          (case update_first (\<lambda>e. \<not> se_valid e)
                  (\<lambda>e. (fill_entry sessionName cols rows (e\<lparr>se_connectionRef := ref\<rparr>))\<lparr>se_valid := True\<rparr>) m of
             Some m' \<Rightarrow> (True, m')
           | None \<Rightarrow> (False, m)))"

definition tmuxremote_session_get :: "session_map \<Rightarrow> connection_ref \<Rightarrow> session_entry option" where
  "tmuxremote_session_get m ref = find (is_entry_of ref) m"

definition tmuxremote_session_update_size ::
  "session_map \<Rightarrow> connection_ref \<Rightarrow> 16 word \<Rightarrow> 16 word \<Rightarrow> bool \<times> session_map" where
  "tmuxremote_session_update_size m ref cols rows =
     (case update_first (is_entry_of ref) (\<lambda>e. e\<lparr>se_cols := cols, se_rows := rows\<rparr>) m of
        Some m' \<Rightarrow> (True, m')
      | None \<Rightarrow> (False, m))"

definition tmuxremote_session_remove :: "session_map \<Rightarrow> connection_ref \<Rightarrow> session_map" where
  "tmuxremote_session_remove m ref = map (\<lambda>e. if is_entry_of ref e then zero_entry else e) m"

section \<open>The abstract store\<close>

text \<open>What a connection is attached to: session name, columns, rows.\<close>

type_synonym attachment = "string \<times> 16 word \<times> 16 word"

definition attachment_of :: "session_entry \<Rightarrow> attachment" where
  "attachment_of e = (se_sessionName e, se_cols e, se_rows e)"

definition abs_map :: "session_map \<Rightarrow> connection_ref \<Rightarrow> attachment option" where
  "abs_map m ref = map_option attachment_of (find (is_entry_of ref) m)"

definition valid_refs :: "session_map \<Rightarrow> connection_ref list" where
  "valid_refs m = map se_connectionRef (filter se_valid m)"

definition wf_map :: "session_map \<Rightarrow> bool" where
  "wf_map m \<longleftrightarrow> length m = TMUXREMOTE_MAX_SESSIONS \<and> distinct (valid_refs m)"

text \<open>
  The contract between the session store and its clients (the CoAP handlers and the stream
  set-up): a bounded finite map from connections to attachments.
\<close>

locale session_store =
  fixes inv :: "'m \<Rightarrow> bool"
    and view :: "'m \<Rightarrow> connection_ref \<Rightarrow> attachment option"
    and capacity :: nat
    and put :: "'m \<Rightarrow> connection_ref \<Rightarrow> string \<Rightarrow> 16 word \<Rightarrow> 16 word \<Rightarrow> bool \<times> 'm"
    and resize :: "'m \<Rightarrow> connection_ref \<Rightarrow> 16 word \<Rightarrow> 16 word \<Rightarrow> bool \<times> 'm"
    and drop_ref :: "'m \<Rightarrow> connection_ref \<Rightarrow> 'm"
    and stored :: "string \<Rightarrow> string"
  assumes bounded: "inv m \<Longrightarrow> finite (dom (view m)) \<and> card (dom (view m)) \<le> capacity"
    and put_law: "inv m \<Longrightarrow> case put m r n c w of (ok, m') \<Rightarrow> inv m' \<and>
        (ok \<longleftrightarrow> r \<in> dom (view m) \<or> card (dom (view m)) < capacity) \<and>
        view m' = (if ok then (view m)(r \<mapsto> (stored n, c, w)) else view m)"
    and resize_law: "inv m \<Longrightarrow> case resize m r c w of (ok, m') \<Rightarrow> inv m' \<and>
        (ok \<longleftrightarrow> r \<in> dom (view m)) \<and>
        view m' = (case view m r of None \<Rightarrow> view m | Some (n, _, _) \<Rightarrow> (view m)(r \<mapsto> (n, c, w)))"
    and drop_law: "inv m \<Longrightarrow> inv (drop_ref m r) \<and> view (drop_ref m r) = (view m)(r := None)"
begin

text \<open>A connection can always re-attach, and after a removal there is room for another one.\<close>

lemma put_again: "inv m \<Longrightarrow> put m r n c w = (True, m') \<Longrightarrow> fst (put m' r n' c' w')"
  using put_law [of m r n c w] put_law [of m' r n' c' w'] by auto

lemma put_after_drop:
  assumes "inv m" and "r \<in> dom (view m)"
  shows "fst (put (drop_ref m r) r' n c w)"
proof -
  have "card (dom (view m) - {r}) < card (dom (view m))"
    using assms bounded [OF assms(1)] by (intro psubset_card_mono) auto
  then have "card (dom (view (drop_ref m r))) < capacity"
    using drop_law [OF assms(1), of r] bounded [OF assms(1)] by simp
  with put_law [of "drop_ref m r" r' n c w] drop_law [OF assms(1), of r] show ?thesis by auto
qed

lemma put_resize:
  assumes "inv m" and "put m r n c w = (True, m1)"
  shows "\<exists>m2. resize m1 r c' w' = (True, m2) \<and> view m2 = (view m)(r \<mapsto> (stored n, c', w'))"
  using put_law [OF assms(1), of r n c w] resize_law [of m1 r c' w'] assms(2)
  by (auto split: prod.splits)

end

section \<open>The slots implement the store\<close>

lemma update_first_None: "update_first P f xs = None \<longleftrightarrow> (\<forall>x \<in> set xs. \<not> P x)"
  by (induction xs) auto

lemma update_first_Some:
  "update_first P f xs = Some ys \<Longrightarrow>
     \<exists>as x bs. xs = as @ x # bs \<and> P x \<and> (\<forall>a \<in> set as. \<not> P a) \<and> ys = as @ f x # bs"
proof (induction xs arbitrary: ys)
  case Nil
  then show ?case by simp
next
  case (Cons x xs)
  show ?case
  proof (cases "P x")
    case True
    with Cons.prems show ?thesis by (intro exI [of _ "[]"]) auto
  next
    case False
    with Cons.prems obtain zs where "update_first P f xs = Some zs" "ys = x # zs" by auto
    with Cons.IH obtain as y bs where "xs = as @ y # bs" "P y" "\<forall>a \<in> set as. \<not> P a" "zs = as @ f y # bs"
      by blast
    with False \<open>ys = x # zs\<close> show ?thesis by (intro exI [of _ "x # as"]) auto
  qed
qed

lemma find_append: "find P (xs @ ys) = (case find P xs of None \<Rightarrow> find P ys | Some x \<Rightarrow> Some x)"
  by (induction xs) auto

lemma find_none: "find P xs = None \<longleftrightarrow> (\<forall>x \<in> set xs. \<not> P x)"
  by (induction xs) auto

lemma find_entry_None: "find (is_entry_of r) m = None \<longleftrightarrow> r \<notin> set (valid_refs m)"
  by (auto simp: find_none is_entry_of_def valid_refs_def)

lemma dom_abs_map: "dom (abs_map m) = set (valid_refs m)"
  by (simp add: abs_map_def dom_def find_entry_None)

lemma abs_map_bounded:
  assumes "wf_map m"
  shows "finite (dom (abs_map m)) \<and> card (dom (abs_map m)) \<le> 8"
proof -
  have "length (valid_refs m) \<le> 8" using assms length_filter_le [of se_valid m]
    by (simp add: valid_refs_def wf_map_def TMUXREMOTE_MAX_SESSIONS_def)
  with assms show ?thesis by (simp add: dom_abs_map distinct_card wf_map_def)
qed

lemma valid_refs_Nil [simp]: "valid_refs [] = []"
  by (simp add: valid_refs_def)

lemma valid_refs_append [simp]: "valid_refs (xs @ ys) = valid_refs xs @ valid_refs ys"
  by (simp add: valid_refs_def)

lemma valid_refs_Cons [simp]:
  "valid_refs (x # xs) = (if se_valid x then se_connectionRef x # valid_refs xs else valid_refs xs)"
  by (simp add: valid_refs_def)

lemma abs_map_append: "abs_map (xs @ ys) = abs_map ys ++ abs_map xs"
  by (auto simp: abs_map_def find_append map_add_def fun_eq_iff split: option.splits)

lemma abs_map_Cons:
  "abs_map (x # xs) = (if se_valid x then (abs_map xs)(se_connectionRef x \<mapsto> attachment_of x) else abs_map xs)"
  by (auto simp: abs_map_def is_entry_of_def fun_eq_iff)

lemma set_implements:
  assumes wf: "wf_map m"
  shows "case tmuxremote_session_set m r n c w of (ok, m') \<Rightarrow> wf_map m' \<and>
    (ok \<longleftrightarrow> r \<in> dom (abs_map m) \<or> card (dom (abs_map m)) < 8) \<and>
    abs_map m' = (if ok then (abs_map m)(r \<mapsto> (strncpy_term 64 n, c, w)) else abs_map m)"
proof (cases "update_first (is_entry_of r) (fill_entry n c w) m")
  case (Some m')
  from update_first_Some [OF Some] obtain as x bs where m: "m = as @ x # bs" "is_entry_of r x"
    "m' = as @ fill_entry n c w x # bs" by blast
  have fx: "se_valid (fill_entry n c w x)" "se_connectionRef (fill_entry n c w x) = r"
    "attachment_of (fill_entry n c w x) = (strncpy_term 64 n, c, w)" "se_valid x" "se_connectionRef x = r"
    using m(2)
    by (simp_all add: fill_entry_def is_entry_of_def attachment_of_def TMUXREMOTE_SESSION_NAME_MAX_def)
  have r: "r \<notin> dom (abs_map as)" using wf m fx by (auto simp: dom_abs_map wf_map_def)
  have "abs_map m' = (abs_map m)(r \<mapsto> (strncpy_term 64 n, c, w))"
    using r by (simp add: m abs_map_append abs_map_Cons fx map_add_upd_left)
  moreover have "valid_refs m' = valid_refs m" by (simp add: m fx)
  moreover have "r \<in> dom (abs_map m)" by (simp add: dom_abs_map m fx)
  ultimately show ?thesis using wf Some
    by (simp add: tmuxremote_session_set_def wf_map_def m)
next
  case None
  then have nr: "r \<notin> set (valid_refs m)"
    by (auto simp: update_first_None is_entry_of_def valid_refs_def)
  let ?f = "\<lambda>e. (fill_entry n c w (e\<lparr>se_connectionRef := r\<rparr>))\<lparr>se_valid := True\<rparr>"
  have card: "card (dom (abs_map m)) = length (filter se_valid m)"
    using wf by (simp add: dom_abs_map distinct_card wf_map_def) (simp add: valid_refs_def)
  show ?thesis
  proof (cases "update_first (\<lambda>e. \<not> se_valid e) ?f m")
    case N2: None
    then have "filter se_valid m = m" by (auto simp: update_first_None intro: filter_True)
    then have "card (dom (abs_map m)) = 8" using wf card
      by (simp add: wf_map_def TMUXREMOTE_MAX_SESSIONS_def)
    with None N2 wf nr show ?thesis by (simp add: tmuxremote_session_set_def dom_abs_map)
  next
    case (Some m')
    from update_first_Some [OF Some] obtain as x bs where m: "m = as @ x # bs" "\<not> se_valid x"
      "m' = as @ ?f x # bs" by blast
    have fx: "se_valid (?f x)" "se_connectionRef (?f x) = r"
      "attachment_of (?f x) = (strncpy_term 64 n, c, w)"
      by (simp_all add: fill_entry_def attachment_of_def TMUXREMOTE_SESSION_NAME_MAX_def)
    have "r \<notin> dom (abs_map as)" using nr by (simp add: dom_abs_map m)
    then have "abs_map m' = (abs_map m)(r \<mapsto> (strncpy_term 64 n, c, w))"
      using m(2) by (simp add: m abs_map_append abs_map_Cons fx map_add_upd_left)
    moreover have "wf_map m'" using wf nr m(2) by (auto simp: wf_map_def m fx)
    moreover have "length (filter se_valid m) < 8"
    proof -
      have "length (filter se_valid m) \<le> length as + length bs" using m(2) by (simp add: m add_mono)
      moreover have "length as + length bs < 8" using wf by (simp add: wf_map_def TMUXREMOTE_MAX_SESSIONS_def m)
      ultimately show ?thesis by linarith
    qed
    ultimately show ?thesis using None Some card by (simp add: tmuxremote_session_set_def)
  qed
qed

lemma update_size_implements:
  assumes wf: "wf_map m"
  shows "case tmuxremote_session_update_size m r c w of (ok, m') \<Rightarrow> wf_map m' \<and>
    (ok \<longleftrightarrow> r \<in> dom (abs_map m)) \<and>
    abs_map m' = (case abs_map m r of None \<Rightarrow> abs_map m | Some (n, _, _) \<Rightarrow> (abs_map m)(r \<mapsto> (n, c, w)))"
proof (cases "update_first (is_entry_of r) (\<lambda>e. e\<lparr>se_cols := c, se_rows := w\<rparr>) m")
  case None
  then have "r \<notin> dom (abs_map m)"
    by (auto simp: dom_abs_map update_first_None is_entry_of_def valid_refs_def)
  with None wf show ?thesis
    by (auto simp: tmuxremote_session_update_size_def domIff split: option.splits)
next
  case (Some m')
  let ?f = "\<lambda>e. e\<lparr>se_cols := c, se_rows := w\<rparr>"
  from update_first_Some [OF Some] obtain as x bs where m: "m = as @ x # bs" "is_entry_of r x"
    "m' = as @ ?f x # bs" by blast
  have fx: "se_valid (?f x)" "se_connectionRef (?f x) = r"
    "attachment_of (?f x) = (se_sessionName x, c, w)" "se_valid x" "se_connectionRef x = r"
    using m(2) by (simp_all add: is_entry_of_def attachment_of_def)
  have r: "r \<notin> dom (abs_map as)" using wf m fx by (auto simp: dom_abs_map wf_map_def)
  have at: "abs_map m r = Some (se_sessionName x, se_cols x, se_rows x)"
    using r fx by (simp add: m abs_map_append abs_map_Cons map_add_dom_app_simps attachment_of_def)
  have "abs_map m' = (abs_map m)(r \<mapsto> (se_sessionName x, c, w))"
    using r by (simp add: m abs_map_append abs_map_Cons fx map_add_upd_left)
  moreover have "valid_refs m' = valid_refs m" using fx by (simp add: m)
  ultimately show ?thesis using wf Some at
    by (auto simp: tmuxremote_session_update_size_def wf_map_def m)
qed

lemma remove_implements:
  assumes "wf_map m"
  shows "wf_map (tmuxremote_session_remove m r) \<and>
    abs_map (tmuxremote_session_remove m r) = (abs_map m)(r := None)"
proof -
  have refs: "valid_refs (tmuxremote_session_remove m r) = filter (\<lambda>x. x \<noteq> r) (valid_refs m)"
    by (induction m) (auto simp: tmuxremote_session_remove_def is_entry_of_def zero_entry_def)
  have "abs_map (tmuxremote_session_remove m r) = (abs_map m)(r := None)"
    by (induction m) (auto simp: tmuxremote_session_remove_def abs_map_Cons is_entry_of_def zero_entry_def
        fun_eq_iff abs_map_def)
  with refs assms show ?thesis by (simp add: wf_map_def) (simp add: tmuxremote_session_remove_def)
qed

interpretation sessions: session_store wf_map abs_map 8
  tmuxremote_session_set tmuxremote_session_update_size tmuxremote_session_remove "strncpy_term 64"
  by unfold_locales
     (rule abs_map_bounded set_implements update_size_implements remove_implements; assumption)+

lemma init_wf_map: "wf_map tmuxremote_session_map_init"
  by (simp add: wf_map_def tmuxremote_session_map_init_def valid_refs_def zero_entry_def)

lemma get_implements: "map_option attachment_of (tmuxremote_session_get m r) = abs_map m r"
  by (simp add: tmuxremote_session_get_def abs_map_def)

section \<open>Properties\<close>

text \<open>
  C15: the session map is a finite map with room for eight connections.  Attaching succeeds
  exactly when the connection is known or fewer than eight are; then the connection maps to
  the name (cut to 63 bytes) and the size, and every other connection is untouched.  A refused
  attach changes nothing.
\<close>

theorem session_set_refines_map:
  assumes "wf_map m"
  shows "case tmuxremote_session_set m r n c w of (ok, m') \<Rightarrow> wf_map m' \<and>
    (ok \<longleftrightarrow> r \<in> dom (abs_map m) \<or> card (dom (abs_map m)) < 8) \<and>
    abs_map m' = (if ok then (abs_map m)(r \<mapsto> (strncpy_term 64 n, c, w)) else abs_map m)"
  by (rule sessions.put_law [OF assms])

theorem session_set_refines_map_witness:
  "case tmuxremote_session_set tmuxremote_session_map_init 7 ''main'' 80 24 of (ok, m') \<Rightarrow> wf_map m' \<and>
    (ok \<longleftrightarrow> 7 \<in> dom (abs_map tmuxremote_session_map_init) \<or>
       card (dom (abs_map tmuxremote_session_map_init)) < 8) \<and>
    abs_map m' = (if ok then (abs_map tmuxremote_session_map_init)(7 \<mapsto> (strncpy_term 64 ''main'', 80, 24))
      else abs_map tmuxremote_session_map_init)"
  by (rule session_set_refines_map [OF init_wf_map])

text \<open>
  Detaching frees the slot.  When the map is full, removing one attached connection lets
  any connection attach, and a resize after an attach changes the size and nothing else.
\<close>

theorem session_slot_is_reusable:
  assumes "wf_map m" and "r \<in> dom (abs_map m)"
  shows "\<exists>m1 m2. tmuxremote_session_set (tmuxremote_session_remove m r) r' n c w = (True, m1) \<and>
     tmuxremote_session_update_size m1 r' c' w' = (True, m2) \<and>
     abs_map m2 = ((abs_map m)(r := None))(r' \<mapsto> (strncpy_term 64 n, c', w'))"
proof -
  let ?m = "tmuxremote_session_remove m r"
  have m: "wf_map ?m" "abs_map ?m = (abs_map m)(r := None)" using sessions.drop_law [OF assms(1)] by auto
  from sessions.put_after_drop [OF assms, of r' n c w] obtain m1
    where m1: "tmuxremote_session_set ?m r' n c w = (True, m1)" by (metis prod.collapse)
  from sessions.put_resize [OF m(1) m1, of c' w'] m1 m(2) show ?thesis by auto
qed

theorem session_slot_is_reusable_witness:
  "\<exists>m1 m2. tmuxremote_session_set (tmuxremote_session_remove
       (snd (tmuxremote_session_set tmuxremote_session_map_init 7 ''main'' 80 24)) 7) 9 ''x'' 1 2 = (True, m1) \<and>
     tmuxremote_session_update_size m1 9 3 4 = (True, m2) \<and>
     abs_map m2 = ((abs_map (snd (tmuxremote_session_set tmuxremote_session_map_init 7 ''main'' 80 24)))
       (7 := None))(9 \<mapsto> (strncpy_term 64 ''x'', 3, 4))"
proof (rule session_slot_is_reusable)
  let ?s = "tmuxremote_session_set tmuxremote_session_map_init 7 ''main'' 80 24"
  have empty: "dom (abs_map tmuxremote_session_map_init) = {}"
    by (simp add: dom_abs_map tmuxremote_session_map_init_def valid_refs_def zero_entry_def)
  from sessions.put_law [OF init_wf_map, of 7 "''main''" 80 24]
  show "wf_map (snd ?s)" "7 \<in> dom (abs_map (snd ?s))"
    by (auto simp: empty split: prod.splits)
qed

end
