(* ===== verification/Coap_Handler.thy ===== *)
theory Coap_Handler
  imports Prelude "HOL-Library.Multiset"
begin

text \<open>
  The CoAP request queue (\<open>agent/src/tmuxremote_coap_handler.c\<close>): an SDK callback puts
  requests into a queue, a worker thread handles them, and shutting down waits for both.

  The sections under \<open>queueMutex\<close> are atomic, so the threads interleave between them.  Every
  such section is an operation on the handler record; the inductive relation \<open>hstep\<close> lets the
  SDK, the callback thread, the worker thread and the main thread take their next section in
  any order.  Requests are numbered in the order in which the SDK delivers them.  The fields
  \<open>accepted\<close>, \<open>handled\<close>, \<open>refused\<close> and \<open>freed\<close> record what happened to them and are read
  by no operation.  The linked list of nodes is the list of its requests, and the listening
  future is outstanding when \<open>armed\<close> holds.
\<close>

datatype callback_pc = CbIdle | CbStart nat | CbHolding nat | CbRearm | CbLeave

datatype worker_pc = WkWaiting | WkHandling nat | WkExited

record coap_handler =
  ch_armed :: bool
  ch_next :: nat
  ch_callback :: callback_pc
  ch_worker :: worker_pc
  ch_queue :: "nat list"
  ch_activeCallbacks :: nat
  ch_stopping :: bool
  ch_deinit :: bool
  ch_accepted :: "nat list"
  ch_handled :: "nat list"
  ch_refused :: "nat list"
  ch_freed :: "nat list"

text \<open>\<open>tmuxremote_coap_handler_init\<close> when every call succeeds: the worker runs, the listener is armed.\<close>

definition tmuxremote_coap_handler_init :: coap_handler where
  "tmuxremote_coap_handler_init =
     \<lparr>ch_armed = True, ch_next = 0, ch_callback = CbIdle, ch_worker = WkWaiting, ch_queue = [],
      ch_activeCallbacks = 0, ch_stopping = False, ch_deinit = False,
      ch_accepted = [], ch_handled = [], ch_refused = [], ch_freed = []\<rparr>"

definition tmuxremote_coap_handler_stop :: "coap_handler \<Rightarrow> coap_handler" where
  "tmuxremote_coap_handler_stop h = h\<lparr>ch_stopping := True\<rparr>"

definition start_listen :: "coap_handler \<Rightarrow> coap_handler" where
  "start_listen h = h\<lparr>ch_armed := True\<rparr>"

definition request_free :: "nat list \<Rightarrow> coap_handler \<Rightarrow> coap_handler" where
  "request_free rs h = h\<lparr>ch_freed := ch_freed h @ rs\<rparr>"

definition callback_enter :: "coap_handler \<Rightarrow> bool \<times> coap_handler" where
  "callback_enter h =
     (if \<not> ch_stopping h then (True, h\<lparr>ch_activeCallbacks := ch_activeCallbacks h + 1\<rparr>)
      else (False, h))"

definition callback_leave :: "coap_handler \<Rightarrow> coap_handler" where
  "callback_leave h =
     (if ch_activeCallbacks h > 0 then h\<lparr>ch_activeCallbacks := ch_activeCallbacks h - 1\<rparr> else h)"

definition enqueue_request :: "alloc \<Rightarrow> coap_handler \<Rightarrow> nat \<Rightarrow> bool \<times> coap_handler" where
  "enqueue_request al h r =
     (if \<not> al 16 then (False, h)
      else if ch_stopping h then (False, h)
      else (True, h\<lparr>ch_queue := ch_queue h @ [r], ch_accepted := ch_accepted h @ [r]\<rparr>))"

text \<open>\<open>request_callback\<close>, cut at its critical sections.\<close>

definition callback_start :: "coap_handler \<Rightarrow> nat \<Rightarrow> coap_handler" where
  "callback_start h r =
     (let (ok, h) = callback_enter h
      in if \<not> ok then request_free [r] (h\<lparr>ch_callback := CbIdle\<rparr>)
         else h\<lparr>ch_callback := CbHolding r\<rparr>)"

definition callback_enqueue :: "alloc \<Rightarrow> coap_handler \<Rightarrow> nat \<Rightarrow> coap_handler" where
  "callback_enqueue al h r =
     (let (ok, h) = enqueue_request al h r
      in if \<not> ok then request_free [r] (h\<lparr>ch_refused := ch_refused h @ [r], ch_callback := CbRearm\<rparr>)
         else h\<lparr>ch_callback := CbRearm\<rparr>)"

definition callback_rearm :: "coap_handler \<Rightarrow> coap_handler" where
  "callback_rearm h =
     (let rearm = \<not> ch_stopping h
      in (if rearm then start_listen h else h)\<lparr>ch_callback := CbLeave\<rparr>)"

text \<open>
  One turn of \<open>coap_worker_thread\<close>: \<^const>\<open>None\<close> while it waits on the condition variable.
\<close>

definition worker_take :: "coap_handler \<Rightarrow> coap_handler option" where
  "worker_take h =
     (case ch_queue h of
        [] \<Rightarrow> if ch_stopping h then Some (h\<lparr>ch_worker := WkExited\<rparr>) else None
      | r # q \<Rightarrow> Some (h\<lparr>ch_queue := q, ch_worker := WkHandling r\<rparr>))"

definition worker_handle :: "coap_handler \<Rightarrow> nat \<Rightarrow> coap_handler" where
  "worker_handle h r =
     request_free [r] (h\<lparr>ch_handled := ch_handled h @ [r], ch_worker := WkWaiting\<rparr>)"

text \<open>
  The tail of \<open>tmuxremote_coap_handler_deinit\<close>, after the wait for the callbacks and the join
  of the worker: what is left in the queue is released unhandled.
\<close>

definition deinit_drain :: "coap_handler \<Rightarrow> coap_handler" where
  "deinit_drain h = request_free (ch_queue h) (h\<lparr>ch_queue := [], ch_deinit := True\<rparr>)"

inductive hstep :: "coap_handler \<Rightarrow> coap_handler \<Rightarrow> bool" where
  deliver: "ch_armed h \<Longrightarrow> ch_callback h = CbIdle \<Longrightarrow>
     hstep h (h\<lparr>ch_armed := False, ch_next := ch_next h + 1, ch_callback := CbStart (ch_next h)\<rparr>)"
| listener_error: "ch_armed h \<Longrightarrow> ch_callback h = CbIdle \<Longrightarrow> hstep h (h\<lparr>ch_armed := False\<rparr>)"
| cb_start: "ch_callback h = CbStart r \<Longrightarrow> hstep h (callback_start h r)"
| cb_enqueue: "ch_callback h = CbHolding r \<Longrightarrow> hstep h (callback_enqueue al h r)"
| cb_rearm: "ch_callback h = CbRearm \<Longrightarrow> hstep h (callback_rearm h)"
| cb_leave: "ch_callback h = CbLeave \<Longrightarrow> hstep h ((callback_leave h)\<lparr>ch_callback := CbIdle\<rparr>)"
| take: "ch_worker h = WkWaiting \<Longrightarrow> worker_take h = Some h' \<Longrightarrow> hstep h h'"
| handle: "ch_worker h = WkHandling r \<Longrightarrow> hstep h (worker_handle h r)"
| stop: "hstep h (tmuxremote_coap_handler_stop h)"
| deinit: "ch_stopping h \<Longrightarrow> ch_activeCallbacks h = 0 \<Longrightarrow> ch_worker h = WkExited \<Longrightarrow> \<not> ch_deinit h \<Longrightarrow>
     hstep h (deinit_drain h)"

inductive_cases hstepE: "hstep h h'"

inductive reachable :: "coap_handler \<Rightarrow> bool" where
  init: "reachable tmuxremote_coap_handler_init"
| step: "reachable h \<Longrightarrow> hstep h h' \<Longrightarrow> reachable h'"

section \<open>Invariant\<close>

text \<open>The request a thread holds.\<close>

fun held_by_callback :: "callback_pc \<Rightarrow> nat list" where
  "held_by_callback (CbStart r) = [r]"
| "held_by_callback (CbHolding r) = [r]"
| "held_by_callback _ = []"

fun held_by_worker :: "worker_pc \<Rightarrow> nat list" where
  "held_by_worker (WkHandling r) = [r]"
| "held_by_worker _ = []"

definition inside_callback :: "callback_pc \<Rightarrow> bool" where
  "inside_callback pc \<longleftrightarrow> (\<exists>r. pc = CbHolding r) \<or> pc = CbRearm \<or> pc = CbLeave"

definition wf_handler :: "coap_handler \<Rightarrow> bool" where
  "wf_handler h \<longleftrightarrow>
     mset (held_by_callback (ch_callback h) @ ch_queue h @ held_by_worker (ch_worker h) @ ch_freed h) =
       mset [0..<ch_next h] \<and>
     ch_accepted h = ch_handled h @ held_by_worker (ch_worker h) @ ch_queue h \<and>
     ch_activeCallbacks h = (if inside_callback (ch_callback h) then 1 else 0) \<and>
     (ch_worker h = WkExited \<longrightarrow> ch_stopping h \<and> ch_queue h = []) \<and>
     (ch_deinit h \<longrightarrow> ch_worker h = WkExited)"

lemmas handler_defs = callback_start_def callback_enqueue_def callback_rearm_def callback_enter_def
  callback_leave_def enqueue_request_def start_listen_def request_free_def worker_handle_def
  tmuxremote_coap_handler_stop_def deinit_drain_def inside_callback_def

lemma init_wf_handler: "wf_handler tmuxremote_coap_handler_init"
  by (simp add: wf_handler_def tmuxremote_coap_handler_init_def inside_callback_def)

lemma hstep_wf: "hstep h h' \<Longrightarrow> wf_handler h \<Longrightarrow> wf_handler h'"
proof (induction rule: hstep.induct)
  case (take h h')
  then show ?case
    by (auto simp: worker_take_def wf_handler_def inside_callback_def split: list.splits if_splits)
qed (auto simp: wf_handler_def handler_defs Let_def)

lemma reachable_wf: "reachable h \<Longrightarrow> wf_handler h"
  by (induction rule: reachable.induct) (auto intro: init_wf_handler hstep_wf)

section \<open>Properties\<close>

text \<open>
  C10: no request is lost or released twice.  In every reachable state each request that the
  SDK delivered is in exactly one place, once: held by the callback, in the queue, with the
  worker, or released.
\<close>

theorem requests_are_released_once:
  assumes "reachable h"
  shows "distinct (held_by_callback (ch_callback h) @ ch_queue h @ held_by_worker (ch_worker h) @ ch_freed h) \<and>
    set (held_by_callback (ch_callback h) @ ch_queue h @ held_by_worker (ch_worker h) @ ch_freed h) =
      {0..<ch_next h}"
proof -
  have m: "mset (held_by_callback (ch_callback h) @ ch_queue h @ held_by_worker (ch_worker h) @ ch_freed h) =
      mset [0..<ch_next h]"
    using reachable_wf [OF assms] by (simp add: wf_handler_def)
  from mset_eq_imp_distinct_iff [OF m] mset_eq_setD [OF m] show ?thesis by simp
qed

theorem requests_are_released_once_witness:
  "\<exists>h. reachable h \<and> ch_next h = 1 \<and> ch_handled h = [0] \<and>
     distinct (held_by_callback (ch_callback h) @ ch_queue h @ held_by_worker (ch_worker h) @ ch_freed h) \<and>
     set (held_by_callback (ch_callback h) @ ch_queue h @ held_by_worker (ch_worker h) @ ch_freed h) =
       {0..<ch_next h}"
proof -
  let ?h0 = "tmuxremote_coap_handler_init"
  let ?h1 = "?h0\<lparr>ch_armed := False, ch_next := ch_next ?h0 + 1, ch_callback := CbStart (ch_next ?h0)\<rparr>"
  let ?h2 = "callback_start ?h1 0" let ?h3 = "callback_enqueue mem_ok ?h2 0"
  let ?h4 = "?h3\<lparr>ch_queue := [], ch_worker := WkHandling 0\<rparr>" let ?h5 = "worker_handle ?h4 0"
  note defs = tmuxremote_coap_handler_init_def handler_defs
  have "reachable ?h1" by (rule reachable.step [OF reachable.init hstep.deliver]) (simp_all add: defs)
  then have "reachable ?h2" by (rule reachable.step) (rule hstep.cb_start, simp add: defs)
  then have "reachable ?h3" by (rule reachable.step) (rule hstep.cb_enqueue, simp add: defs)
  then have "reachable ?h4"
    by (rule reachable.step) (rule hstep.take, simp_all add: defs worker_take_def)
  then have r: "reachable ?h5" by (rule reachable.step) (rule hstep.handle, simp)
  have "ch_next ?h5 = 1" "ch_handled ?h5 = [0]" by (simp_all add: defs)
  with r requests_are_released_once [OF r] show ?thesis by blast
qed

text \<open>
  Accepted requests are handled in the order of their arrival, and a handler that has
  been shut down has handled all of them: the queue is empty when the worker is gone, so the
  final release of queued requests finds nothing.
\<close>

theorem accepted_requests_are_handled_in_order:
  assumes "reachable h"
  shows "ch_accepted h = ch_handled h @ held_by_worker (ch_worker h) @ ch_queue h \<and>
    (ch_worker h = WkExited \<longrightarrow> ch_handled h = ch_accepted h)"
  using reachable_wf [OF assms] by (auto simp: wf_handler_def)

theorem accepted_requests_are_handled_in_order_witness:
  "let h = (tmuxremote_coap_handler_stop tmuxremote_coap_handler_init)\<lparr>ch_worker := WkExited\<rparr>
   in ch_accepted h = ch_handled h @ held_by_worker (ch_worker h) @ ch_queue h \<and>
      (ch_worker h = WkExited \<longrightarrow> ch_handled h = ch_accepted h)"
  unfolding Let_def
proof (rule accepted_requests_are_handled_in_order)
  have "reachable (tmuxremote_coap_handler_stop tmuxremote_coap_handler_init)"
    by (rule reachable.step [OF reachable.init hstep.stop])
  then show "reachable ((tmuxremote_coap_handler_stop tmuxremote_coap_handler_init)\<lparr>ch_worker := WkExited\<rparr>)"
    by (rule reachable.step) (rule hstep.take,
      simp_all add: worker_take_def tmuxremote_coap_handler_stop_def tmuxremote_coap_handler_init_def)
qed

end
