(* ===== verification/Tmux.thy ===== *)
theory Tmux
  imports Session_Map
begin

text \<open>
  tmux control (\<open>agent/src/tmuxremote_tmux.c\<close>): validation of session names, the list of
  sessions, and the commands the agent runs.

  Running tmux is a parameter: the arguments of \<open>execlp\<close> give a \<open>tmux_run\<close>, which says
  whether the pipe and the child could be created, what \<open>read\<close> delivers before end of file or
  the deadline, and the status \<open>waitpid_timeout\<close> obtains (\<^const>\<open>None\<close> when it returns
  false).  Process signalling and the clock are part of that parameter.  An operation returns
  its result and the commands it ran.
\<close>

definition TMUXREMOTE_TMUX_MAX_SESSIONS :: nat where
  "TMUXREMOTE_TMUX_MAX_SESSIONS = 32"

record tmux_session =
  tx_name :: string
  tx_cols :: "16 word"
  tx_rows :: "16 word"
  tx_attached :: int

datatype wait_status = Exited nat | Signaled

record tmux_run =
  tr_started :: bool
  tr_output :: string
  tr_status :: "wait_status option"

type_synonym tmux = "string list \<Rightarrow> tmux_run"

definition session_name_char :: "char \<Rightarrow> bool" where
  "session_name_char c \<longleftrightarrow> isalnum c \<or> c = CHR ''.'' \<or> c = CHR ''_'' \<or> c = CHR ''-''"

definition tmuxremote_tmux_validate_session_name :: "string option \<Rightarrow> bool" where
  "tmuxremote_tmux_validate_session_name name =
     (case name of
        None \<Rightarrow> False
      | Some n \<Rightarrow> if n = [] then False
                  else if length n > 60 then False
                  else list_all session_name_char n)"

text \<open>One line \<open>name:width:height:attached\<close>; \<^const>\<open>None\<close> is \<open>continue\<close>.\<close>

definition parse_session_line :: "string \<Rightarrow> tmux_session option" where
  "parse_session_line line =
     (if line = [] then None
      else case split_char (CHR '':'') line of
        (_, None) \<Rightarrow> None
      | (name, Some widthStr) \<Rightarrow>
          (case split_char (CHR '':'') widthStr of
             (_, None) \<Rightarrow> None
           | (width, Some heightStr) \<Rightarrow>
               (case split_char (CHR '':'') heightStr of
                  (_, None) \<Rightarrow> None
                | (height, Some attachedStr) \<Rightarrow>
                    Some \<lparr>tx_name = strncpy_term 64 name, tx_cols = word_of_int (atoi width),
                          tx_rows = word_of_int (atoi height), tx_attached = atoi attachedStr\<rparr>)))"

function parse_session_lines :: "string \<Rightarrow> tmux_session list \<Rightarrow> tmux_session list" where
  "parse_session_lines line sessions =
     (if line = [] \<or> length sessions \<ge> TMUXREMOTE_TMUX_MAX_SESSIONS then sessions
      else case split_char (CHR 0x0A) line of
        (cur, None) \<Rightarrow>
          sessions @ (case parse_session_line cur of None \<Rightarrow> [] | Some s \<Rightarrow> [s])
      | (cur, Some r) \<Rightarrow>
          parse_session_lines r (sessions @ (case parse_session_line cur of None \<Rightarrow> [] | Some s \<Rightarrow> [s])))"
  by pat_completeness auto
termination
  by (relation "measure (\<lambda>(line, _). length line)") (auto dest: split_char_length [OF sym])

declare parse_session_lines.simps [simp del]

definition list_args :: "string list" where
  "list_args = [''list-sessions'', ''-F'',
     ''#{session_name}:#{session_width}:#{session_height}:#{session_attached}'']"

text \<open>The buffer of 4096 bytes keeps at most 4095 bytes of output.\<close>

definition tmuxremote_tmux_list_sessions :: "tmux \<Rightarrow> tmux_session list option" where
  "tmuxremote_tmux_list_sessions tmux =
     (let run = tmux list_args
      in if \<not> tr_started run then None
         else case tr_status run of
                None \<Rightarrow> Some []
              | Some status \<Rightarrow>
                  if status \<noteq> Exited 0 then Some []
                  else Some (parse_session_lines (c_string (take 4095 (tr_output run))) []))"

definition exit_ok :: "tmux_run \<Rightarrow> bool" where
  "exit_ok run \<longleftrightarrow> tr_started run \<and> tr_status run = Some (Exited 0)"

definition tmuxremote_tmux_session_exists :: "tmux \<Rightarrow> string option \<Rightarrow> bool \<times> string list list" where
  "tmuxremote_tmux_session_exists tmux name =
     (if \<not> tmuxremote_tmux_validate_session_name name then (False, [])
      else
        let args = [''has-session'', ''-t'', the name]
        in (exit_ok (tmux args), [args]))"

definition tmuxremote_tmux_create_session ::
  "tmux \<Rightarrow> string option \<Rightarrow> 16 word \<Rightarrow> 16 word \<Rightarrow> string option \<Rightarrow> bool \<times> string list list" where
  "tmuxremote_tmux_create_session tmux name cols rows command =
     (if \<not> tmuxremote_tmux_validate_session_name name then (False, [])
      else
        let args = [''new-session'', ''-d'', ''-s'', the name,
                    ''-x'', decimal (unat cols), ''-y'', decimal (unat rows)] @
                   (case command of None \<Rightarrow> [] | Some c \<Rightarrow> [c])
        in (exit_ok (tmux args), [args]))"

section \<open>Printing and reading a session list\<close>

text \<open>What tmux prints for the format string of \<open>list_args\<close>.\<close>

definition print_session :: "tmux_session \<Rightarrow> string" where
  "print_session s = tx_name s @ '':'' @ decimal (unat (tx_cols s)) @ '':'' @
     decimal (unat (tx_rows s)) @ '':'' @ decimal (nat (tx_attached s))"

definition print_sessions :: "tmux_session list \<Rightarrow> string" where
  "print_sessions xs = concat (map (\<lambda>s. print_session s @ [CHR 0x0A]) xs)"

definition printable_session :: "tmux_session \<Rightarrow> bool" where
  "printable_session s \<longleftrightarrow> tmuxremote_tmux_validate_session_name (Some (tx_name s)) \<and>
     0 \<le> tx_attached s \<and> tx_attached s < 2 ^ 31"

lemma valid_name:
  assumes "tmuxremote_tmux_validate_session_name (Some n)"
  shows "n \<noteq> []" "length n \<le> 60" "\<forall>c \<in> set n. session_name_char c"
  using assms
  by (auto simp: tmuxremote_tmux_validate_session_name_def list_all_iff split: if_splits)

lemma session_name_char_not: "session_name_char c \<Longrightarrow> c \<noteq> CHR '':'' \<and> c \<noteq> CHR 0x0A \<and> c \<noteq> NUL"
  by (auto simp: session_name_char_def isalnum_def isdigit_def)

lemma not_digits [simp]: "\<not> isdigit (CHR '':'')" "\<not> isdigit (CHR 0x0A)" "\<not> isdigit NUL"
  by (simp_all add: isdigit_def)

lemma session_line_roundtrip:
  assumes "printable_session s"
  shows "parse_session_line (print_session s) = Some s"
proof -
  have name: "tx_name s \<noteq> []" "CHR '':'' \<notin> set (tx_name s)" "length (tx_name s) < 64"
    using assms valid_name [of "tx_name s"] session_name_char_not
    by (auto simp: printable_session_def)
  have num: "word_of_int (atoi (decimal (unat w))) = w" for w :: "16 word"
  proof -
    have "unat w < 65536" using unsigned_less [of w, where ?'a = nat] by simp
    then have "atoi (decimal (unat w)) = int (unat w)" by (intro atoi_decimal) simp
    then show ?thesis by simp
  qed
  have att: "atoi (decimal (nat (tx_attached s))) = tx_attached s"
    using assms atoi_decimal [of "nat (tx_attached s)"] by (auto simp: printable_session_def nat_less_iff)
  have "print_session s \<noteq> []" by (simp add: print_session_def)
  then show ?thesis
    using name
    by (simp add: parse_session_line_def print_session_def split_char_found decimal_no_char
        strncpy_term_id num att)
qed

lemma print_session_chars:
  assumes "printable_session s"
  shows "CHR 0x0A \<notin> set (print_session s)" "NUL \<notin> set (print_session s)" "print_session s \<noteq> []"
proof -
  have "\<forall>c \<in> set (tx_name s). c \<noteq> CHR 0x0A \<and> c \<noteq> NUL"
    using assms valid_name [of "tx_name s"] session_name_char_not by (auto simp: printable_session_def)
  then show "CHR 0x0A \<notin> set (print_session s)" "NUL \<notin> set (print_session s)" "print_session s \<noteq> []"
    by (auto simp: print_session_def decimal_no_char)
qed

lemma session_lines_roundtrip:
  "\<forall>s \<in> set xs. printable_session s \<Longrightarrow> length acc + length xs \<le> 32 \<Longrightarrow>
     parse_session_lines (print_sessions xs) acc = acc @ xs"
proof (induction xs arbitrary: acc)
  case Nil
  then show ?case by (simp add: print_sessions_def parse_session_lines.simps)
next
  case (Cons s xs)
  note chars = print_session_chars [of s] and line = session_line_roundtrip [of s]
  have split: "split_char (CHR 0x0A) (print_sessions (s # xs)) = (print_session s, Some (print_sessions xs))"
    using chars Cons.prems by (simp add: print_sessions_def split_char_found)
  have "parse_session_lines (print_sessions (s # xs)) acc = parse_session_lines (print_sessions xs) (acc @ [s])"
    using split line Cons.prems
    by (subst parse_session_lines.simps)
       (auto simp: TMUXREMOTE_TMUX_MAX_SESSIONS_def print_sessions_def)
  with Cons show ?case by simp
qed

lemma parse_session_lines_bounded:
  "length acc \<le> 32 \<Longrightarrow> \<forall>s \<in> set acc. length (tx_name s) < 64 \<Longrightarrow>
     length (parse_session_lines line acc) \<le> 32 \<and>
     (\<forall>s \<in> set (parse_session_lines line acc). length (tx_name s) < 64)"
proof (induction line acc rule: parse_session_lines.induct)
  case (1 line acc)
  have one: "length (tx_name s) < 64" if "parse_session_line cur = Some s" for cur s
    using that by (auto simp: parse_session_line_def strncpy_term_def split: if_splits prod.splits option.splits)
  show ?case
  proof (cases "line = [] \<or> length acc \<ge> TMUXREMOTE_TMUX_MAX_SESSIONS")
    case True
    with 1 show ?thesis by (subst (1 2) parse_session_lines.simps) auto
  next
    case False
    obtain cur nxt where sp: "split_char (CHR 0x0A) line = (cur, nxt)" by force
    let ?acc = "acc @ (case parse_session_line cur of None \<Rightarrow> [] | Some s \<Rightarrow> [s])"
    have acc: "length ?acc \<le> 32" "\<forall>s \<in> set ?acc. length (tx_name s) < 64"
      using 1(2,3) False one [of cur] by (auto simp: TMUXREMOTE_TMUX_MAX_SESSIONS_def split: option.splits)
    show ?thesis
    proof (cases nxt)
      case None
      then have "parse_session_lines line acc = ?acc"
        using sp False by (subst parse_session_lines.simps) simp
      with acc show ?thesis by simp
    next
      case (Some r)
      then have eq: "parse_session_lines line acc = parse_session_lines r ?acc"
        using sp False by (subst parse_session_lines.simps) simp
      from 1(1) [OF False sp [symmetric] Some acc] show ?thesis unfolding eq .
    qed
  qed
qed

section \<open>Properties\<close>

text \<open>
  Reading back what tmux prints.  For at most 32 sessions with names the agent accepts,
  whose printed list fits the 4095-byte buffer, the agent obtains exactly the sessions, in
  order, with their sizes and attach counts.
\<close>

theorem tmux_list_roundtrip:
  assumes "\<forall>s \<in> set xs. printable_session s" and "length xs \<le> 32"
    and "length (print_sessions xs) \<le> 4095"
  shows "tmuxremote_tmux_list_sessions
     (\<lambda>_. \<lparr>tr_started = True, tr_output = print_sessions xs, tr_status = Some (Exited 0)\<rparr>) = Some xs"
proof -
  have "NUL \<notin> set (print_sessions xs)"
    using assms(1) print_session_chars(2) by (auto simp: print_sessions_def)
  then show ?thesis
    using assms session_lines_roundtrip [of xs "[]"]
    by (simp add: tmuxremote_tmux_list_sessions_def c_string_id)
qed

theorem tmux_list_roundtrip_witness:
  "tmuxremote_tmux_list_sessions
     (\<lambda>_. \<lparr>tr_started = True,
       tr_output = print_sessions [\<lparr>tx_name = ''main'', tx_cols = 80, tx_rows = 24, tx_attached = 1\<rparr>],
       tr_status = Some (Exited 0)\<rparr>) =
   Some [\<lparr>tx_name = ''main'', tx_cols = 80, tx_rows = 24, tx_attached = 1\<rparr>]"
  by (rule tmux_list_roundtrip)
     (simp_all add: printable_session_def tmuxremote_tmux_validate_session_name_def session_name_char_def
       isalnum_def isdigit_def print_sessions_def print_session_def decimal.simps)

text \<open>
  Tmux is only ever given a checked session name.  Every command the agent runs to look
  up or create a session carries, as one argument of its own, a name of 1 to 60 letters,
  digits, dots, underscores and hyphens; for any other name no command is run.  Such a name is
  kept whole by the session map.
\<close>

theorem tmux_runs_only_valid_names:
  assumes "args \<in> set (snd (tmuxremote_tmux_session_exists tmux name)) \<or>
    args \<in> set (snd (tmuxremote_tmux_create_session tmux name cols rows command))"
  shows "\<exists>n. name = Some n \<and> n \<in> set args \<and> 1 \<le> length n \<and> length n \<le> 60 \<and>
    (\<forall>c \<in> set n. session_name_char c) \<and> strncpy_term TMUXREMOTE_SESSION_NAME_MAX n = n"
proof -
  from assms have v: "tmuxremote_tmux_validate_session_name name" and a: "the name \<in> set args"
    by (auto simp: tmuxremote_tmux_session_exists_def tmuxremote_tmux_create_session_def Let_def
        split: if_splits)
  then obtain n where n: "name = Some n" by (cases name) (auto simp: tmuxremote_tmux_validate_session_name_def)
  from valid_name [of n] v a n show ?thesis
    by (auto simp: TMUXREMOTE_SESSION_NAME_MAX_def strncpy_term_id Suc_le_eq)
qed

theorem tmux_runs_only_valid_names_witness:
  "\<exists>n. Some ''a-b'' = Some n \<and> n \<in> set [''has-session'', ''-t'', ''a-b''] \<and> 1 \<le> length n \<and> length n \<le> 60 \<and>
    (\<forall>c \<in> set n. session_name_char c) \<and> strncpy_term TMUXREMOTE_SESSION_NAME_MAX n = n"
  by (rule tmux_runs_only_valid_names [where tmux = "\<lambda>_. \<lparr>tr_started = False, tr_output = [], tr_status = None\<rparr>"
        and cols = 1 and rows = 1 and command = None])
     (simp add: tmuxremote_tmux_session_exists_def tmuxremote_tmux_validate_session_name_def
       session_name_char_def isalnum_def isdigit_def)

end
