(* ===== verification/Coap_Endpoints.thy ===== *)
theory Coap_Endpoints
  imports Tmux Prompt_Protocol
begin

text \<open>
  The CoAP endpoints (\<open>agent/src/tmuxremote_coap_{attach,create,resize,sessions,status}.c\<close> and
  \<open>tmuxremote_init_cbor_parser\<close> of \<open>tmuxremote_coap_handler.c\<close>).

  Parameters: the access decision of the IAM module, what the SDK returns for a request, the
  TinyCBOR parser, tmux, the lookup of the PTY of a connection, the clock and the CBOR encoder.
  A CBOR iterator is a value of type \<open>cursor\<close>: at the end of its container, or on an item with
  the result of advancing past it (\<^const>\<open>None\<close> is an error of \<open>cbor_value_advance\<close>).  The
  getters for integers and booleans never fail in TinyCBOR, so their error branches have no
  counterpart.  A handler returns its single response and its effects in order; those that the
  session map sees are in the returned map.
\<close>

section \<open>Requests and responses\<close>

datatype cval = CvText string | CvBadText | CvUint "64 word" | CvBool bool | CvOther

datatype cursor = AtEnd | Item cval "cursor option"

datatype cbor_root = NotMap | EnterFailed cursor | Entered cursor

record coap_request =
  rq_ref :: connection_ref
  rq_allowed :: "string \<Rightarrow> bool"
  rq_content_format_cbor :: bool
  rq_payload :: "byte list option"

datatype response = ErrorResponse nat string | Response nat | ResponsePayload nat "byte list"

datatype effect =
    RanTmux "string list"
  | Notify
  | SetWinsize int "16 word" "16 word"
  | ResizeDetector connection_ref int int

definition tmuxremote_init_cbor_parser ::
  "(byte list \<Rightarrow> cbor_root) \<Rightarrow> coap_request \<Rightarrow> response + cbor_root" where
  "tmuxremote_init_cbor_parser parse request =
     (if \<not> rq_content_format_cbor request then Inl (ErrorResponse 400 ''Invalid Content Format'')
      else case rq_payload request of
             None \<Rightarrow> Inl (ErrorResponse 400 ''Missing payload'')
           | Some payload \<Rightarrow> Inr (parse payload))"

section \<open>Reading a CBOR map\<close>

definition cbor_value_advance :: "cursor \<Rightarrow> cursor option" where
  "cbor_value_advance c = (case c of AtEnd \<Rightarrow> None | Item _ r \<Rightarrow> r)"

text \<open>\<open>cbor_value_copy_text_string\<close> into a buffer with room for \<open>n\<close> bytes, used as a C string.\<close>

definition copy_text :: "nat \<Rightarrow> cval \<Rightarrow> string option" where
  "copy_text n v = (case v of CvText s \<Rightarrow> if length s > n then None else Some (c_string s) | _ \<Rightarrow> None)"

definition is_text :: "cval \<Rightarrow> bool" where
  "is_text v = (case v of CvText _ \<Rightarrow> True | CvBadText \<Rightarrow> True | _ \<Rightarrow> False)"

definition current :: "cursor \<Rightarrow> cval" where
  "current c = (case c of AtEnd \<Rightarrow> CvOther | Item v _ \<Rightarrow> v)"

lemma advance_size: "cbor_value_advance c = Some d \<Longrightarrow> size d < size c"
  by (cases c) (auto simp: cbor_value_advance_def)

text \<open>
  The loop of the handlers over the members of the request's map.  They differ only in what
  they do with a member, which is the argument \<open>field\<close>: the new values, or an error message.
\<close>

function parse_members ::
  "(string \<Rightarrow> cval \<Rightarrow> 's \<Rightarrow> string + 's) \<Rightarrow> cursor \<Rightarrow> 's \<Rightarrow> string + 's" where
  "parse_members field m st =
     (if m = AtEnd then Inr st
      else if \<not> is_text (current m)
      then (case cbor_value_advance m of
              None \<Rightarrow> Inl ''Invalid CBOR payload''
            | Some v \<Rightarrow>
                if v = AtEnd then Inl ''Invalid CBOR payload''
                else (case cbor_value_advance v of
                        None \<Rightarrow> Inl ''Invalid CBOR payload''
                      | Some r \<Rightarrow> parse_members field r st))
      else case copy_text 31 (current m) of
             None \<Rightarrow> Inl ''Invalid or oversized key''
           | Some key \<Rightarrow>
               (case cbor_value_advance m of
                  None \<Rightarrow> Inl ''Invalid CBOR payload''
                | Some v \<Rightarrow>
                    (case field key (current v) st of
                       Inl err \<Rightarrow> Inl err
                     | Inr st' \<Rightarrow>
                         (case cbor_value_advance v of
                            None \<Rightarrow> Inl ''Invalid CBOR payload''
                          | Some r \<Rightarrow> parse_members field r st'))))"
  by pat_completeness auto
termination
  by (relation "measure (\<lambda>(_, m, _). size m)") (auto dest!: advance_size)

declare parse_members.simps [simp del]

definition TMUXREMOTE_MAX_TERM_COLS :: "64 word" where "TMUXREMOTE_MAX_TERM_COLS = 1000"
definition TMUXREMOTE_MAX_TERM_ROWS :: "64 word" where "TMUXREMOTE_MAX_TERM_ROWS = 1000"

definition valid_terminal_size :: "64 word \<Rightarrow> 64 word \<Rightarrow> bool" where
  "valid_terminal_size cols rows \<longleftrightarrow>
     cols \<ge> 1 \<and> cols \<le> TMUXREMOTE_MAX_TERM_COLS \<and> rows \<ge> 1 \<and> rows \<le> TMUXREMOTE_MAX_TERM_ROWS"

section \<open>Attach\<close>

record attach_request =
  at_session :: string
  at_cols :: "64 word"
  at_rows :: "64 word"
  at_create :: bool

definition attach_field :: "string \<Rightarrow> cval \<Rightarrow> attach_request \<Rightarrow> string + attach_request" where
  "attach_field key v a =
     (if key = ''session'' \<and> is_text v
      then (case copy_text 63 v of
              None \<Rightarrow> Inl ''Invalid or oversized session''
            | Some s \<Rightarrow> Inr (a\<lparr>at_session := s\<rparr>))
      else case v of
             CvUint n \<Rightarrow> if key = ''cols'' then Inr (a\<lparr>at_cols := n\<rparr>)
                         else if key = ''rows'' then Inr (a\<lparr>at_rows := n\<rparr>) else Inr a
           | CvBool b \<Rightarrow> if key = ''create'' then Inr (a\<lparr>at_create := b\<rparr>) else Inr a
           | _ \<Rightarrow> Inr a)"

text \<open>The result of \<open>cbor_value_enter_container\<close> is not checked here and in create.\<close>

definition entered :: "cbor_root \<Rightarrow> cursor option" where
  "entered root = (case root of NotMap \<Rightarrow> None | EnterFailed c \<Rightarrow> Some c | Entered c \<Rightarrow> Some c)"

text \<open>The part of the handler after the request has been read.\<close>

definition attach_session ::
  "tmux \<Rightarrow> session_map \<Rightarrow> connection_ref \<Rightarrow> attach_request \<Rightarrow> response \<times> session_map \<times> effect list" where
  "attach_session tmux sessions ref a =
     (if at_session a = [] then (ErrorResponse 400 ''Missing session name'', sessions, [])
      else if \<not> valid_terminal_size (at_cols a) (at_rows a)
      then (ErrorResponse 400 ''Invalid terminal size'', sessions, [])
      else if \<not> tmuxremote_tmux_validate_session_name (Some (at_session a))
      then (ErrorResponse 400 ''Invalid session name'', sessions, [])
      else
        let (exists, ran) = tmuxremote_tmux_session_exists tmux (Some (at_session a));
            (created, ran') =
              (if \<not> exists \<and> at_create a
               then tmuxremote_tmux_create_session tmux (Some (at_session a))
                      (ucast (at_cols a)) (ucast (at_rows a)) None
               else (False, []));
            effects = map RanTmux (ran @ ran')
        in if \<not> exists \<and> at_create a \<and> \<not> created
           then (ErrorResponse 500 ''Failed to create session'', sessions, effects)
           else if \<not> exists \<and> \<not> at_create a
           then (ErrorResponse 404 ''Session not found'', sessions, effects)
           else
             let (ok, sessions') = tmuxremote_session_set sessions ref
                   (at_session a) (ucast (at_cols a)) (ucast (at_rows a))
             in if \<not> ok then (ErrorResponse 500 ''Session map full'', sessions', effects)
                else (Response 201, sessions', effects @ [Notify]))"

definition attach_handle_request ::
  "tmux \<Rightarrow> (byte list \<Rightarrow> cbor_root) \<Rightarrow> session_map \<Rightarrow> coap_request
     \<Rightarrow> response \<times> session_map \<times> effect list" where
  "attach_handle_request tmux parse sessions request =
     (if \<not> rq_allowed request ''Terminal:Connect''
      then (ErrorResponse 403 ''Access denied'', sessions, [])
      else case tmuxremote_init_cbor_parser parse request of
        Inl err \<Rightarrow> (err, sessions, [])
      | Inr root \<Rightarrow>
        (case entered root of
           None \<Rightarrow> (ErrorResponse 400 ''Expected map'', sessions, [])
         | Some m \<Rightarrow>
           (case parse_members attach_field m
                   \<lparr>at_session = [], at_cols = 80, at_rows = 24, at_create = False\<rparr> of
              Inl err \<Rightarrow> (ErrorResponse 400 err, sessions, [])
            | Inr a \<Rightarrow> attach_session tmux sessions (rq_ref request) a)))"

section \<open>Create\<close>

record create_request =
  cq_session :: string
  cq_command :: string
  cq_cols :: "64 word"
  cq_rows :: "64 word"

definition create_field :: "string \<Rightarrow> cval \<Rightarrow> create_request \<Rightarrow> string + create_request" where
  "create_field key v a =
     (if key = ''session'' \<and> is_text v
      then (case copy_text 63 v of
              None \<Rightarrow> Inl ''Invalid or oversized session''
            | Some s \<Rightarrow> Inr (a\<lparr>cq_session := s\<rparr>))
      else if key = ''command'' \<and> is_text v
      then (case copy_text 255 v of
              None \<Rightarrow> Inl ''Invalid or oversized command''
            | Some s \<Rightarrow> Inr (a\<lparr>cq_command := s\<rparr>))
      else case v of
             CvUint n \<Rightarrow> if key = ''cols'' then Inr (a\<lparr>cq_cols := n\<rparr>)
                         else if key = ''rows'' then Inr (a\<lparr>cq_rows := n\<rparr>) else Inr a
           | _ \<Rightarrow> Inr a)"

definition create_handle_request ::
  "tmux \<Rightarrow> (byte list \<Rightarrow> cbor_root) \<Rightarrow> coap_request \<Rightarrow> response \<times> effect list" where
  "create_handle_request tmux parse request =
     (if \<not> rq_allowed request ''Terminal:CreateSession'' then (ErrorResponse 403 ''Access denied'', [])
      else case tmuxremote_init_cbor_parser parse request of
        Inl err \<Rightarrow> (err, [])
      | Inr root \<Rightarrow>
        (case entered root of
           None \<Rightarrow> (ErrorResponse 400 ''Expected map'', [])
         | Some m \<Rightarrow>
           (case parse_members create_field m
                   \<lparr>cq_session = [], cq_command = [], cq_cols = 80, cq_rows = 24\<rparr> of
              Inl err \<Rightarrow> (ErrorResponse 400 err, [])
            | Inr a \<Rightarrow>
              if cq_session a = [] then (ErrorResponse 400 ''Missing session name'', [])
              else if \<not> valid_terminal_size (cq_cols a) (cq_rows a)
              then (ErrorResponse 400 ''Invalid terminal size'', [])
              else if \<not> tmuxremote_tmux_validate_session_name (Some (cq_session a))
              then (ErrorResponse 400 ''Invalid session name'', [])
              else
                let cmd = (if cq_command a \<noteq> [] then Some (cq_command a) else None);
                    (created, ran) = tmuxremote_tmux_create_session tmux (Some (cq_session a))
                                       (ucast (cq_cols a)) (ucast (cq_rows a)) cmd
                in if \<not> created
                   then (ErrorResponse 500 ''Failed to create session'', map RanTmux ran)
                   else (Response 201, map RanTmux ran @ [Notify]))))"

section \<open>Resize\<close>

text \<open>Columns and rows, each with its \<open>has\<close> flag.\<close>

definition resize_field ::
  "string \<Rightarrow> cval \<Rightarrow> 64 word option \<times> 64 word option \<Rightarrow> string + (64 word option \<times> 64 word option)" where
  "resize_field key v s =
     (case v of
        CvUint n \<Rightarrow> if key = ''cols'' then Inr (Some n, snd s)
                    else if key = ''rows'' then Inr (fst s, Some n) else Inr s
      | _ \<Rightarrow> Inr s)"

definition resize_handle_request ::
  "(connection_ref \<Rightarrow> int) \<Rightarrow> (byte list \<Rightarrow> cbor_root) \<Rightarrow> session_map \<Rightarrow> coap_request
     \<Rightarrow> response \<times> session_map \<times> effect list" where
  "resize_handle_request get_pty_fd parse sessions request =
     (if \<not> rq_allowed request ''Terminal:Resize''
      then (ErrorResponse 403 ''Access denied'', sessions, [])
      else case tmuxremote_init_cbor_parser parse request of
        Inl err \<Rightarrow> (err, sessions, [])
      | Inr NotMap \<Rightarrow> (ErrorResponse 400 ''Expected map'', sessions, [])
      | Inr (EnterFailed _) \<Rightarrow> (ErrorResponse 400 ''Invalid CBOR payload'', sessions, [])
      | Inr (Entered m) \<Rightarrow>
        (case parse_members resize_field m (None, None) of
           Inl err \<Rightarrow> (ErrorResponse 400 err, sessions, [])
         | Inr (Some cols, Some rows) \<Rightarrow>
             if \<not> valid_terminal_size cols rows
             then (ErrorResponse 400 ''Invalid terminal size'', sessions, [])
             else
               let ref = rq_ref request;
                   ptyFd = get_pty_fd ref;
                   (sessions', effects) =
                     (if ptyFd \<ge> 0
                      then (snd (tmuxremote_session_update_size sessions ref (ucast cols) (ucast rows)),
                            [SetWinsize ptyFd (ucast cols) (ucast rows)])
                      else (sessions, []))
               in (Response 204, sessions', effects @ [ResizeDetector ref (uint cols) (uint rows)])
         | Inr _ \<Rightarrow> (ErrorResponse 400 ''Missing cols or rows'', sessions, [])))"

section \<open>Sessions and status\<close>

text \<open>
  The encoder is a parameter, as in the prompt protocol: a message is sent when its bytes fit
  the fixed buffer.  A negative attach count is encoded as the 64-bit value it converts to.
\<close>

definition session_cbor :: "tmux_session \<Rightarrow> cbor" where
  "session_cbor s = CMap [(''name'', CText (tx_name s)), (''cols'', CUint (ucast (tx_cols s))),
     (''rows'', CUint (ucast (tx_rows s))), (''attached'', CUint (word_of_int (tx_attached s)))]"

definition sessions_handle_request ::
  "tmux \<Rightarrow> (cbor \<Rightarrow> byte list) \<Rightarrow> coap_request \<Rightarrow> response \<times> effect list" where
  "sessions_handle_request tmux enc request =
     (if \<not> rq_allowed request ''Terminal:ListSessions'' then (ErrorResponse 403 ''Access denied'', [])
      else
        let list = (case tmuxremote_tmux_list_sessions tmux of None \<Rightarrow> [] | Some l \<Rightarrow> l);
            bytes = enc (CArray (map session_cbor list))
        in if length bytes > 8192
           then (ErrorResponse 500 ''Failed to encode sessions'', [RanTmux list_args])
           else (ResponsePayload 205 bytes, [RanTmux list_args]))"

definition TMUXREMOTE_VERSION :: string where
  "TMUXREMOTE_VERSION = ''0.1.0''"

definition status_handle_request ::
  "tmux \<Rightarrow> (cbor \<Rightarrow> byte list) \<Rightarrow> int \<Rightarrow> int \<Rightarrow> coap_request \<Rightarrow> response \<times> effect list" where
  "status_handle_request tmux enc now startTime request =
     (if \<not> rq_allowed request ''Terminal:Status'' then (ErrorResponse 403 ''Access denied'', [])
      else
        let list = (case tmuxremote_tmux_list_sessions tmux of None \<Rightarrow> [] | Some l \<Rightarrow> l);
            uptime = word_of_int (now - startTime);
            bytes = enc (CMap [(''version'', CText TMUXREMOTE_VERSION),
                               (''active_sessions'', CUint (word_of_nat (length list))),
                               (''uptime_seconds'', CUint uptime)])
        in if length bytes > 256
           then (ErrorResponse 500 ''Failed to encode status'', [RanTmux list_args])
           else (ResponsePayload 205 bytes, [RanTmux list_args]))"

section \<open>Lemmas\<close>

lemma valid_size_ucast:
  assumes "valid_terminal_size c r"
  shows "1 \<le> uint c \<and> uint c \<le> 1000 \<and> 1 \<le> uint r \<and> uint r \<le> 1000 \<and>
    uint (ucast c :: 16 word) = uint c \<and> uint (ucast r :: 16 word) = uint r"
proof -
  have *: "uint (ucast w :: 16 word) = uint w" if "uint w \<le> 1000" for w :: "64 word"
    using that by (simp add: unsigned_ucast_eq take_bit_int_eq_self)
  have "1 \<le> uint c" "uint c \<le> 1000" "1 \<le> uint r" "uint r \<le> 1000"
    using assms
    by (simp_all add: valid_terminal_size_def TMUXREMOTE_MAX_TERM_COLS_def TMUXREMOTE_MAX_TERM_ROWS_def
        word_le_def)
  with * show ?thesis by blast
qed

lemma session_set_False: "tmuxremote_session_set m r n c w = (False, m') \<Longrightarrow> m' = m"
  by (auto simp: tmuxremote_session_set_def split: option.splits)

definition attach_outcome ::
  "session_map \<Rightarrow> connection_ref \<Rightarrow> response \<times> session_map \<times> effect list \<Rightarrow> bool" where
  "attach_outcome m ref out \<longleftrightarrow> (case out of (resp, m', effects) \<Rightarrow> wf_map m' \<and>
     (if resp = Response 201
      then last effects = Notify \<and>
        (\<exists>n c r. tmuxremote_tmux_validate_session_name (Some n) \<and>
           1 \<le> uint c \<and> uint c \<le> 1000 \<and> 1 \<le> uint r \<and> uint r \<le> 1000 \<and>
           abs_map m' = (abs_map m)(ref \<mapsto> (n, c, r)))
      else m' = m \<and> Notify \<notin> set effects))"

lemma attach_session_outcome:
  assumes wf: "wf_map m"
  shows "attach_outcome m ref (attach_session tmux m ref a)"
proof (cases "at_session a \<noteq> [] \<and> valid_terminal_size (at_cols a) (at_rows a) \<and>
    tmuxremote_tmux_validate_session_name (Some (at_session a))")
  case False
  with wf show ?thesis by (auto simp: attach_session_def attach_outcome_def)
next
  case True
  then have v: "at_session a \<noteq> []" "valid_terminal_size (at_cols a) (at_rows a)"
    "tmuxremote_tmux_validate_session_name (Some (at_session a))" by simp_all
  obtain ex ran where e: "tmuxremote_tmux_session_exists tmux (Some (at_session a)) = (ex, ran)" by force
  obtain cr ran' where c: "(if \<not> ex \<and> at_create a
      then tmuxremote_tmux_create_session tmux (Some (at_session a)) (ucast (at_cols a)) (ucast (at_rows a)) None
      else (False, [])) = (cr, ran')" by force
  obtain ok m' where s: "tmuxremote_session_set m ref (at_session a) (ucast (at_cols a)) (ucast (at_rows a)) = (ok, m')"
    by force
  have name: "strncpy_term 64 (at_session a) = at_session a"
    using valid_name(2) [OF v(3)] by (simp add: strncpy_term_id)
  have set: "wf_map m'" "abs_map m' = (if ok then (abs_map m)(ref \<mapsto>
      (at_session a, ucast (at_cols a), ucast (at_rows a))) else abs_map m)"
    using sessions.put_law [OF wf, of ref "at_session a" "ucast (at_cols a)" "ucast (at_rows a)"] s name
    by simp_all
  have notify: "Notify \<notin> RanTmux ` X" for X by auto
  let ?fx = "map RanTmux (ran @ ran')"
  have eq: "attach_session tmux m ref a =
      (if \<not> ex \<and> at_create a \<and> \<not> cr then (ErrorResponse 500 ''Failed to create session'', m, ?fx)
       else if \<not> ex \<and> \<not> at_create a then (ErrorResponse 404 ''Session not found'', m, ?fx)
       else if \<not> ok then (ErrorResponse 500 ''Session map full'', m', ?fx)
       else (Response 201, m', ?fx @ [Notify]))"
    using v e c s by (simp add: attach_session_def)
  have size: "1 \<le> uint (at_cols a) \<and> uint (at_cols a) \<le> 1000 \<and> 1 \<le> uint (at_rows a) \<and> uint (at_rows a) \<le> 1000 \<and>
    uint (ucast (at_cols a) :: 16 word) = uint (at_cols a) \<and> uint (ucast (at_rows a) :: 16 word) = uint (at_rows a)"
    by (rule valid_size_ucast [OF v(2)])
  have good: "\<exists>n c r. tmuxremote_tmux_validate_session_name (Some n) \<and>
      1 \<le> uint c \<and> uint c \<le> 1000 \<and> 1 \<le> uint r \<and> uint r \<le> 1000 \<and>
      abs_map m' = (abs_map m)(ref \<mapsto> (n, c, r))" if ok
    using set(2) that v(3) size
    by (intro exI [of _ "at_session a"] exI [of _ "ucast (at_cols a)"] exI [of _ "ucast (at_rows a)"]) simp
  show ?thesis
    unfolding eq using wf set(1) good session_set_False [of m ref] s notify
    by (auto simp: attach_outcome_def)
qed

text \<open>The tmux commands the agent may run, and what the effects of a request need.\<close>

definition checked_command :: "string list \<Rightarrow> bool" where
  "checked_command args \<longleftrightarrow> args = list_args \<or>
     (\<exists>n. tmuxremote_tmux_validate_session_name (Some n) \<and>
        (args = [''has-session'', ''-t'', n] \<or>
         (\<exists>c r cmd. 1 \<le> c \<and> c \<le> 1000 \<and> 1 \<le> r \<and> r \<le> 1000 \<and> length cmd \<le> 1 \<and>
            args = [''new-session'', ''-d'', ''-s'', n, ''-x'', decimal c, ''-y'', decimal r] @ cmd)))"

definition authorised :: "coap_request \<Rightarrow> string \<Rightarrow> session_map \<Rightarrow> session_map \<times> effect list \<Rightarrow> bool" where
  "authorised q action m out \<longleftrightarrow>
     (snd out \<noteq> [] \<or> fst out \<noteq> m \<longrightarrow> rq_allowed q action) \<and>
     (\<forall>args. RanTmux args \<in> set (snd out) \<longrightarrow> checked_command args)"

lemma exists_checked:
  "args \<in> set (snd (tmuxremote_tmux_session_exists tmux n)) \<Longrightarrow> checked_command args"
  by (cases n) (auto simp: tmuxremote_tmux_session_exists_def checked_command_def Let_def
      tmuxremote_tmux_validate_session_name_def split: if_splits)

lemma create_checked:
  assumes v: "valid_terminal_size c r"
    and args: "args \<in> set (snd (tmuxremote_tmux_create_session tmux name (ucast c) (ucast r) cmd))"
  shows "checked_command args"
proof -
  have u: "unat w = nat (uint w)" for w :: "'a::len word" by simp
  have n: "unat (ucast c :: 16 word) = unat c" "unat (ucast r :: 16 word) = unat r"
    "1 \<le> unat c \<and> unat c \<le> 1000" "1 \<le> unat r \<and> unat r \<le> 1000"
    using valid_size_ucast [OF v] unfolding u by (simp_all only:) linarith+
  from args obtain n where "name = Some n" "tmuxremote_tmux_validate_session_name (Some n)"
    by (cases name) (auto simp: tmuxremote_tmux_create_session_def
        tmuxremote_tmux_validate_session_name_def split: if_splits)
  with args n(1,2) have "args = [''new-session'', ''-d'', ''-s'', n, ''-x'', decimal (unat c), ''-y'',
      decimal (unat r)] @ (case cmd of None \<Rightarrow> [] | Some c \<Rightarrow> [c])" (is "_ = _ @ ?cmd")
    by (auto simp: tmuxremote_tmux_create_session_def Let_def)
  moreover have "length ?cmd \<le> 1" by (simp split: option.splits)
  moreover note n(3,4) \<open>tmuxremote_tmux_validate_session_name (Some n)\<close>
  ultimately show ?thesis unfolding checked_command_def by blast
qed

lemma attach_session_checked:
  assumes "RanTmux args \<in> set (snd (snd (attach_session tmux m ref a)))"
  shows "checked_command args"
  using assms exists_checked [of args tmux "Some (at_session a)"]
    create_checked [of "at_cols a" "at_rows a" args tmux "Some (at_session a)" None]
  by (auto simp: attach_session_def case_prod_unfold Let_def split: if_splits)

lemma attach_authorised:
  "authorised q ''Terminal:Connect'' m (snd (attach_handle_request tmux parse m q))"
  using attach_session_checked [of _ tmux m "rq_ref q"]
  by (auto simp: authorised_def attach_handle_request_def split: sum.splits option.splits)

lemma create_authorised:
  "authorised q ''Terminal:CreateSession'' m (m, snd (create_handle_request tmux parse q))"
  using create_checked
  by (auto simp: authorised_def create_handle_request_def case_prod_unfold Let_def
      split: sum.splits option.splits if_splits)

lemma resize_authorised:
  "authorised q ''Terminal:Resize'' m (snd (resize_handle_request get_pty_fd parse m q))"
  by (auto simp: authorised_def resize_handle_request_def Let_def
      split: sum.splits cbor_root.splits prod.splits option.splits if_splits)

lemma list_authorised:
  "authorised q ''Terminal:ListSessions'' m (m, snd (sessions_handle_request tmux enc q))"
  "authorised q ''Terminal:Status'' m (m, snd (status_handle_request tmux enc now startTime q))"
  by (auto simp: authorised_def sessions_handle_request_def status_handle_request_def Let_def
      checked_command_def)

lemmas endpoints_authorised = attach_authorised create_authorised resize_authorised list_authorised

text \<open>A tmux that succeeds, and a caller with or without rights.\<close>

definition good_tmux :: tmux where
  "good_tmux = (\<lambda>_. \<lparr>tr_started = True, tr_output = [], tr_status = Some (Exited 0)\<rparr>)"

definition sample_request :: "bool \<Rightarrow> coap_request" where
  "sample_request allowed = \<lparr>rq_ref = 5, rq_allowed = (\<lambda>_. allowed), rq_content_format_cbor = True,
     rq_payload = Some []\<rparr>"

definition attach_main :: "byte list \<Rightarrow> cbor_root" where
  "attach_main = (\<lambda>_. Entered (Item (CvText ''session'') (Some (Item (CvText ''main'') (Some AtEnd)))))"

definition resize_to :: "64 word \<Rightarrow> 64 word \<Rightarrow> byte list \<Rightarrow> cbor_root" where
  "resize_to c r = (\<lambda>_. Entered (Item (CvText ''cols'') (Some (Item (CvUint c) (Some
     (Item (CvText ''rows'') (Some (Item (CvUint r) (Some AtEnd)))))))))"

section \<open>Properties\<close>

text \<open>
  A successful attach records exactly the requested attachment.  When the answer is 201
  the caller had the right to connect, the connection maps to a valid session name and to
  columns and rows between 1 and 1000, every other connection is untouched and the control
  streams are notified last.  Every other answer leaves the session map as it was and notifies
  nobody.
\<close>

theorem attach_records_session:
  assumes wf: "wf_map m"
  shows "attach_outcome m (rq_ref request) (attach_handle_request tmux parse m request) \<and>
    (fst (attach_handle_request tmux parse m request) = Response 201 \<longrightarrow>
       rq_allowed request ''Terminal:Connect'')"
proof -
  have err: "attach_outcome m ref (ErrorResponse n e, m, [])" for ref n e
    using wf by (simp add: attach_outcome_def)
  have "\<exists>n e. x = ErrorResponse n e" if "tmuxremote_init_cbor_parser parse request = Inl x" for x
    using that by (auto simp: tmuxremote_init_cbor_parser_def split: if_splits option.splits)
  then show ?thesis
    using err attach_session_outcome [OF wf]
    by (auto simp: attach_handle_request_def split: sum.splits option.splits)
qed

theorem attach_records_session_witness:
  "fst (attach_handle_request good_tmux attach_main tmuxremote_session_map_init (sample_request True)) =
     Response 201 \<and>
   attach_outcome tmuxremote_session_map_init (rq_ref (sample_request True))
     (attach_handle_request good_tmux attach_main tmuxremote_session_map_init (sample_request True)) \<and>
   rq_allowed (sample_request True) ''Terminal:Connect''"
proof -
  have "fst (attach_handle_request good_tmux attach_main tmuxremote_session_map_init (sample_request True)) =
      Response 201"
    by code_simp
  with attach_records_session [OF init_wf_map, where tmux = good_tmux and parse = attach_main
      and request = "sample_request True"]
  show ?thesis by simp
qed

text \<open>
  C16: every effect is authorised and every tmux command is checked.  If an endpoint runs a
  tmux command, notifies, resizes a terminal or a detector, or changes the session map, the
  caller has the right of that endpoint; a tmux command is the listing of the sessions, or a
  lookup or creation whose session name consists of 1 to 60 permitted characters, and a
  creation has columns and rows between 1 and 1000.
\<close>

theorem endpoint_effects_are_authorised:
  assumes "(action, m', effects) \<in>
    {(''Terminal:Connect'', snd (attach_handle_request tmux parse m q)),
     (''Terminal:CreateSession'', m, snd (create_handle_request tmux parse q)),
     (''Terminal:Resize'', snd (resize_handle_request get_pty_fd parse m q)),
     (''Terminal:ListSessions'', m, snd (sessions_handle_request tmux enc q)),
     (''Terminal:Status'', m, snd (status_handle_request tmux enc now startTime q))}"
  shows "(effects \<noteq> [] \<or> m' \<noteq> m \<longrightarrow> rq_allowed q action) \<and>
    (\<forall>args. RanTmux args \<in> set effects \<longrightarrow> checked_command args)"
proof -
  have "authorised q action m (m', effects)"
    using assms endpoints_authorised by auto
  then show ?thesis by (simp add: authorised_def)
qed

theorem endpoint_effects_are_authorised_witness:
  "\<exists>m' effects. (''Terminal:Connect'', m', effects) = (''Terminal:Connect'',
       snd (attach_handle_request good_tmux attach_main tmuxremote_session_map_init (sample_request True))) \<and>
     RanTmux [''has-session'', ''-t'', ''main''] \<in> set effects \<and>
     rq_allowed (sample_request True) ''Terminal:Connect'' \<and>
     checked_command [''has-session'', ''-t'', ''main'']"
proof -
  let ?h = "snd (attach_handle_request good_tmux attach_main tmuxremote_session_map_init (sample_request True))"
  have ran: "RanTmux [''has-session'', ''-t'', ''main''] \<in> set (snd ?h)" by code_simp
  have "(''Terminal:Connect'', fst ?h, snd ?h) = (''Terminal:Connect'', ?h)" by simp
  with ran endpoint_effects_are_authorised [where action = "''Terminal:Connect''" and m' = "fst ?h"
      and effects = "snd ?h" and m = tmuxremote_session_map_init and tmux = good_tmux
      and parse = attach_main and q = "sample_request True"]
  show ?thesis by (intro exI [of _ "fst ?h"] exI [of _ "snd ?h"]) auto
qed

text \<open>
  A resize is applied consistently.  When the answer is 204 both sizes are between 1 and
  1000, the connection's detector is resized to them, and if the connection has a terminal,
  the terminal gets the same size and so does the connection's entry in the session map; the
  session name and the other connections stay.
\<close>

theorem resize_is_consistent:
  assumes wf: "wf_map m"
    and h: "resize_handle_request get_pty_fd parse m q = (Response 204, m', effects)"
  shows "wf_map m' \<and> (\<exists>c r. 1 \<le> uint c \<and> uint c \<le> 1000 \<and> 1 \<le> uint r \<and> uint r \<le> 1000 \<and>
    (if get_pty_fd (rq_ref q) \<ge> 0
     then effects = [SetWinsize (get_pty_fd (rq_ref q)) c r, ResizeDetector (rq_ref q) (uint c) (uint r)] \<and>
       abs_map m' = (case abs_map m (rq_ref q) of None \<Rightarrow> abs_map m
         | Some (n, _, _) \<Rightarrow> (abs_map m)(rq_ref q \<mapsto> (n, c, r)))
     else effects = [ResizeDetector (rq_ref q) (uint c) (uint r)] \<and> m' = m))"
proof -
  have noerr: "x \<noteq> Response 204" if "tmuxremote_init_cbor_parser parse q = Inl x" for x
    using that by (auto simp: tmuxremote_init_cbor_parser_def split: if_splits option.splits)
  from h obtain cols rows where v: "valid_terminal_size cols rows"
    and out: "(m', effects) =
      (if get_pty_fd (rq_ref q) \<ge> 0
       then (snd (tmuxremote_session_update_size m (rq_ref q) (ucast cols) (ucast rows)),
             [SetWinsize (get_pty_fd (rq_ref q)) (ucast cols) (ucast rows),
              ResizeDetector (rq_ref q) (uint cols) (uint rows)])
       else (m, [ResizeDetector (rq_ref q) (uint cols) (uint rows)]))"
    by (auto simp: resize_handle_request_def Let_def dest: noerr
        split: if_splits sum.splits cbor_root.splits prod.splits option.splits)
  note size = valid_size_ucast [OF v]
  show ?thesis
  proof (cases "get_pty_fd (rq_ref q) \<ge> 0")
    case True
    with sessions.resize_law [OF wf, of "rq_ref q" "ucast cols" "ucast rows"] out size show ?thesis
      by (intro conjI exI [of _ "ucast cols"] exI [of _ "ucast rows"]) (auto simp: case_prod_unfold)
  next
    case False
    with wf out size show ?thesis
      by (intro conjI exI [of _ "ucast cols"] exI [of _ "ucast rows"]) auto
  qed
qed

theorem resize_is_consistent_witness:
  "\<exists>m' effects. resize_handle_request (\<lambda>_. 7) (resize_to 100 40) tmuxremote_session_map_init (sample_request True) =
      (Response 204, m', effects) \<and> wf_map m' \<and>
    (\<exists>c r. 1 \<le> uint c \<and> uint c \<le> 1000 \<and> 1 \<le> uint r \<and> uint r \<le> 1000 \<and>
      effects = [SetWinsize 7 c r, ResizeDetector 5 (uint c) (uint r)])"
proof -
  let ?h = "resize_handle_request (\<lambda>_. 7) (resize_to 100 40) tmuxremote_session_map_init (sample_request True)"
  have "fst ?h = Response 204" by code_simp
  then obtain m' effects where h: "?h = (Response 204, m', effects)" by (metis prod.collapse)
  have ref: "rq_ref (sample_request True) = 5" by (simp add: sample_request_def)
  from resize_is_consistent [OF init_wf_map h] h show ?thesis
    unfolding ref by (intro exI [of _ m'] exI [of _ effects]) auto
qed

end
