(* ===== verification/Control_Stream.thy ===== *)
theory Control_Stream
  imports Coap_Endpoints
begin

text \<open>
  What travels on the control streams (\<open>agent/src/tmuxremote_control_stream.c\<close>): the reader
  of resolve frames and the encoding of session snapshots.  The threads that share the list of
  streams are the subject of \<open>Control_Threads\<close>.
\<close>

definition MAX_SESSION_SNAPSHOT_CBOR :: nat where "MAX_SESSION_SNAPSHOT_CBOR = 65535"

section \<open>The reader\<close>

text \<open>
  What the reads of a stream deliver: the SDK hands over at most the requested number of the
  incoming bytes, or the read fails (an error, no future, or the stream is closing).  When the
  events are used up the stream has ended.
\<close>

datatype read_event = Got nat | ReadFailed

fun read_exactly :: "nat \<Rightarrow> byte list \<Rightarrow> byte list \<Rightarrow> read_event list
    \<Rightarrow> byte list option \<times> byte list \<times> read_event list" where
  "read_exactly cnt buf incoming [] = (if length buf = cnt then Some buf else None, incoming, [])"
| "read_exactly cnt buf incoming (e # es) =
     (if \<not> length buf < cnt then (if length buf = cnt then Some buf else None, incoming, e # es)
      else case e of
             ReadFailed \<Rightarrow> (None, incoming, es)
           | Got k \<Rightarrow>
               let n = min k (cnt - length buf)
               in read_exactly cnt (buf @ take n incoming) (drop n incoming) es)"

lemma read_exactly_events:
  "read_exactly cnt buf incoming es = (r, incoming', es') \<Longrightarrow>
     length es' \<le> length es \<and> (r \<noteq> None \<longrightarrow> length buf < cnt \<longrightarrow> length es' < length es)"
proof (induction es arbitrary: buf incoming)
  case Nil
  then show ?case by (auto split: if_splits)
next
  case (Cons e es)
  show ?case
  proof (cases "length buf < cnt")
    case False
    with Cons.prems show ?thesis by auto
  next
    case True
    show ?thesis
    proof (cases e)
      case (Got k)
      with True Cons.prems show ?thesis
        using Cons.IH [of "buf @ take (min k (cnt - length buf)) incoming" "drop (min k (cnt - length buf)) incoming"]
        by (auto simp: Let_def)
    next
      case ReadFailed
      with True Cons.prems show ?thesis by auto
    qed
  qed
qed

lemma two_reads_use_events:
  assumes "(Some a, i1, es1) = read_exactly 4 [] i0 es" and "(Some b, i2, es2) = read_exactly n [] i1 es1"
  shows "length es2 < length es"
  using read_exactly_events [OF assms(1) [symmetric]] read_exactly_events [OF assms(2) [symmetric]] by simp

text \<open>
  The messages that \<open>reader_thread_func\<close> passes to \<open>tmuxremote_stream_resolve_prompt_for_ref\<close>,
  in order; \<^const>\<open>None\<close> is an access outside the frame.
\<close>

function reader_thread_func ::
  "alloc \<Rightarrow> 'v cbor_parser \<Rightarrow> byte list \<Rightarrow> read_event list \<Rightarrow> resolve_message list option" where
  "reader_thread_func al api incoming es =
     (case read_exactly 4 [] incoming es of
        (None, _, _) \<Rightarrow> Some []
      | (Some lenBuf, incoming1, es1) \<Rightarrow>
          let payloadLen = from_be32 lenBuf
          in if payloadLen = 0 \<or> payloadLen > 65536 then Some []
             else if \<not> al (unat payloadLen) then Some []
             else (case read_exactly (unat payloadLen) [] incoming1 es1 of
                     (None, _, _) \<Rightarrow> Some []
                   | (Some payload, incoming2, es2) \<Rightarrow>
                       if \<not> al (4 + unat payloadLen) then Some []
                       else (case tmuxremote_prompt_protocol_decode_resolve api (lenBuf @ payload) of
                               None \<Rightarrow> None
                             | Some None \<Rightarrow> reader_thread_func al api incoming2 es2
                             | Some (Some resolve) \<Rightarrow>
                                 map_option ((#) resolve) (reader_thread_func al api incoming2 es2))))"
  by pat_completeness auto
termination
  by (relation "measure (\<lambda>(_, _, _, es). length es)") (auto dest: two_reads_use_events)

declare reader_thread_func.simps [simp del]

section \<open>Session snapshots\<close>

fun tmux_lists_equal :: "tmux_session list \<Rightarrow> tmux_session list \<Rightarrow> bool" where
  "tmux_lists_equal [] [] = True"
| "tmux_lists_equal (a # as) (b # bs) =
     (if tx_name a \<noteq> tx_name b \<or> tx_cols a \<noteq> tx_cols b \<or> tx_rows a \<noteq> tx_rows b \<or>
         tx_attached a \<noteq> tx_attached b then False
      else tmux_lists_equal as bs)"
| "tmux_lists_equal _ _ = False"

definition session_snapshot :: "tmux_session list \<Rightarrow> cbor" where
  "session_snapshot list =
     CMap [(''type'', CText ''sessions''), (''sessions'', CArray (map session_cbor list))]"

text \<open>
  The loop over the buffer size.  TinyCBOR reports how many bytes the buffer lacks, so the
  second round has room for them and for 512 more.
\<close>

function encode_with_capacity :: "alloc \<Rightarrow> byte list \<Rightarrow> nat \<Rightarrow> byte list option" where
  "encode_with_capacity al bytes cborCap =
     (if \<not> cborCap \<le> MAX_SESSION_SNAPSHOT_CBOR then None
      else if \<not> al cborCap then None
      else
        let extra = length bytes - cborCap
        in if extra = 0
           then (if length bytes \<ge> 65536 then None
                 else if \<not> al (4 + length bytes) then None
                 else Some (be32 (word_of_nat (length bytes)) @ bytes))
           else if cborCap + extra + 512 > MAX_SESSION_SNAPSHOT_CBOR then None
           else encode_with_capacity al bytes (cborCap + extra + 512))"
  by pat_completeness auto
termination
  by (relation "measure (\<lambda>(_, _, cap). 65536 - cap)") (auto simp: MAX_SESSION_SNAPSHOT_CBOR_def)

declare encode_with_capacity.simps [simp del]

definition encode_session_snapshot ::
  "(cbor \<Rightarrow> byte list) \<Rightarrow> alloc \<Rightarrow> tmux_session list \<Rightarrow> byte list option" where
  "encode_session_snapshot enc al list = encode_with_capacity al (enc (session_snapshot list)) 2048"

section \<open>Lemmas on reading and encoding\<close>

definition delivering :: "byte list \<Rightarrow> read_event list \<Rightarrow> bool" where
  "delivering incoming es \<longleftrightarrow> (\<forall>e \<in> set es. \<exists>k. e = Got k \<and> 0 < k) \<and> length incoming \<le> length es"

lemma read_exactly_delivers:
  "delivering incoming es \<Longrightarrow> length buf \<le> cnt \<Longrightarrow> cnt - length buf \<le> length incoming \<Longrightarrow>
     \<exists>es'. read_exactly cnt buf incoming es =
         (Some (buf @ take (cnt - length buf) incoming), drop (cnt - length buf) incoming, es') \<and>
       delivering (drop (cnt - length buf) incoming) es'"
proof (induction es arbitrary: buf incoming)
  case Nil
  then show ?case by (auto simp: delivering_def)
next
  case (Cons e es)
  show ?case
  proof (cases "length buf < cnt")
    case False
    with Cons.prems show ?thesis by simp
  next
    case True
    from Cons.prems(1) obtain k where k: "e = Got k" "0 < k" by (auto simp: delivering_def)
    define n where "n = min k (cnt - length buf)"
    let ?buf = "buf @ take n incoming" and ?inc = "drop n incoming"
    have n: "1 \<le> n" "n \<le> cnt - length buf" "n \<le> length incoming"
      using True k Cons.prems(3) by (auto simp: n_def)
    have len: "length ?buf = length buf + n" using n by simp
    have "delivering ?inc es" using Cons.prems(1) n by (auto simp: delivering_def)
    moreover have "length ?buf \<le> cnt" "cnt - length ?buf \<le> length ?inc"
      using n Cons.prems len by simp_all
    ultimately obtain es' where es': "read_exactly cnt ?buf ?inc es =
        (Some (?buf @ take (cnt - length ?buf) ?inc), drop (cnt - length ?buf) ?inc, es')"
      "delivering (drop (cnt - length ?buf) ?inc) es'"
      using Cons.IH [of ?inc ?buf] by blast
    have split: "take n incoming @ take (cnt - length ?buf) ?inc = take (cnt - length buf) incoming"
      "drop (cnt - length ?buf) ?inc = drop (cnt - length buf) incoming"
      using n len take_add [of n "cnt - length ?buf" incoming] by simp_all
    have "read_exactly cnt buf incoming (e # es) = read_exactly cnt ?buf ?inc es"
      using True k by (simp add: n_def Let_def)
    with es' split show ?thesis by (intro exI [of _ es']) simp
  qed
qed

lemma read_exactly_ended:
  "delivering [] es \<Longrightarrow> length buf < cnt \<Longrightarrow> \<exists>es'. read_exactly cnt buf [] es = (None, [], es')"
  by (induction es) (auto simp: delivering_def)

lemma read_exactly_length:
  "length buf \<le> cnt \<Longrightarrow> read_exactly cnt buf incoming es = (Some r, i, es') \<Longrightarrow> length r = cnt"
proof (induction es arbitrary: buf incoming)
  case Nil
  then show ?case by (auto split: if_splits)
next
  case (Cons e es)
  show ?case
  proof (cases "length buf < cnt")
    case False
    with Cons.prems show ?thesis by auto
  next
    case True
    then obtain k where "e = Got k" using Cons.prems(2) by (cases e) auto
    with True Cons.prems(2) show ?thesis
      using Cons.IH [of "buf @ take (min k (cnt - length buf)) incoming"]
      by (auto simp: Let_def)
  qed
qed

lemma from_be32_prefix: "length l = 4 \<Longrightarrow> from_be32 (l @ p) = from_be32 l"
  by (cases l rule: from_be32.cases) auto

lemma decode_read_frame:
  assumes "length l = 4" and "length p = unat (from_be32 l)" and "from_be32 l \<noteq> 0"
    and "from_be32 l \<le> 65536"
  shows "tmuxremote_prompt_protocol_decode_resolve api (l @ p) = Some (decode_resolve_payload api p)"
proof -
  have "unat (from_be32 l) \<le> 65536" using assms(4) by (simp add: word_le_nat_alt)
  then have "unat (from_be32 l + 4) = unat (from_be32 l) + 4"
    by (subst unat_add_lem [THEN iffD1]) simp_all
  with assms show ?thesis
    by (simp add: tmuxremote_prompt_protocol_decode_resolve_def from_be32_prefix Let_def mem_read_def)
qed

text \<open>One turn of the reader, with the frame it has read.\<close>

lemma reader_turn:
  assumes "read_exactly 4 [] incoming es = (Some l, i1, es1)"
    and "0 < from_be32 l" and "from_be32 l \<le> 65536"
    and "read_exactly (unat (from_be32 l)) [] i1 es1 = (Some p, i2, es2)"
    and "al (unat (from_be32 l))" and "al (4 + unat (from_be32 l))"
  shows "reader_thread_func al api incoming es =
     (case decode_resolve_payload api p of
        None \<Rightarrow> reader_thread_func al api i2 es2
      | Some m \<Rightarrow> map_option ((#) m) (reader_thread_func al api i2 es2))"
proof -
  have l: "length l = 4" and p: "length p = unat (from_be32 l)"
    using read_exactly_length [OF _ assms(1)] read_exactly_length [OF _ assms(4)] by simp_all
  have "tmuxremote_prompt_protocol_decode_resolve api (l @ p) = Some (decode_resolve_payload api p)"
    using decode_read_frame [OF l p] assms(2,3) by (auto simp: word_neq_0_conv [symmetric])
  with assms show ?thesis
    by (subst reader_thread_func.simps) (auto simp: Let_def split: option.splits)
qed

lemma reader_stops:
  assumes "\<not> (\<exists>l i1 es1 p i2 es2. read_exactly 4 [] incoming es = (Some l, i1, es1) \<and>
    0 < from_be32 l \<and> from_be32 l \<le> 65536 \<and> al (unat (from_be32 l)) \<and> al (4 + unat (from_be32 l)) \<and>
    read_exactly (unat (from_be32 l)) [] i1 es1 = (Some p, i2, es2))"
  shows "reader_thread_func al api incoming es = Some []"
  using assms
  by (subst reader_thread_func.simps)
     (auto simp: Let_def not_less word_neq_0_conv split: option.splits prod.splits)

definition complete_resolve :: "resolve_message \<Rightarrow> bool" where
  "complete_resolve m \<longleftrightarrow> rm_instance_id m \<noteq> None \<and>
     (rm_decision m = Some ''action'' \<or> rm_decision m = Some ''dismiss'')"

lemma decoded_complete: "decode_resolve_payload api p = Some m \<Longrightarrow> complete_resolve m"
  by (auto simp: decode_resolve_payload_def complete_resolve_def Let_def split: option.splits if_splits)

lemma reader_safe:
  "\<exists>rs. reader_thread_func al api incoming es = Some rs \<and> (\<forall>m \<in> set rs. complete_resolve m)"
proof (induction "length es" arbitrary: incoming es rule: less_induct)
  case less
  show ?case
  proof (cases "\<exists>l i1 es1 p i2 es2. read_exactly 4 [] incoming es = (Some l, i1, es1) \<and>
      0 < from_be32 l \<and> from_be32 l \<le> 65536 \<and> al (unat (from_be32 l)) \<and> al (4 + unat (from_be32 l)) \<and>
      read_exactly (unat (from_be32 l)) [] i1 es1 = (Some p, i2, es2)")
    case False
    from reader_stops [OF this, of api] show ?thesis by simp
  next
    case True
    then obtain l i1 es1 p i2 es2 where t: "read_exactly 4 [] incoming es = (Some l, i1, es1)"
      "0 < from_be32 l" "from_be32 l \<le> 65536"
      "read_exactly (unat (from_be32 l)) [] i1 es1 = (Some p, i2, es2)"
      "al (unat (from_be32 l))" "al (4 + unat (from_be32 l))" by blast
    have "length es2 < length es" by (rule two_reads_use_events [OF t(1) [symmetric] t(4) [symmetric]])
    from less [OF this, of i2] obtain rs where rs: "reader_thread_func al api i2 es2 = Some rs"
      "\<forall>m \<in> set rs. complete_resolve m" by blast
    show ?thesis
      using reader_turn [OF t, of api] rs decoded_complete [of api p]
      by (cases "decode_resolve_payload api p") auto
  qed
qed

definition frames :: "byte list list \<Rightarrow> byte list" where
  "frames ps = concat (map (\<lambda>p. be32 (word_of_nat (length p)) @ p) ps)"

text \<open>Nothing follows, or a frame whose length is not permitted.\<close>

definition no_more_frames :: "byte list \<Rightarrow> bool" where
  "no_more_frames incoming \<longleftrightarrow> incoming = [] \<or>
     (\<exists>w rest. incoming = be32 w @ rest \<and> (w = 0 \<or> w > 65536))"

lemma read_length_field:
  assumes "delivering (be32 w @ rest) es"
  shows "\<exists>es'. read_exactly 4 [] (be32 w @ rest) es = (Some (be32 w), rest, es') \<and> delivering rest es'"
  using read_exactly_delivers [OF assms, of "[]" 4] by simp

lemma reader_at_end:
  assumes "no_more_frames incoming" and "delivering incoming es"
  shows "reader_thread_func al api incoming es = Some []"
proof (rule reader_stops)
  have be: "from_be32 (be32 w) = w" for w using from_be32_be32 [of w "[]"] by simp
  show "\<not> (\<exists>l i1 es1 p i2 es2. read_exactly 4 [] incoming es = (Some l, i1, es1) \<and>
    0 < from_be32 l \<and> from_be32 l \<le> 65536 \<and> al (unat (from_be32 l)) \<and> al (4 + unat (from_be32 l)) \<and>
    read_exactly (unat (from_be32 l)) [] i1 es1 = (Some p, i2, es2))"
    using assms read_exactly_ended [of es "[]" 4] read_length_field [of _ _ es] be
    by (fastforce simp: no_more_frames_def)
qed

lemma reader_frames:
  "\<forall>p \<in> set ps. 0 < length p \<and> length p \<le> 65536 \<Longrightarrow> no_more_frames tail \<Longrightarrow>
     delivering (frames ps @ tail) es \<Longrightarrow>
     reader_thread_func mem_ok api (frames ps @ tail) es =
       Some (List.map_filter (decode_resolve_payload api) ps)"
proof (induction ps arbitrary: es)
  case Nil
  then show ?case using reader_at_end [of tail es] by (simp add: frames_def map_filter_simps)
next
  case (Cons p ps)
  let ?w = "word_of_nat (length p) :: 32 word"
  have w: "unat ?w = length p" using Cons.prems(1) by (intro unat_of_nat_small) simp
  have bounds: "0 < ?w" "?w \<le> 65536"
    using Cons.prems(1) by (simp_all add: word_less_nat_alt word_le_nat_alt w)
  have be: "from_be32 (be32 ?w) = ?w" using from_be32_be32 [of ?w "[]"] by simp
  have inc: "frames (p # ps) @ tail = be32 ?w @ p @ frames ps @ tail" by (simp add: frames_def)
  obtain es1 where r1: "read_exactly 4 [] (frames (p # ps) @ tail) es = (Some (be32 ?w), p @ frames ps @ tail, es1)"
    and d1: "delivering (p @ frames ps @ tail) es1"
    using read_length_field Cons.prems(3) unfolding inc by blast
  obtain es2 where r2: "read_exactly (unat ?w) [] (p @ frames ps @ tail) es1 = (Some p, frames ps @ tail, es2)"
    and d2: "delivering (frames ps @ tail) es2"
    using read_exactly_delivers [OF d1, of "[]" "unat ?w"] w by auto
  have "reader_thread_func mem_ok api (frames ps @ tail) es2 =
      Some (List.map_filter (decode_resolve_payload api) ps)"
    using Cons.IH [OF _ Cons.prems(2) d2] Cons.prems(1) by simp
  then show ?case
    using reader_turn [of "frames (p # ps) @ tail" es "be32 ?w" "p @ frames ps @ tail" es1 p
        "frames ps @ tail" es2 mem_ok api] r1 r2 bounds be
    by (cases "decode_resolve_payload api p") (simp_all add: map_filter_simps)
qed

lemma snapshot_frame:
  "encode_with_capacity mem_ok bytes 2048 =
     (if length bytes \<le> 65023 then Some (be32 (word_of_nat (length bytes)) @ bytes) else None)"
proof (cases "length bytes \<le> 2048")
  case True
  then show ?thesis
    by (subst encode_with_capacity.simps) (simp add: MAX_SESSION_SNAPSHOT_CBOR_def Let_def)
next
  case False
  then have "encode_with_capacity mem_ok bytes 2048 =
      (if length bytes + 512 > 65535 then None else encode_with_capacity mem_ok bytes (length bytes + 512))"
    by (subst encode_with_capacity.simps) (simp add: MAX_SESSION_SNAPSHOT_CBOR_def Let_def)
  moreover have "encode_with_capacity mem_ok bytes (length bytes + 512) =
      Some (be32 (word_of_nat (length bytes)) @ bytes)" if "\<not> length bytes + 512 > 65535"
    using that by (subst encode_with_capacity.simps) (simp add: MAX_SESSION_SNAPSHOT_CBOR_def)
  ultimately show ?thesis by simp
qed

section \<open>Properties\<close>

text \<open>
  C29: the control reader is safe on every input.  Whatever a client sends, however it is cut
  into reads, and whatever allocations fail, the reader ends without an access outside a
  frame, and everything it passes on names an instance and carries the decision \<open>action\<close> or
  \<open>dismiss\<close>.  The limit of 65536 bytes is what keeps the wrapping length check of the decoder
  out of reach.
\<close>

theorem control_reader_never_faults:
  "\<exists>rs. reader_thread_func al api incoming es = Some rs \<and> list_all complete_resolve rs"
  using reader_safe by (simp add: list_all_iff)

text \<open>
  C30: the control reader understands exactly the frames that were sent.  For a stream made of
  frames with payloads of 1 to 65536 bytes, followed by nothing or by a frame with another
  length, and delivered in pieces of any size, the reader passes on the resolve messages of
  the frames in their order; payloads that are no resolve messages are skipped, and the first
  frame with a length that is not permitted ends the stream.
\<close>

theorem control_reader_resolves_frames:
  assumes "\<forall>p \<in> set ps. 0 < length p \<and> length p \<le> 65536" and "no_more_frames tail"
    and "delivering (frames ps @ tail) es"
  shows "reader_thread_func mem_ok api (frames ps @ tail) es =
     Some (List.map_filter (decode_resolve_payload api) ps)"
  using assms by (rule reader_frames)

theorem control_reader_resolves_frames_witness:
  "reader_thread_func mem_ok no_parser (frames [[7, 7], [8]] @ be32 0 @ [1]) (replicate 16 (Got 3)) =
     Some (List.map_filter (decode_resolve_payload no_parser) [[7, 7], [8]])"
proof (rule control_reader_resolves_frames)
  show "no_more_frames (be32 0 @ [1])" unfolding no_more_frames_def by blast
qed (auto simp: delivering_def frames_def)

text \<open>
  Session snapshots up to 65023 bytes are sent.  The loop over the buffer size ends, and
  as long as memory lasts it produces the frame of the message exactly when the encoded
  message has at most 65023 bytes: one retry with the missing bytes and 512 more is enough.
\<close>

theorem session_snapshot_is_framed:
  "encode_session_snapshot enc mem_ok list =
     (let bytes = enc (session_snapshot list)
      in if length bytes \<le> 65023 then Some (be32 (word_of_nat (length bytes)) @ bytes) else None)"
  by (simp add: encode_session_snapshot_def snapshot_frame Let_def)

end
