(* ===== verification/Control_Threads.thy ===== *)
theory Control_Threads
  imports Control_Stream "HOL-Library.Multiset"
begin

text \<open>
  The threads around the control streams (\<open>agent/src/tmuxremote_control_stream.c\<close>): the SDK
  callbacks that accept streams, the monitor, one reader per stream, the PTY threads that
  report prompts, and the main thread that shuts down.

  A stream is named by its address.  The heap maps the addresses of allocated streams to their
  fields, addresses are not reused, and an access to an address that is not allocated is the
  outer \<^const>\<open>None\<close> of an operation.  The linked list is the list of its addresses.

  Sections under \<open>streamListMutex\<close> are atomic, except the last section of the monitor, which
  joins reader threads while it holds the mutex: it is cut into steps, and the other sections
  wait until it is over.  A release that drops the last reference waits for the reader of the
  stream to end; the model waits before it decrements, a difference no other thread can see
  because such a stream is in no list.  \<open>pthread_join\<close> of the calling thread fails at once.
  Reference counts are natural numbers: the 32-bit counter of the code counts threads.
\<close>

definition MAX_CONTROL_STREAMS :: nat where "MAX_CONTROL_STREAMS = 16"

section \<open>State\<close>

record control_stream =
  ac_ref :: connection_ref
  ac_closing :: bool
  ac_needsPromptSync :: bool
  ac_needsSessionSync :: bool
  ac_refCount :: nat

type_synonym stream_heap = "nat \<rightharpoonup> control_stream"

datatype thread = Reader nat | Pty nat

text \<open>A thread inside \<open>send_to_ref\<close>: before the list lock, about to send, about to release.\<close>

datatype call =
    WantsTargets connection_ref "byte list"
  | Sending "nat list" "byte list"
  | Releasing "nat list" "byte list"

text \<open>Where the monitor is; the arguments are its local variables.\<close>

datatype monitor_pc =
    MonOff
  | MonTop
  | MonSessions bool "byte list option" "nat list"
  | MonSending "nat list" "byte list" "nat list"
  | MonDropping "nat list"
  | MonPrompts
  | MonPrompt "nat list"
  | MonPromptRelease nat "nat list"
  | MonPrune "nat list" "nat list"
  | MonWait
  | MonExited

record control =
  co_heap :: stream_heap
  co_next :: nat
  co_opening :: "nat list"
  co_accepted :: "nat list"
  co_active :: "nat list"
  co_readers :: "nat set"
  co_calls :: "(thread \<times> call) list"
  co_monitor :: monitor_pc
  co_prev :: "tmux_session list option"
  co_monitorStop :: bool
  co_detached :: "nat list"
  co_deinit :: bool
  co_sent :: "(nat \<times> byte list) list"

text \<open>What the surroundings of a step supply.\<close>

datatype write_result = NoFuture | Written | WriteFailed

record env =
  en_tmux :: tmux
  en_enc :: "cbor \<Rightarrow> byte list"
  en_al :: alloc
  en_write :: write_result
  en_prompt :: "connection_ref \<Rightarrow> prompt_instance option"

definition tmuxremote_control_stream_listener_init :: control where
  "tmuxremote_control_stream_listener_init =
     \<lparr>co_heap = (\<lambda>_. None), co_next = 0, co_opening = [], co_accepted = [], co_active = [],
      co_readers = {}, co_calls = [], co_monitor = MonOff, co_prev = None, co_monitorStop = False,
      co_detached = [], co_deinit = False, co_sent = []\<rparr>"

definition list_locked :: "control \<Rightarrow> bool" where
  "list_locked st = (case co_monitor st of MonPrune _ _ \<Rightarrow> True | _ \<Rightarrow> False)"

section \<open>Operations\<close>

definition control_stream_retain :: "control_stream \<Rightarrow> control_stream" where
  "control_stream_retain cs = cs\<lparr>ac_refCount := ac_refCount cs + 1\<rparr>"

definition control_stream_release_impl :: "stream_heap \<Rightarrow> nat \<Rightarrow> stream_heap option" where
  "control_stream_release_impl h s =
     (case h s of
        None \<Rightarrow> None
      | Some cs \<Rightarrow>
          if ac_refCount cs = 1 then Some (h(s := None))
          else Some (h(s \<mapsto> cs\<lparr>ac_refCount := ac_refCount cs - 1\<rparr>)))"

text \<open>Whether the join inside the release returns; \<open>self\<close> is the releasing thread.\<close>

definition release_waits :: "control \<Rightarrow> thread option \<Rightarrow> nat \<Rightarrow> bool" where
  "release_waits st self s \<longleftrightarrow>
     (case co_heap st s of None \<Rightarrow> False
      | Some cs \<Rightarrow> ac_refCount cs = 1 \<and> s \<in> co_readers st \<and> self \<noteq> Some (Reader s))"

text \<open>
  The loops over the list that pick the streams passing a test, up to \<open>cap\<close> of them, and
  update each of them on the way.
\<close>

fun collect :: "(control_stream \<Rightarrow> bool) \<Rightarrow> (control_stream \<Rightarrow> control_stream) \<Rightarrow> nat
    \<Rightarrow> stream_heap \<Rightarrow> nat list \<Rightarrow> (stream_heap \<times> nat list) option" where
  "collect test upd cap h [] = Some (h, [])"
| "collect test upd cap h (s # ss) =
     (if cap = 0 then Some (h, [])
      else case h s of
             None \<Rightarrow> None
           | Some cs \<Rightarrow>
               if test cs
               then map_option (\<lambda>(h', out). (h', s # out)) (collect test upd (cap - 1) (h(s \<mapsto> upd cs)) ss)
               else collect test upd cap h ss)"

definition collect_targets_for_ref ::
  "connection_ref \<Rightarrow> stream_heap \<Rightarrow> nat list \<Rightarrow> (stream_heap \<times> nat list) option" where
  "collect_targets_for_ref ref =
     collect (\<lambda>cs. \<not> ac_closing cs \<and> ac_ref cs = ref) control_stream_retain MAX_CONTROL_STREAMS"

definition send_to_stream :: "write_result \<Rightarrow> nat \<Rightarrow> byte list \<Rightarrow> control \<Rightarrow> control option" where
  "send_to_stream wr s data st =
     (case co_heap st s of
        None \<Rightarrow> None
      | Some cs \<Rightarrow>
          if ac_closing cs then Some st
          else case wr of
                 NoFuture \<Rightarrow> Some st
               | Written \<Rightarrow> Some (st\<lparr>co_sent := co_sent st @ [(s, data)]\<rparr>)
               | WriteFailed \<Rightarrow> Some (st\<lparr>co_heap := (co_heap st)(s \<mapsto> cs\<lparr>ac_closing := True\<rparr>)\<rparr>))"

text \<open>
  The prompt messages: the call of \<open>send_to_ref\<close> that follows, if the message could be encoded.
\<close>

definition tmuxremote_control_stream_send_prompt_present_for_ref ::
  "env \<Rightarrow> connection_ref \<Rightarrow> prompt_instance option \<Rightarrow> call option" where
  "tmuxremote_control_stream_send_prompt_present_for_ref e ref i =
     map_option (WantsTargets ref) (tmuxremote_prompt_protocol_encode_present (en_enc e) (en_al e) i)"

definition tmuxremote_control_stream_send_prompt_update_for_ref ::
  "env \<Rightarrow> connection_ref \<Rightarrow> prompt_instance option \<Rightarrow> call option" where
  "tmuxremote_control_stream_send_prompt_update_for_ref e ref i =
     map_option (WantsTargets ref) (tmuxremote_prompt_protocol_encode_update (en_enc e) (en_al e) i)"

definition tmuxremote_control_stream_send_prompt_gone_for_ref ::
  "env \<Rightarrow> connection_ref \<Rightarrow> string option \<Rightarrow> call option" where
  "tmuxremote_control_stream_send_prompt_gone_for_ref e ref i =
     map_option (WantsTargets ref) (tmuxremote_prompt_protocol_encode_gone (en_enc e) (en_al e) i)"

text \<open>
  The steps of \<open>send_to_ref\<close>.  The outer \<^const>\<open>None\<close> is an access to freed memory, the middle
  one is waiting, the inner one the return of the function.
\<close>

definition send_to_ref ::
  "env \<Rightarrow> thread \<Rightarrow> call \<Rightarrow> control \<Rightarrow> (control \<times> call option) option option" where
  "send_to_ref e t c st =
     (case c of
        WantsTargets ref data \<Rightarrow>
          if list_locked st then Some None
          else (case collect_targets_for_ref ref (co_heap st) (co_active st) of
                  None \<Rightarrow> None
                | Some (h, targets) \<Rightarrow> Some (Some (st\<lparr>co_heap := h\<rparr>, Some (Sending targets data))))
      | Sending [] data \<Rightarrow> Some (Some (st, None))
      | Sending (s # ss) data \<Rightarrow>
          map_option (\<lambda>st'. Some (st', Some (Releasing (s # ss) data))) (send_to_stream (en_write e) s data st)
      | Releasing [] data \<Rightarrow> Some (Some (st, None))
      | Releasing (s # ss) data \<Rightarrow>
          if release_waits st (Some t) s then Some None
          else map_option (\<lambda>h. Some (st\<lparr>co_heap := h\<rparr>, Some (Sending ss data)))
                 (control_stream_release_impl (co_heap st) s))"

definition broadcast_to_all :: "stream_heap \<Rightarrow> nat list \<Rightarrow> nat list option" where
  "broadcast_to_all h ss = map_option snd (collect (\<lambda>cs. \<not> ac_closing cs) (\<lambda>cs. cs) MAX_CONTROL_STREAMS h ss)"

section \<open>The monitor\<close>

definition monitor_poll :: "env \<Rightarrow> control \<Rightarrow> control option" where
  "monitor_poll e st =
     (if co_monitorStop st then Some (st\<lparr>co_monitor := MonExited\<rparr>)
      else
        let currentList = (case tmuxremote_tmux_list_sessions (en_tmux e) of None \<Rightarrow> [] | Some l \<Rightarrow> l);
            changed = (case co_prev st of None \<Rightarrow> True | Some prevList \<Rightarrow> \<not> tmux_lists_equal prevList currentList)
        in case collect (\<lambda>cs. ac_needsSessionSync cs \<and> \<not> ac_closing cs)
                  (\<lambda>cs. (control_stream_retain cs)\<lparr>ac_needsSessionSync := False\<rparr>)
                  MAX_CONTROL_STREAMS (co_heap st) (co_active st) of
             None \<Rightarrow> None
           | Some (h, sessionSync) \<Rightarrow>
               Some (st\<lparr>co_heap := h,
                        co_prev := (if changed then Some currentList else co_prev st),
                        co_monitor := MonSessions changed
                          (if changed \<or> sessionSync \<noteq> []
                           then encode_session_snapshot (en_enc e) (en_al e) currentList else None)
                          sessionSync\<rparr>))"

definition monitor_sessions :: "bool \<Rightarrow> byte list option \<Rightarrow> nat list \<Rightarrow> control \<Rightarrow> control option" where
  "monitor_sessions changed msg sessionSync st =
     (case msg of
        None \<Rightarrow> Some (st\<lparr>co_monitor := MonDropping sessionSync\<rparr>)
      | Some data \<Rightarrow>
          if changed
          then map_option (\<lambda>targets. st\<lparr>co_monitor := MonSending targets data sessionSync\<rparr>)
                 (broadcast_to_all (co_heap st) (co_active st))
          else Some (st\<lparr>co_monitor := MonSending sessionSync data sessionSync\<rparr>))"

definition monitor_prompts :: "control \<Rightarrow> control option" where
  "monitor_prompts st =
     (case collect (\<lambda>cs. ac_needsPromptSync cs \<and> \<not> ac_closing cs)
             (\<lambda>cs. (control_stream_retain cs)\<lparr>ac_needsPromptSync := False\<rparr>)
             MAX_CONTROL_STREAMS (co_heap st) (co_active st) of
        None \<Rightarrow> None
      | Some (h, promptSync) \<Rightarrow> Some (st\<lparr>co_heap := h, co_monitor := MonPrompt promptSync\<rparr>))"

definition monitor_prompt :: "env \<Rightarrow> nat \<Rightarrow> nat list \<Rightarrow> control \<Rightarrow> control option" where
  "monitor_prompt e s ss st =
     (case co_heap st s of
        None \<Rightarrow> None
      | Some cs \<Rightarrow>
          map_option (\<lambda>st'. st'\<lparr>co_monitor := MonPromptRelease s ss\<rparr>)
            (case en_prompt e (ac_ref cs) of
               None \<Rightarrow> Some st
             | Some active \<Rightarrow>
                 (case tmuxremote_prompt_protocol_encode_present (en_enc e) (en_al e) (Some active) of
                    None \<Rightarrow> Some st
                  | Some msg \<Rightarrow> send_to_stream (en_write e) s msg st)))"

text \<open>One turn of the loop that unlinks closing streams; the mutex is held.\<close>

definition monitor_prune :: "nat list \<Rightarrow> nat \<Rightarrow> nat list \<Rightarrow> control \<Rightarrow> control option option" where
  "monitor_prune kept s rest st =
     (case co_heap st s of
        None \<Rightarrow> None
      | Some cs \<Rightarrow>
          if \<not> ac_closing cs then Some (Some (st\<lparr>co_monitor := MonPrune (kept @ [s]) rest\<rparr>))
          else if release_waits st None s then Some None
          else map_option (\<lambda>h. Some (st\<lparr>co_heap := h, co_active := kept @ rest, co_monitor := MonPrune kept rest\<rparr>))
                 (control_stream_release_impl (co_heap st) s))"

definition monitor_release :: "nat \<Rightarrow> monitor_pc \<Rightarrow> control \<Rightarrow> control option option" where
  "monitor_release s pc st =
     (if release_waits st None s then Some None
      else map_option (\<lambda>h. Some (st\<lparr>co_heap := h, co_monitor := pc\<rparr>)) (control_stream_release_impl (co_heap st) s))"

definition monitor_thread_func :: "env \<Rightarrow> control \<Rightarrow> control option option" where
  "monitor_thread_func e st =
     (case co_monitor st of
        MonOff \<Rightarrow> Some None
      | MonTop \<Rightarrow> map_option Some (monitor_poll e st)
      | MonSessions changed msg ss \<Rightarrow> map_option Some (monitor_sessions changed msg ss st)
      | MonSending [] data ss \<Rightarrow> Some (Some (st\<lparr>co_monitor := MonDropping ss\<rparr>))
      | MonSending (t # ts) data ss \<Rightarrow>
          map_option (\<lambda>st'. Some (st'\<lparr>co_monitor := MonSending ts data ss\<rparr>)) (send_to_stream (en_write e) t data st)
      | MonDropping [] \<Rightarrow> Some (Some (st\<lparr>co_monitor := MonPrompts\<rparr>))
      | MonDropping (s # ss) \<Rightarrow> monitor_release s (MonDropping ss) st
      | MonPrompts \<Rightarrow> map_option Some (monitor_prompts st)
      | MonPrompt [] \<Rightarrow> Some (Some (st\<lparr>co_monitor := MonPrune [] (co_active st)\<rparr>))
      | MonPrompt (s # ss) \<Rightarrow> map_option Some (monitor_prompt e s ss st)
      | MonPromptRelease s ss \<Rightarrow> monitor_release s (MonPrompt ss) st
      | MonPrune kept [] \<Rightarrow>
          Some (Some (st\<lparr>co_prev := (if co_active st = [] then None else co_prev st), co_monitor := MonWait\<rparr>))
      | MonPrune kept (s # rest) \<Rightarrow> monitor_prune kept s rest st
      | MonWait \<Rightarrow> Some (Some (st\<lparr>co_monitor := MonTop\<rparr>))
      | MonExited \<Rightarrow> Some None)"

section \<open>Accepting and shutting down\<close>

text \<open>\<open>stream_callback\<close> after its allocations succeeded; otherwise nothing is left of the stream.\<close>

definition stream_callback :: "control \<Rightarrow> control" where
  "stream_callback st =
     st\<lparr>co_heap := (co_heap st)(co_next st \<mapsto>
          \<lparr>ac_ref = 0, ac_closing = False, ac_needsPromptSync = True, ac_needsSessionSync = True,
           ac_refCount = 1\<rparr>),
        co_next := co_next st + 1,
        co_opening := co_next st # co_opening st\<rparr>"

text \<open>
  \<open>stream_accepted\<close> up to the start of the reader: \<open>result\<close> is the connection when the accept
  succeeded and access is granted, \<open>started\<close> the success of \<open>pthread_create\<close>.
\<close>

definition stream_accepted :: "connection_ref option \<Rightarrow> bool \<Rightarrow> nat \<Rightarrow> control \<Rightarrow> control option" where
  "stream_accepted result started s st =
     (case result of
        None \<Rightarrow> map_option (\<lambda>h. st\<lparr>co_heap := h, co_opening := remove1 s (co_opening st)\<rparr>)
                  (control_stream_release_impl (co_heap st) s)
      | Some ref \<Rightarrow>
          (case co_heap st s of
             None \<Rightarrow> None
           | Some cs \<Rightarrow>
               Some (st\<lparr>co_heap := (co_heap st)(s \<mapsto> cs\<lparr>ac_ref := ref\<rparr>),
                        co_opening := remove1 s (co_opening st),
                        co_accepted := s # co_accepted st,
                        co_readers := (if started then insert s (co_readers st) else co_readers st)\<rparr>)))"

text \<open>The monitor counts as started until \<open>join_monitor\<close>, the first action of deinit, has joined it.\<close>

definition ensure_monitor_started :: "bool \<Rightarrow> control \<Rightarrow> control" where
  "ensure_monitor_started started st =
     (if (co_monitor st = MonOff \<or> co_monitor st = MonExited \<and> co_deinit st) \<and> started then st\<lparr>co_monitor := MonTop\<rparr> else st)"

text \<open>The rest of \<open>stream_accepted\<close>.\<close>

definition stream_listed :: "bool \<Rightarrow> nat \<Rightarrow> control \<Rightarrow> control" where
  "stream_listed started s st =
     ensure_monitor_started started
       (st\<lparr>co_accepted := remove1 s (co_accepted st), co_active := s # co_active st\<rparr>)"

definition tmuxremote_control_stream_listener_stop :: "control \<Rightarrow> control option" where
  "tmuxremote_control_stream_listener_stop st =
     map_option (\<lambda>h. st\<lparr>co_monitorStop := True, co_heap := h\<rparr>)
       (fold_opt (\<lambda>h s. map_option (\<lambda>cs. h(s \<mapsto> cs\<lparr>ac_closing := True\<rparr>)) (h s)) (co_heap st) (co_active st))"

text \<open>\<open>tmuxremote_control_stream_listener_deinit\<close>: detach the list, then release it.\<close>

definition deinit_detach :: "control \<Rightarrow> control" where
  "deinit_detach st = st\<lparr>co_detached := co_active st, co_active := [], co_deinit := True\<rparr>"

definition deinit_release :: "control \<Rightarrow> control option option" where
  "deinit_release st =
     (case co_detached st of
        [] \<Rightarrow> Some None
      | s # ss \<Rightarrow>
          if release_waits st None s then Some None
          else map_option (\<lambda>h. Some (st\<lparr>co_heap := h, co_detached := ss\<rparr>))
                 (control_stream_release_impl (co_heap st) s))"

section \<open>Interleaving\<close>

inductive cstep :: "control \<Rightarrow> control \<Rightarrow> bool" where
  new_stream: "cstep st (stream_callback st)"
| accepted: "s \<in> set (co_opening st) \<Longrightarrow> stream_accepted result started s st = Some st' \<Longrightarrow> cstep st st'"
| listed: "s \<in> set (co_accepted st) \<Longrightarrow> \<not> list_locked st \<Longrightarrow> cstep st (stream_listed started s st)"
| reader_resolves: "s \<in> co_readers st \<Longrightarrow> Reader s \<notin> fst ` set (co_calls st) \<Longrightarrow> co_heap st s = Some cs \<Longrightarrow>
     tmuxremote_control_stream_send_prompt_gone_for_ref e (ac_ref cs) instance_id = Some c \<Longrightarrow>
     cstep st (st\<lparr>co_calls := (Reader s, c) # co_calls st\<rparr>)"
| reader_ends: "s \<in> co_readers st \<Longrightarrow> Reader s \<notin> fst ` set (co_calls st) \<Longrightarrow> co_heap st s = Some cs \<Longrightarrow>
     cstep st (st\<lparr>co_heap := (co_heap st)(s \<mapsto> cs\<lparr>ac_closing := True\<rparr>), co_readers := co_readers st - {s}\<rparr>)"
| pty_reports: "Pty n \<notin> fst ` set (co_calls st) \<Longrightarrow>
     tmuxremote_control_stream_send_prompt_present_for_ref e ref i = Some c \<or>
     tmuxremote_control_stream_send_prompt_update_for_ref e ref i = Some c \<or>
     tmuxremote_control_stream_send_prompt_gone_for_ref e ref instance_id = Some c \<Longrightarrow>
     cstep st (st\<lparr>co_calls := (Pty n, c) # co_calls st\<rparr>)"
| call: "co_calls st = xs @ (t, c) # ys \<Longrightarrow> send_to_ref e t c st = Some (Some (st', c')) \<Longrightarrow>
     cstep st (st'\<lparr>co_calls := xs @ (case c' of None \<Rightarrow> [] | Some d \<Rightarrow> [(t, d)]) @ ys\<rparr>)"
| monitor: "monitor_thread_func e st = Some (Some st') \<Longrightarrow> cstep st st'"
| stop_flag: "cstep st (st\<lparr>co_monitorStop := True\<rparr>)"
| stop: "\<not> list_locked st \<Longrightarrow> tmuxremote_control_stream_listener_stop st = Some st' \<Longrightarrow> cstep st st'"
| detach: "co_monitorStop st \<Longrightarrow> co_monitor st \<in> {MonOff, MonExited} \<Longrightarrow> \<not> co_deinit st \<Longrightarrow>
     cstep st (deinit_detach st)"
| release: "deinit_release st = Some (Some st') \<Longrightarrow> cstep st st'"

inductive creachable :: "control \<Rightarrow> bool" where
  init: "creachable tmuxremote_control_stream_listener_init"
| step: "creachable st \<Longrightarrow> cstep st st' \<Longrightarrow> creachable st'"

section \<open>Reference counts\<close>

text \<open>The references to streams that exist in a state.\<close>

fun monitor_held :: "monitor_pc \<Rightarrow> nat list" where
  "monitor_held (MonSessions _ _ ss) = ss"
| "monitor_held (MonSending _ _ ss) = ss"
| "monitor_held (MonDropping ss) = ss"
| "monitor_held (MonPrompt ss) = ss"
| "monitor_held (MonPromptRelease s ss) = s # ss"
| "monitor_held _ = []"

fun call_held :: "call \<Rightarrow> nat list" where
  "call_held (WantsTargets _ _) = []"
| "call_held (Sending ss _) = ss"
| "call_held (Releasing ss _) = ss"

definition calls_held :: "(thread \<times> call) list \<Rightarrow> nat multiset" where
  "calls_held cs = sum_list (map (\<lambda>(_, c). mset (call_held c)) cs)"

definition references :: "control \<Rightarrow> nat multiset" where
  "references st = mset (co_opening st) + mset (co_accepted st) + mset (co_active st) +
     mset (co_detached st) + mset (monitor_held (co_monitor st)) + calls_held (co_calls st)"

text \<open>A heap in which every stream is allocated exactly as long as it is referenced.\<close>

definition ref_count :: "stream_heap \<Rightarrow> nat \<Rightarrow> nat" where
  "ref_count h s = (case h s of None \<Rightarrow> 0 | Some cs \<Rightarrow> ac_refCount cs)"

definition counted :: "stream_heap \<Rightarrow> nat multiset \<Rightarrow> bool" where
  "counted h M \<longleftrightarrow> ref_count h = count M \<and> dom h = set_mset M"

lemma ref_count_upd [simp]:
  "ref_count (h(s \<mapsto> cs)) = (ref_count h)(s := ac_refCount cs)"
  "ref_count (h(s := None)) = (ref_count h)(s := 0)"
  by (auto simp: ref_count_def)

lemma counted_count:
  assumes "counted h M" and "h s = Some cs"
  shows "ac_refCount cs = count M s \<and> s \<in># M"
proof -
  have "ref_count h s = count M s" "s \<in> dom h \<longleftrightarrow> s \<in># M" using assms(1) by (simp_all add: counted_def)
  with assms(2) show ?thesis by (simp add: ref_count_def domIff)
qed

lemma counted_allocated:
  assumes "counted h M" and "s \<in># M"
  shows "\<exists>cs. h s = Some cs \<and> ac_refCount cs = count M s"
proof -
  have "s \<in> dom h" using assms by (simp add: counted_def)
  then show ?thesis using counted_count [OF assms(1)] by blast
qed

lemma counted_not: "counted h M \<Longrightarrow> s \<notin># M \<Longrightarrow> h s = None"
  by (auto simp: counted_def)

lemma count_add: "count (add_mset s M) = (count M)(s := Suc (count M s))"
  by auto

lemma counted_update:
  "counted h M \<Longrightarrow> h s = Some cs \<Longrightarrow> ac_refCount cs' = ac_refCount cs \<Longrightarrow> counted (h(s \<mapsto> cs')) M"
  using counted_count [of h M s cs] by (auto simp: counted_def insert_absorb)

lemma counted_new:
  "counted h M \<Longrightarrow> s \<notin># M \<Longrightarrow> ac_refCount cs = 1 \<Longrightarrow> counted (h(s \<mapsto> cs)) (add_mset s M)"
  by (simp add: counted_def count_add not_in_iff)

lemma counted_retain:
  "counted h M \<Longrightarrow> h s = Some cs \<Longrightarrow> ac_refCount cs' = Suc (ac_refCount cs) \<Longrightarrow>
     counted (h(s \<mapsto> cs')) (add_mset s M)"
  using counted_count [of h M s cs] by (simp add: counted_def count_add)

lemma counted_release:
  assumes "counted h (add_mset s M)"
  shows "\<exists>h'. control_stream_release_impl h s = Some h' \<and> counted h' M"
proof -
  from counted_allocated [OF assms, of s] obtain cs where cs: "h s = Some cs"
    "ac_refCount cs = Suc (count M s)" by auto
  from assms have "ref_count h = (count M)(s := Suc (count M s))" "dom h = insert s (set_mset M)"
    by (simp_all add: counted_def count_add)
  note h = this
  show ?thesis
  proof (cases "s \<in># M")
    case True
    then obtain n where "count M s = Suc n" by (metis count_eq_zero_iff not0_implies_Suc)
    with True cs h show ?thesis
      by (auto simp: control_stream_release_impl_def counted_def insert_absorb)
  next
    case False
    then have "count M s = 0" by (simp add: not_in_iff)
    with False cs h show ?thesis
      by (simp add: control_stream_release_impl_def counted_def fun_upd_idem)
  qed
qed

lemma collect_counted:
  assumes "counted h M" and "set ss \<subseteq> set_mset M"
    and upd: "\<And>cs. ac_refCount (upd cs) = Suc (ac_refCount cs)"
  shows "\<exists>h' out. collect test upd cap h ss = Some (h', out) \<and> counted h' (mset out + M) \<and>
    set out \<subseteq> set ss"
  using assms(1,2)
proof (induction ss arbitrary: h M cap)
  case (Cons s ss)
  from counted_allocated [OF Cons.prems(1), of s] Cons.prems(2) obtain cs where cs: "h s = Some cs" by auto
  show ?case
  proof (cases "cap \<noteq> 0 \<and> test cs")
    case True
    have "counted (h(s \<mapsto> upd cs)) (add_mset s M)" by (rule counted_retain [OF Cons.prems(1) cs upd])
    from Cons.IH [OF this, of "cap - 1"] Cons.prems(2) obtain h' out where IH:
      "collect test upd (cap - 1) (h(s \<mapsto> upd cs)) ss = Some (h', out)"
      "counted h' (mset out + add_mset s M)" "set out \<subseteq> set ss" by (auto simp del: fun_upd_apply)
    with True cs show ?thesis by (intro exI [of _ h'] exI [of _ "s # out"]) auto
  next
    case False
    from Cons.IH [OF Cons.prems(1), of cap] Cons.prems obtain h' out where
      "collect test upd cap h ss = Some (h', out)" "counted h' (mset out + M)" "set out \<subseteq> set ss" by auto
    with False cs Cons.prems(1) show ?thesis by auto
  qed
qed simp

lemma broadcast_allocated:
  assumes "counted h M" and "set ss \<subseteq> set_mset M"
  shows "\<exists>out. broadcast_to_all h ss = Some out \<and> set out \<subseteq> set ss"
proof -
  have "\<exists>out. collect test (\<lambda>cs. cs) cap h ss = Some (h, out) \<and> set out \<subseteq> set ss" for test cap
    using assms(2)
  proof (induction ss arbitrary: cap)
    case (Cons s ss)
    from counted_allocated [OF assms(1), of s] Cons.prems obtain cs where cs: "h s = Some cs" by auto
    have h: "h(s \<mapsto> cs) = h" using cs by auto
    from Cons.IH [of cap] Cons.IH [of "cap - 1"] Cons.prems obtain a b where
      "collect test (\<lambda>cs. cs) cap h ss = Some (h, a)" "set a \<subseteq> set ss"
      "collect test (\<lambda>cs. cs) (cap - 1) h ss = Some (h, b)" "set b \<subseteq> set ss" by auto
    with cs h show ?case by auto
  qed simp
  then show ?thesis unfolding broadcast_to_all_def by fastforce
qed

lemma send_counted:
  assumes "counted (co_heap st) M" and "s \<in># M"
  shows "\<exists>h l. send_to_stream wr s data st = Some (st\<lparr>co_heap := h, co_sent := l\<rparr>) \<and> counted h M"
proof -
  from counted_allocated [OF assms] obtain cs where cs: "co_heap st s = Some cs" by blast
  let ?h = "(co_heap st)(s \<mapsto> cs\<lparr>ac_closing := True\<rparr>)"
  have closed: "counted ?h M" by (rule counted_update [OF assms(1) cs]) simp
  show ?thesis
  proof (cases "ac_closing cs \<or> wr = NoFuture")
    case True
    with cs assms(1) show ?thesis
      by (intro exI [of _ "co_heap st"] exI [of _ "co_sent st"]) (auto simp: send_to_stream_def)
  next
    case False
    show ?thesis
    proof (cases wr)
      case Written
      with False cs assms(1) show ?thesis
        by (intro exI [of _ "co_heap st"] exI [of _ "co_sent st @ [(s, data)]"]) (simp add: send_to_stream_def)
    next
      case WriteFailed
      with False cs closed show ?thesis
        by (intro exI [of _ ?h] exI [of _ "co_sent st"]) (simp add: send_to_stream_def)
    qed (use False in simp)
  qed
qed

section \<open>Invariant\<close>

definition pc_ok :: "monitor_pc \<Rightarrow> nat list \<Rightarrow> bool" where
  "pc_ok pc active = (case pc of
        MonSending ts _ ss \<Rightarrow> set ts \<subseteq> set active \<union> set ss
      | MonPrune kept rest \<Rightarrow> active = kept @ rest
      | _ \<Rightarrow> True)"

definition wf_control :: "control \<Rightarrow> bool" where
  "wf_control st \<longleftrightarrow>
     counted (co_heap st) (references st) \<and> (\<forall>s \<in># references st. s < co_next st) \<and>
     pc_ok (co_monitor st) (co_active st) \<and>
     (co_deinit st \<longrightarrow> co_monitorStop st \<and> co_monitor st \<in> {MonOff, MonTop, MonExited}) \<and>
     (\<not> co_deinit st \<longrightarrow> co_detached st = [])"

lemma calls_held_simps [simp]:
  "calls_held [] = {#}" "calls_held ((t, c) # cs) = mset (call_held c) + calls_held cs"
  "calls_held (xs @ ys) = calls_held xs + calls_held ys"
  by (simp_all add: calls_held_def)

definition held_after :: "call option \<Rightarrow> nat list" where
  "held_after c = (case c of None \<Rightarrow> [] | Some d \<Rightarrow> call_held d)"

text \<open>What the references of a thread other than the monitor do in one of its steps.\<close>

definition call_ok :: "nat multiset \<Rightarrow> control \<Rightarrow> (control \<times> call option) option option \<Rightarrow> bool" where
  "call_ok M st r \<longleftrightarrow> r = Some None \<or>
     (\<exists>h l c'. r = Some (Some (st\<lparr>co_heap := h, co_sent := l\<rparr>, c')) \<and> counted h (mset (held_after c') + M) \<and>
        set (held_after c') \<subseteq> dom (co_heap st))"

lemma call_okI:
  "counted h (mset (held_after c') + M) \<Longrightarrow> set (held_after c') \<subseteq> dom (co_heap st) \<Longrightarrow>
     call_ok M st (Some (Some (st\<lparr>co_heap := h, co_sent := l\<rparr>, c')))"
  unfolding call_ok_def by blast

lemma call_okI_heap:
  "counted h (mset (held_after c') + M) \<Longrightarrow> set (held_after c') \<subseteq> dom (co_heap st) \<Longrightarrow>
     call_ok M st (Some (Some (st\<lparr>co_heap := h\<rparr>, c')))"
  using call_okI [of h c' M st "co_sent st"] by simp

lemma call_ok_return: "counted (co_heap st) M \<Longrightarrow> call_ok M st (Some (Some (st, None)))"
  using call_okI_heap [of "co_heap st" None M st] by (simp add: held_after_def)

lemma retain_count: "ac_refCount (control_stream_retain cs) = Suc (ac_refCount cs)"
  by (simp add: control_stream_retain_def)

lemma send_to_ref_counted:
  assumes c: "counted (co_heap st) (mset (call_held c) + M)" and active: "set (co_active st) \<subseteq> set_mset M"
  shows "call_ok M st (send_to_ref e t c st)"
proof (cases c)
  case (WantsTargets ref data)
  show ?thesis
  proof (cases "list_locked st")
    case True
    with WantsTargets show ?thesis by (simp add: send_to_ref_def call_ok_def)
  next
    case False
    from collect_counted [OF _ active retain_count, of "co_heap st"] c WantsTargets obtain h out where
      *: "collect_targets_for_ref ref (co_heap st) (co_active st) = Some (h, out)"
      "counted h (mset out + M)" "set out \<subseteq> set (co_active st)"
      unfolding collect_targets_for_ref_def by fastforce
    have "set out \<subseteq> dom (co_heap st)" using *(3) active c by (auto simp: counted_def)
    with * False WantsTargets show ?thesis
      by (auto simp: send_to_ref_def held_after_def intro!: call_okI_heap)
  qed
next
  case (Sending ss data)
  show ?thesis
  proof (cases ss)
    case Nil
    with c Sending show ?thesis by (simp add: send_to_ref_def call_ok_return)
  next
    case (Cons s rest)
    with c Sending have "s \<in># mset (call_held c) + M" by simp
    from send_counted [OF c this, of "en_write e" data] obtain h l where
      *: "send_to_stream (en_write e) s data st = Some (st\<lparr>co_heap := h, co_sent := l\<rparr>)"
      "counted h (mset (call_held c) + M)" by blast
    have "set ss \<subseteq> dom (co_heap st)" using c Sending by (auto simp: counted_def)
    with * Sending Cons show ?thesis
      by (auto simp: send_to_ref_def held_after_def intro!: call_okI)
  qed
next
  case (Releasing ss data)
  show ?thesis
  proof (cases ss)
    case Nil
    with c Releasing show ?thesis by (simp add: send_to_ref_def call_ok_return)
  next
    case (Cons s rest)
    with c Releasing have "counted (co_heap st) (add_mset s (mset rest + M))" by simp
    from counted_release [OF this] obtain h where
      *: "control_stream_release_impl (co_heap st) s = Some h" "counted h (mset rest + M)" by blast
    have "set rest \<subseteq> dom (co_heap st)" using c Releasing Cons by (auto simp: counted_def)
    with * Releasing Cons show ?thesis
      by (cases "release_waits st (Some t) s")
         (auto simp: send_to_ref_def held_after_def call_ok_def [of _ _ "Some None"] intro!: call_okI_heap)
  qed
qed

text \<open>The same for the monitor.\<close>

definition others :: "control \<Rightarrow> nat multiset" where
  "others st = mset (co_opening st) + mset (co_accepted st) + mset (co_detached st) + calls_held (co_calls st)"

lemma references_monitor:
  "references st = mset (monitor_held (co_monitor st)) + (mset (co_active st) + others st)"
  by (simp add: references_def others_def ac_simps)

definition monitor_fine :: "control option option \<Rightarrow> bool" where
  "monitor_fine r \<longleftrightarrow> r = Some None \<or> (\<exists>st'. r = Some (Some st') \<and> wf_control st')"

lemma wf_monitorI:
  assumes "wf_control st" and "\<not> co_deinit st"
    and "co_opening st' = co_opening st" "co_accepted st' = co_accepted st" "co_detached st' = co_detached st"
      "co_calls st' = co_calls st" "co_next st' = co_next st" "co_deinit st' = co_deinit st"
    and "counted (co_heap st') (mset (monitor_held (co_monitor st')) + (mset (co_active st') + others st))"
    and "set (monitor_held (co_monitor st')) \<subseteq> dom (co_heap st)" and "set (co_active st') \<subseteq> set (co_active st)"
    and "pc_ok (co_monitor st') (co_active st')"
  shows "wf_control st'"
proof -
  have "others st' = others st" using assms(3-6) by (simp add: others_def)
  moreover have "dom (co_heap st) = set_mset (references st)" "\<forall>s \<in># references st. s < co_next st"
    using assms(1) by (simp_all add: wf_control_def counted_def)
  ultimately show ?thesis
    using assms unfolding wf_control_def references_monitor by auto
qed

lemma monitor_release_fine:
  assumes wf: "wf_control st" and "\<not> co_deinit st"
    and "mset (monitor_held (co_monitor st)) = add_mset s (mset (monitor_held pc))"
    and "pc_ok pc (co_active st)"
  shows "monitor_fine (monitor_release s pc st)"
proof (cases "release_waits st None s")
  case True
  then show ?thesis by (simp add: monitor_release_def monitor_fine_def)
next
  case False
  let ?M = "mset (monitor_held pc) + (mset (co_active st) + others st)"
  have c: "counted (co_heap st) (add_mset s ?M)"
    using wf assms(3) by (simp add: wf_control_def references_monitor)
  then obtain h where h: "control_stream_release_impl (co_heap st) s = Some h" "counted h ?M"
    using counted_release by blast
  have "wf_control (st\<lparr>co_heap := h, co_monitor := pc\<rparr>)"
    using h(2) c assms(4) by (intro wf_monitorI [OF wf assms(2)]) (auto simp: counted_def)
  with False h(1) show ?thesis by (simp add: monitor_release_def monitor_fine_def)
qed

lemma monitor_prune_fine:
  assumes wf: "wf_control st" and "\<not> co_deinit st" and pc: "co_monitor st = MonPrune kept (s # rest)"
  shows "monitor_fine (monitor_prune kept s rest st)"
proof -
  have active: "co_active st = kept @ s # rest" and c: "counted (co_heap st) (references st)"
    using wf pc by (simp_all add: wf_control_def pc_ok_def)
  let ?M = "mset (kept @ rest) + others st"
  have c': "counted (co_heap st) (add_mset s ?M)"
    using c pc active by (simp add: references_monitor ac_simps)
  then obtain h where h: "control_stream_release_impl (co_heap st) s = Some h" "counted h ?M"
    using counted_release by blast
  from counted_allocated [OF c', of s] obtain cs where cs: "co_heap st s = Some cs" by auto
  have "wf_control (st\<lparr>co_heap := h, co_active := kept @ rest, co_monitor := MonPrune kept rest\<rparr>)"
    using h(2) active by (intro wf_monitorI [OF wf assms(2)]) (auto simp: pc_ok_def)
  moreover have "wf_control (st\<lparr>co_monitor := MonPrune (kept @ [s]) rest\<rparr>)"
    using c pc active
    by (intro wf_monitorI [OF wf assms(2)]) (auto simp: pc_ok_def references_monitor)
  ultimately show ?thesis using h(1) cs by (simp add: monitor_prune_def monitor_fine_def)
qed

lemma monitor_collect:
  assumes wf: "wf_control st" and "\<not> co_deinit st" and "monitor_held (co_monitor st) = []"
    and upd: "\<And>cs. ac_refCount (upd cs) = Suc (ac_refCount cs)"
  shows "\<exists>h out. collect test upd cap (co_heap st) (co_active st) = Some (h, out) \<and>
    (\<forall>pc p. monitor_held pc = out \<longrightarrow> pc_ok pc (co_active st) \<longrightarrow>
       wf_control (st\<lparr>co_heap := h, co_prev := p, co_monitor := pc\<rparr>))"
proof -
  have c: "counted (co_heap st) (mset (co_active st) + others st)"
    using wf assms(3) by (simp add: wf_control_def references_monitor)
  from collect_counted [OF c _ upd, of "co_active st" test cap] obtain h out where
    *: "collect test upd cap (co_heap st) (co_active st) = Some (h, out)"
    "counted h (mset out + (mset (co_active st) + others st))" "set out \<subseteq> set (co_active st)" by auto
  have "wf_control (st\<lparr>co_heap := h, co_prev := p, co_monitor := pc\<rparr>)"
    if "monitor_held pc = out" "pc_ok pc (co_active st)" for pc p
    using that * c by (intro wf_monitorI [OF wf assms(2)]) (auto simp: counted_def)
  with *(1) show ?thesis by blast
qed

lemma monitor_send:
  assumes wf: "wf_control st" and nd: "\<not> co_deinit st" and s: "s \<in># references st"
    and same: "monitor_held pc = monitor_held (co_monitor st)" and ok: "pc_ok pc (co_active st)"
  shows "\<exists>st'. send_to_stream wr s data st = Some st' \<and> wf_control (st'\<lparr>co_monitor := pc\<rparr>)"
proof -
  have c: "counted (co_heap st) (references st)" using wf by (simp add: wf_control_def)
  from send_counted [OF c s] obtain h l where
    *: "send_to_stream wr s data st = Some (st\<lparr>co_heap := h, co_sent := l\<rparr>)" "counted h (references st)" by blast
  have "wf_control (st\<lparr>co_heap := h, co_sent := l, co_monitor := pc\<rparr>)"
    using *(2) c same ok unfolding references_monitor
    by (intro wf_monitorI [OF wf nd]) (auto simp: counted_def)
  with *(1) show ?thesis by simp
qed

lemma monitor_goto:
  assumes wf: "wf_control st" and nd: "\<not> co_deinit st"
    and same: "monitor_held pc = monitor_held (co_monitor st)" and ok: "pc_ok pc (co_active st)"
  shows "wf_control (st\<lparr>co_prev := p, co_monitor := pc\<rparr>)" "wf_control (st\<lparr>co_monitor := pc\<rparr>)"
proof -
  have c: "counted (co_heap st) (references st)" using wf by (simp add: wf_control_def)
  show "wf_control (st\<lparr>co_prev := p, co_monitor := pc\<rparr>)" "wf_control (st\<lparr>co_monitor := pc\<rparr>)"
    using c same ok unfolding references_monitor
    by (intro wf_monitorI [OF wf nd]; auto simp: counted_def)+
qed

lemma monitor_poll_fine:
  assumes wf: "wf_control st" and pc: "co_monitor st = MonTop"
  shows "monitor_fine (map_option Some (monitor_poll e st))"
proof (cases "co_monitorStop st")
  case True
  with wf pc have "wf_control (st\<lparr>co_monitor := MonExited\<rparr>)"
    by (simp add: wf_control_def references_def pc_ok_def)
  with True show ?thesis by (simp add: monitor_poll_def monitor_fine_def)
next
  case False
  with wf have nd: "\<not> co_deinit st" by (auto simp: wf_control_def)
  have "ac_refCount ((control_stream_retain cs)\<lparr>ac_needsSessionSync := False\<rparr>) = Suc (ac_refCount cs)" for cs
    by (simp add: retain_count)
  from monitor_collect [OF wf nd _ this] pc obtain h out where
    *: "collect (\<lambda>cs. ac_needsSessionSync cs \<and> \<not> ac_closing cs)
       (\<lambda>cs. (control_stream_retain cs)\<lparr>ac_needsSessionSync := False\<rparr>)
       MAX_CONTROL_STREAMS (co_heap st) (co_active st) = Some (h, out)"
    "\<And>pc p. monitor_held pc = out \<Longrightarrow> pc_ok pc (co_active st) \<Longrightarrow>
       wf_control (st\<lparr>co_heap := h, co_prev := p, co_monitor := pc\<rparr>)" by fastforce
  have "wf_control (st\<lparr>co_heap := h, co_prev := p, co_monitor := MonSessions ch m out\<rparr>)" for p ch m
    by (rule *(2)) (simp_all add: pc_ok_def)
  with *(1) False show ?thesis by (simp add: monitor_poll_def monitor_fine_def Let_def)
qed

lemma monitor_sessions_fine:
  assumes wf: "wf_control st" and nd: "\<not> co_deinit st" and pc: "co_monitor st = MonSessions ch m ss"
  shows "monitor_fine (map_option Some (monitor_sessions ch m ss st))"
proof -
  have c: "counted (co_heap st) (references st)" using wf by (simp add: wf_control_def)
  have "set (co_active st) \<subseteq> set_mset (references st)" by (auto simp: references_def)
  from broadcast_allocated [OF c this] obtain out where
    b: "broadcast_to_all (co_heap st) (co_active st) = Some out" "set out \<subseteq> set (co_active st)" by blast
  note go = monitor_goto(2) [OF wf nd]
  have "wf_control (st\<lparr>co_monitor := MonSending out d ss\<rparr>)" "wf_control (st\<lparr>co_monitor := MonSending ss d ss\<rparr>)"
    "wf_control (st\<lparr>co_monitor := MonDropping ss\<rparr>)" for d
    using b(2) pc by (auto intro!: go simp: pc_ok_def)
  with b(1) show ?thesis by (simp add: monitor_sessions_def monitor_fine_def split: option.split)
qed

lemma monitor_prompts_fine:
  assumes wf: "wf_control st" and nd: "\<not> co_deinit st" and pc: "co_monitor st = MonPrompts"
  shows "monitor_fine (map_option Some (monitor_prompts st))"
proof -
  have "ac_refCount ((control_stream_retain cs)\<lparr>ac_needsPromptSync := False\<rparr>) = Suc (ac_refCount cs)" for cs
    by (simp add: retain_count)
  from monitor_collect [OF wf nd _ this] pc obtain h out where
    *: "collect (\<lambda>cs. ac_needsPromptSync cs \<and> \<not> ac_closing cs)
       (\<lambda>cs. (control_stream_retain cs)\<lparr>ac_needsPromptSync := False\<rparr>)
       MAX_CONTROL_STREAMS (co_heap st) (co_active st) = Some (h, out)"
    "\<And>pc p. monitor_held pc = out \<Longrightarrow> pc_ok pc (co_active st) \<Longrightarrow>
       wf_control (st\<lparr>co_heap := h, co_prev := p, co_monitor := pc\<rparr>)" by fastforce
  have "wf_control (st\<lparr>co_heap := h, co_prev := co_prev st, co_monitor := MonPrompt out\<rparr>)"
    by (rule *(2)) (simp_all add: pc_ok_def)
  with *(1) show ?thesis by (simp add: monitor_prompts_def monitor_fine_def)
qed

lemma monitor_prompt_fine:
  assumes wf: "wf_control st" and nd: "\<not> co_deinit st" and pc: "co_monitor st = MonPrompt (s # ss)"
  shows "monitor_fine (map_option Some (monitor_prompt e s ss st))"
proof -
  have c: "counted (co_heap st) (references st)" using wf by (simp add: wf_control_def)
  have s: "s \<in># references st" using pc by (simp add: references_def)
  from counted_allocated [OF c s] obtain cs where cs: "co_heap st s = Some cs" by blast
  have "wf_control (st\<lparr>co_monitor := MonPromptRelease s ss\<rparr>)"
    by (rule monitor_goto(2) [OF wf nd]) (simp_all add: pc pc_ok_def)
  moreover have "\<exists>st'. send_to_stream (en_write e) s m st = Some st' \<and>
      wf_control (st'\<lparr>co_monitor := MonPromptRelease s ss\<rparr>)" for m
    by (rule monitor_send [OF wf nd s]) (simp_all add: pc pc_ok_def)
  ultimately show ?thesis
    using cs by (fastforce simp: monitor_prompt_def monitor_fine_def split: option.splits)
qed

lemma fineI: "wf_control st' \<Longrightarrow> monitor_fine (Some (Some st'))"
  by (simp add: monitor_fine_def)

lemma monitor_sending_fine:
  assumes wf: "wf_control st" and nd: "\<not> co_deinit st" and pc: "co_monitor st = MonSending ts data ss"
  shows "monitor_fine (monitor_thread_func e st)"
proof (cases ts)
  case Nil
  have "wf_control (st\<lparr>co_monitor := MonDropping ss\<rparr>)"
    by (rule monitor_goto(2) [OF wf nd]) (simp_all add: pc pc_ok_def)
  with pc Nil show ?thesis by (simp add: monitor_thread_func_def fineI)
next
  case (Cons t ts')
  have sub: "set ts \<subseteq> set (co_active st) \<union> set ss" using wf pc by (simp add: wf_control_def pc_ok_def)
  then have t: "t \<in># references st" using pc Cons by (auto simp: references_def)
  have "\<exists>st'. send_to_stream (en_write e) t data st = Some st' \<and>
      wf_control (st'\<lparr>co_monitor := MonSending ts' data ss\<rparr>)"
    using sub Cons pc by (intro monitor_send [OF wf nd t]) (auto simp: pc_ok_def)
  with pc Cons show ?thesis by (auto simp: monitor_thread_func_def fineI)
qed

lemma monitor_dropping_fine:
  assumes wf: "wf_control st" and nd: "\<not> co_deinit st" and pc: "co_monitor st = MonDropping ss"
  shows "monitor_fine (monitor_thread_func e st)"
proof (cases ss)
  case Nil
  have "wf_control (st\<lparr>co_monitor := MonPrompts\<rparr>)"
    by (rule monitor_goto(2) [OF wf nd]) (simp_all add: pc Nil pc_ok_def)
  with pc Nil show ?thesis by (simp add: monitor_thread_func_def fineI)
next
  case (Cons s ss')
  with pc show ?thesis
    using monitor_release_fine [OF wf nd, of s "MonDropping ss'"] by (simp add: monitor_thread_func_def pc_ok_def)
qed

lemma monitor_prompting_fine:
  assumes wf: "wf_control st" and nd: "\<not> co_deinit st" and pc: "co_monitor st = MonPrompt ss"
  shows "monitor_fine (monitor_thread_func e st)"
proof (cases ss)
  case Nil
  have "wf_control (st\<lparr>co_monitor := MonPrune [] (co_active st)\<rparr>)"
    by (rule monitor_goto(2) [OF wf nd]) (simp_all add: pc Nil pc_ok_def)
  with pc Nil show ?thesis by (simp add: monitor_thread_func_def fineI)
next
  case (Cons s ss')
  with pc show ?thesis using monitor_prompt_fine [OF wf nd] by (simp add: monitor_thread_func_def)
qed

lemma monitor_pruning_fine:
  assumes wf: "wf_control st" and nd: "\<not> co_deinit st" and pc: "co_monitor st = MonPrune kept rest"
  shows "monitor_fine (monitor_thread_func e st)"
proof (cases rest)
  case Nil
  have "wf_control (st\<lparr>co_prev := p, co_monitor := MonWait\<rparr>)" for p
    by (rule monitor_goto(1) [OF wf nd]) (simp_all add: pc pc_ok_def)
  with pc Nil show ?thesis by (simp add: monitor_thread_func_def fineI)
next
  case (Cons s rest')
  with pc show ?thesis using monitor_prune_fine [OF wf nd] by (simp add: monitor_thread_func_def)
qed

lemma monitor_thread_fine:
  assumes wf: "wf_control st"
  shows "monitor_fine (monitor_thread_func e st)"
proof -
  have nd: "\<not> co_deinit st" if "co_monitor st \<notin> {MonOff, MonTop, MonExited}"
    using wf that by (auto simp: wf_control_def)
  show ?thesis
  proof (cases "co_monitor st")
    case (MonPromptRelease s ss)
    then show ?thesis
      using monitor_release_fine [OF wf nd, of s "MonPrompt ss"] by (simp add: monitor_thread_func_def pc_ok_def)
  next
    case MonWait
    have "wf_control (st\<lparr>co_monitor := MonTop\<rparr>)"
      using MonWait nd by (intro monitor_goto(2) [OF wf]) (simp_all add: pc_ok_def)
    with MonWait show ?thesis by (simp add: monitor_thread_func_def fineI)
  qed (use monitor_poll_fine [OF wf, of e] monitor_sessions_fine [OF wf nd] monitor_sending_fine [OF wf nd]
        monitor_dropping_fine [OF wf nd] monitor_prompts_fine [OF wf nd] monitor_prompting_fine [OF wf nd]
        monitor_pruning_fine [OF wf nd] in \<open>simp_all add: monitor_thread_func_def monitor_fine_def [of "Some None"]\<close>)
qed

lemma close_all_counted:
  "counted h M \<Longrightarrow> set ss \<subseteq> set_mset M \<Longrightarrow>
     \<exists>h'. fold_opt (\<lambda>h s. map_option (\<lambda>cs. h(s \<mapsto> cs\<lparr>ac_closing := True\<rparr>)) (h s)) h ss = Some h' \<and> counted h' M"
proof (induction ss arbitrary: h)
  case (Cons s ss)
  then obtain cs where cs: "h s = Some cs" using counted_allocated [of h M s] by auto
  have "counted (h(s \<mapsto> cs\<lparr>ac_closing := True\<rparr>)) M" by (rule counted_update [OF Cons.prems(1) cs]) simp
  from Cons.IH [OF this] Cons.prems(2) cs show ?case by simp
qed simp

lemma stop_fine:
  assumes "wf_control st"
  shows "\<exists>st'. tmuxremote_control_stream_listener_stop st = Some st' \<and> wf_control st'"
proof -
  have "counted (co_heap st) (references st)" "set (co_active st) \<subseteq> set_mset (references st)"
    using assms by (auto simp: wf_control_def references_def)
  from close_all_counted [OF this] assms show ?thesis
    by (auto simp: tmuxremote_control_stream_listener_stop_def wf_control_def references_def)
qed

lemma deinit_release_fine:
  assumes wf: "wf_control st"
  shows "monitor_fine (deinit_release st)"
proof (cases "co_detached st")
  case Nil
  then show ?thesis by (simp add: deinit_release_def monitor_fine_def)
next
  case (Cons s ss)
  let ?M = "references (st\<lparr>co_detached := ss\<rparr>)"
  have refs: "references st = add_mset s ?M" using Cons by (simp add: references_def)
  then have "counted (co_heap st) (add_mset s ?M)" using wf by (simp add: wf_control_def)
  from counted_release [OF this] obtain h where
    h: "control_stream_release_impl (co_heap st) s = Some h" "counted h ?M" by blast
  have "references (st\<lparr>co_heap := h, co_detached := ss\<rparr>) = ?M" by (simp add: references_def)
  with wf h(2) refs have "wf_control (st\<lparr>co_heap := h, co_detached := ss\<rparr>)"
    using Cons by (auto simp: wf_control_def)
  with h(1) Cons show ?thesis by (simp add: deinit_release_def monitor_fine_def)
qed

lemma new_call_held:
  "tmuxremote_control_stream_send_prompt_present_for_ref e ref i = Some c \<Longrightarrow> call_held c = []"
  "tmuxremote_control_stream_send_prompt_update_for_ref e ref i = Some c \<Longrightarrow> call_held c = []"
  "tmuxremote_control_stream_send_prompt_gone_for_ref e ref iid = Some c \<Longrightarrow> call_held c = []"
  by (auto simp: tmuxremote_control_stream_send_prompt_present_for_ref_def
      tmuxremote_control_stream_send_prompt_update_for_ref_def
      tmuxremote_control_stream_send_prompt_gone_for_ref_def)

lemma new_call_wf: "wf_control st \<Longrightarrow> call_held c = [] \<Longrightarrow> wf_control (st\<lparr>co_calls := (t, c) # co_calls st\<rparr>)"
  by (simp add: wf_control_def references_def)

lemma new_stream_wf:
  assumes wf: "wf_control st"
  shows "wf_control (stream_callback st)"
proof -
  let ?s = "co_next st"
  have refs: "references (stream_callback st) = add_mset ?s (references st)"
    by (simp add: stream_callback_def references_def)
  have "counted (co_heap (stream_callback st)) (add_mset ?s (references st))"
    using wf by (auto simp: stream_callback_def wf_control_def simp del: fun_upd_apply intro!: counted_new)
  with wf show ?thesis
    unfolding wf_control_def refs by (auto simp: stream_callback_def)
qed

lemma accepted_wf:
  assumes wf: "wf_control st" and s: "s \<in> set (co_opening st)"
  shows "\<exists>st'. stream_accepted result started s st = Some st' \<and> wf_control st'"
proof -
  have c: "counted (co_heap st) (references st)" and n: "\<forall>s \<in># references st. s < co_next st"
    using wf by (simp_all add: wf_control_def)
  let ?M = "references (st\<lparr>co_opening := remove1 s (co_opening st)\<rparr>)"
  have refs: "references st = add_mset s ?M"
    using s by (simp add: references_def)
  show ?thesis
  proof (cases result)
    case None
    from counted_release c refs obtain h where
      h: "control_stream_release_impl (co_heap st) s = Some h" "counted h ?M" by metis
    have "references (st\<lparr>co_heap := h, co_opening := remove1 s (co_opening st)\<rparr>) = ?M"
      by (simp add: references_def)
    with wf h(2) refs have "wf_control (st\<lparr>co_heap := h, co_opening := remove1 s (co_opening st)\<rparr>)"
      by (simp add: wf_control_def)
    with h(1) None show ?thesis by (simp add: stream_accepted_def)
  next
    case (Some ref)
    from counted_allocated [OF c, of s] refs obtain cs where cs: "co_heap st s = Some cs" by auto
    let ?h = "(co_heap st)(s \<mapsto> cs\<lparr>ac_ref := ref\<rparr>)"
    have h: "counted ?h (add_mset s ?M)" using c refs by (intro counted_update [of _ _ s cs]) (simp_all add: cs)
    have "references (st\<lparr>co_heap := ?h, co_opening := remove1 s (co_opening st),
        co_accepted := s # co_accepted st, co_readers := r\<rparr>) = add_mset s ?M" for r
      by (simp add: references_def)
    with wf h n refs have "wf_control (st\<lparr>co_heap := ?h, co_opening := remove1 s (co_opening st),
        co_accepted := s # co_accepted st, co_readers := r\<rparr>)" for r
      by (simp add: wf_control_def)
    with cs Some show ?thesis by (simp add: stream_accepted_def)
  qed
qed

lemma listed_wf:
  assumes wf: "wf_control st" and s: "s \<in> set (co_accepted st)" and "\<not> list_locked st"
  shows "wf_control (stream_listed started s st)"
proof -
  let ?st = "st\<lparr>co_accepted := remove1 s (co_accepted st), co_active := s # co_active st\<rparr>"
  have "add_mset s (mset (co_accepted st) - {#s#}) = mset (co_accepted st)"
    using s by (simp add: insert_DiffM)
  then have refs: "references ?st = references st"
    by (simp add: references_def)
  have "pc_ok (co_monitor st) (co_active ?st)"
    using wf assms(3) by (auto simp: wf_control_def pc_ok_def list_locked_def split: monitor_pc.splits)
  with wf refs have st: "wf_control ?st" by (simp add: wf_control_def)
  have "wf_control (?st\<lparr>co_monitor := MonTop\<rparr>)"
    if "co_monitor st = MonOff \<or> co_monitor st = MonExited \<and> co_deinit st"
  proof -
    have "references (?st\<lparr>co_monitor := MonTop\<rparr>) = references ?st" using that by (auto simp: references_def)
    with st that show ?thesis by (auto simp: wf_control_def pc_ok_def)
  qed
  with st show ?thesis by (auto simp: stream_listed_def ensure_monitor_started_def)
qed

lemma call_wf:
  assumes wf: "wf_control st" and calls: "co_calls st = xs @ (t, c) # ys"
    and step: "send_to_ref e t c st = Some (Some (st', c'))"
  shows "wf_control (st'\<lparr>co_calls := xs @ (case c' of None \<Rightarrow> [] | Some d \<Rightarrow> [(t, d)]) @ ys\<rparr>)"
proof -
  let ?M = "references (st\<lparr>co_calls := xs @ ys\<rparr>)"
  have refs: "references st = mset (call_held c) + ?M" using calls by (simp add: references_def)
  have c: "counted (co_heap st) (mset (call_held c) + ?M)" using wf refs by (simp add: wf_control_def)
  have "set (co_active st) \<subseteq> set_mset ?M" by (auto simp: references_def)
  from send_to_ref_counted [OF c this, of e t] step obtain h l where
    *: "st' = st\<lparr>co_heap := h, co_sent := l\<rparr>" "counted h (mset (held_after c') + ?M)"
    "set (held_after c') \<subseteq> dom (co_heap st)" by (auto simp: call_ok_def)
  have "references (st'\<lparr>co_calls := xs @ (case c' of None \<Rightarrow> [] | Some d \<Rightarrow> [(t, d)]) @ ys\<rparr>) =
      mset (held_after c') + ?M"
    by (cases c') (simp_all add: *(1) references_def held_after_def)
  moreover have "dom (co_heap st) = set_mset (references st)" using wf by (simp add: wf_control_def counted_def)
  ultimately show ?thesis using wf * refs by (auto simp: wf_control_def)
qed

lemma cstep_wf: "cstep st st' \<Longrightarrow> wf_control st \<Longrightarrow> wf_control st'"
proof (induction rule: cstep.induct)
  case (reader_ends s st cs)
  then have "counted ((co_heap st)(s \<mapsto> cs\<lparr>ac_closing := True\<rparr>)) (references st)"
    by (intro counted_update) (simp_all add: wf_control_def)
  with reader_ends show ?case by (simp add: wf_control_def references_def)
next
  case (detach st)
  then show ?case by (auto simp: deinit_detach_def wf_control_def references_def pc_ok_def)
next
  case (monitor e st st')
  then show ?case using monitor_thread_fine [of st e] by (simp add: monitor_fine_def)
next
  case (release st st')
  then show ?case using deinit_release_fine [of st] by (simp add: monitor_fine_def)
next
  case (stop st st')
  then show ?case using stop_fine [of st] by auto
next
  case (accepted s st result started st')
  then show ?case using accepted_wf [of st s result started] by auto
next
  case (stop_flag st)
  then show ?case by (simp add: wf_control_def references_def)
qed (auto intro: new_stream_wf listed_wf new_call_wf call_wf dest: new_call_held)

lemma init_wf_control: "wf_control tmuxremote_control_stream_listener_init"
  by (simp add: wf_control_def references_def tmuxremote_control_stream_listener_init_def counted_def
      ref_count_def pc_ok_def fun_eq_iff)

lemma creachable_wf: "creachable st \<Longrightarrow> wf_control st"
  by (induction rule: creachable.induct) (auto intro: init_wf_control cstep_wf)

section \<open>The monitor and a reader wait for each other\<close>

text \<open>
  The monitor holds the list mutex and joins the reader of a closing stream, and that reader
  waits for the mutex because it reports the prompt it has just resolved.
\<close>

definition deadlocked :: "nat \<Rightarrow> control \<Rightarrow> bool" where
  "deadlocked s st \<longleftrightarrow>
     (\<exists>kept rest. co_monitor st = MonPrune kept (s # rest)) \<and>
     (\<exists>cs. co_heap st s = Some cs \<and> ac_closing cs \<and> ac_refCount cs = 1) \<and>
     s \<in> co_readers st \<and> (\<exists>ref data. (Reader s, WantsTargets ref data) \<in> set (co_calls st))"

lemma deadlocked_blocks:
  assumes "deadlocked s st"
  shows "list_locked st" "monitor_thread_func e st = Some None"
    "send_to_ref e t (WantsTargets ref data) st = Some None"
  using assms
  by (auto simp: deadlocked_def list_locked_def monitor_thread_func_def monitor_prune_def
      release_waits_def send_to_ref_def)

text \<open>The stream is referenced by the list alone, so nobody else can touch its count.\<close>

lemma deadlocked_single:
  assumes "deadlocked s st" and wf: "wf_control st"
  shows "s \<notin> set (co_opening st)" "s < co_next st" "\<not> co_deinit st"
    "co_calls st = xs @ (t, c) # ys \<Longrightarrow> s \<notin> set (call_held c)"
proof -
  from assms(1) obtain kept rest cs where
    pc: "co_monitor st = MonPrune kept (s # rest)" and cs: "co_heap st s = Some cs" "ac_refCount cs = 1"
    by (auto simp: deadlocked_def)
  have "count (references st) s = 1"
    using counted_count [of "co_heap st" "references st" s cs] cs wf by (simp add: wf_control_def)
  moreover have "co_active st = kept @ s # rest" using wf pc by (simp add: wf_control_def pc_ok_def)
  ultimately have one: "count (mset (co_opening st)) s = 0 \<and> count (calls_held (co_calls st)) s = 0"
    by (simp add: references_def)
  then show "s \<notin> set (co_opening st)" by (metis count_eq_zero_iff set_mset_mset)
  show "s < co_next st" "\<not> co_deinit st"
    using wf pc cs counted_count [of "co_heap st" "references st" s cs] by (auto simp: wf_control_def)
  show "s \<notin> set (call_held c)" if "co_calls st = xs @ (t, c) # ys"
  proof -
    have "count (mset (call_held c)) s = 0" using one that by simp
    then show ?thesis by (metis count_eq_zero_iff set_mset_mset)
  qed
qed

text \<open>A step of another call leaves the stream alone.\<close>

lemma other_call_keeps:
  assumes "send_to_ref e t c st = Some (Some (st', c'))" and "list_locked st" and "s \<notin> set (call_held c)"
  shows "co_heap st' s = co_heap st s" "co_monitor st' = co_monitor st" "co_readers st' = co_readers st"
  using assms
  by (auto simp: send_to_ref_def send_to_stream_def control_stream_release_impl_def
      split: call.splits list.splits option.splits if_splits write_result.splits)

lemma deadlocked_frame:
  assumes "deadlocked s st" and "co_monitor st' = co_monitor st" and "co_heap st' s = co_heap st s"
    and "s \<in> co_readers st \<Longrightarrow> s \<in> co_readers st'"
    and "\<And>ref data. (Reader s, WantsTargets ref data) \<in> set (co_calls st) \<Longrightarrow>
      (Reader s, WantsTargets ref data) \<in> set (co_calls st')"
  shows "deadlocked s st'"
  using assms unfolding deadlocked_def by metis

lemma accepted_keeps:
  assumes "stream_accepted result started s' st = Some st'" and "s' \<noteq> s"
  shows "co_monitor st' = co_monitor st" "co_heap st' s = co_heap st s"
    "co_readers st \<subseteq> co_readers st'" "co_calls st' = co_calls st"
  using assms
  by (auto simp: stream_accepted_def control_stream_release_impl_def split: option.splits if_splits)

lemma deadlocked_step:
  assumes "cstep st st'" and d: "deadlocked s st" and wf: "wf_control st"
  shows "deadlocked s st'"
  using assms(1)
proof cases
  case (accepted s' result started)
  have "s' \<noteq> s" using deadlocked_single(1) [OF d wf] accepted by auto
  note keeps = accepted_keeps [OF accepted(2) this]
  show ?thesis by (rule deadlocked_frame [OF d keeps(1,2)]) (use keeps in auto)
next
  case (reader_ends s' cs)
  then have "s' \<noteq> s" using d by (auto simp: deadlocked_def image_iff)
  with reader_ends show ?thesis by (intro deadlocked_frame [OF d]) auto
next
  case (call xs t c ys e st1 c')
  have held: "s \<notin> set (call_held c)" by (rule deadlocked_single(4) [OF d wf call(2)])
  note keeps = other_call_keeps [OF call(3) deadlocked_blocks(1) [OF d] held]
  have "(t, c) \<noteq> (Reader s, WantsTargets ref data)" for ref data
    using call(3) deadlocked_blocks(3) [OF d, of e t] by auto
  with call(2) have "(Reader s, WantsTargets ref data) \<in> set (co_calls st) \<Longrightarrow>
      (Reader s, WantsTargets ref data) \<in> set (co_calls st')" for ref data
    unfolding call(1) by auto
  then show ?thesis by (rule deadlocked_frame [OF d, rotated -1]) (simp_all add: call(1) keeps)
next
  case new_stream
  then show ?thesis
    using deadlocked_single(2) [OF d wf] by (intro deadlocked_frame [OF d]) (auto simp: stream_callback_def)
next
  case release
  then show ?thesis
    using wf deadlocked_single(3) [OF d wf] by (auto simp: wf_control_def deinit_release_def)
next
  case (monitor e)
  then show ?thesis using deadlocked_blocks(2) [OF d] by simp
next
  case detach
  then show ?thesis using d by (auto simp: deadlocked_def)
qed (use deadlocked_blocks(1) [OF d] in \<open>auto intro: deadlocked_frame [OF d]\<close>)

lemma deadlock_is_permanent:
  assumes "cstep\<^sup>*\<^sup>* st st'" and "deadlocked s st" and "wf_control st"
  shows "deadlocked s st'"
  using assms by (induction rule: converse_rtranclp_induct) (auto dest: deadlocked_step cstep_wf)

section \<open>Two runs\<close>

text \<open>A device with one control stream, on connection 7, whose reader is running.\<close>

definition stream_7 :: "bool \<Rightarrow> bool \<Rightarrow> nat \<Rightarrow> control_stream" where
  "stream_7 closing sync n = \<lparr>ac_ref = 7, ac_closing = closing, ac_needsPromptSync = True,
     ac_needsSessionSync = sync, ac_refCount = n\<rparr>"

definition scene :: "control_stream option \<Rightarrow> nat list \<Rightarrow> (thread \<times> call) list \<Rightarrow> monitor_pc
    \<Rightarrow> tmux_session list option \<Rightarrow> control" where
  "scene cs active calls pc prev =
     \<lparr>co_heap = (\<lambda>_. None)(0 := cs), co_next = 1, co_opening = [], co_accepted = [], co_active = active,
      co_readers = {0}, co_calls = calls, co_monitor = pc, co_prev = prev, co_monitorStop = False,
      co_detached = [], co_deinit = False, co_sent = []\<rparr>"

definition quiet_env :: "alloc \<Rightarrow> write_result \<Rightarrow> env" where
  "quiet_env al wr = \<lparr>en_tmux = (\<lambda>_. \<lparr>tr_started = False, tr_output = [], tr_status = None\<rparr>),
     en_enc = (\<lambda>_. [0]), en_al = al, en_write = wr, en_prompt = (\<lambda>_. None)\<rparr>"

definition frame_0 :: "byte list" where "frame_0 = be32 1 @ [0]"

lemma empty_session_snapshot:
  "encode_session_snapshot (\<lambda>_. [0]) mem_ok list = Some frame_0"
  "encode_session_snapshot (\<lambda>_. [0]) (\<lambda>_. False) list = None"
  by (simp_all add: encode_session_snapshot_def snapshot_frame frame_0_def encode_with_capacity.simps
      MAX_SESSION_SNAPSHOT_CBOR_def)

lemmas run_simps = scene_def stream_7_def quiet_env_def monitor_thread_func_def monitor_poll_def
  monitor_sessions_def monitor_release_def monitor_prompts_def monitor_prune_def broadcast_to_all_def
  send_to_stream_def send_to_ref_def collect_targets_for_ref_def control_stream_retain_def
  control_stream_release_impl_def release_waits_def list_locked_def MAX_CONTROL_STREAMS_def
  tmuxremote_tmux_list_sessions_def empty_session_snapshot Let_def

lemma run_monitor:
  "creachable st \<Longrightarrow> monitor_thread_func e st = Some (Some st') \<Longrightarrow> creachable st'"
  by (blast intro: creachable.step cstep.monitor)

lemma scene_listed: "creachable (scene (Some (stream_7 False True 1)) [0] [] MonTop None)"
proof -
  let ?st1 = "stream_callback tmuxremote_control_stream_listener_init"
  define st2 where "st2 = the (stream_accepted (Some 7) True 0 ?st1)"
  have st2: "stream_accepted (Some 7) True 0 ?st1 = Some st2"
    by (simp add: st2_def stream_accepted_def stream_callback_def tmuxremote_control_stream_listener_init_def)
  have "creachable ?st1" by (rule creachable.step [OF creachable.init cstep.new_stream])
  moreover have "cstep ?st1 st2"
    by (rule cstep.accepted [OF _ st2])
       (simp add: stream_callback_def tmuxremote_control_stream_listener_init_def)
  ultimately have "creachable st2" by (rule creachable.step)
  then have "creachable (stream_listed True 0 st2)"
    by (rule creachable.step [OF _ cstep.listed])
       (simp_all add: st2_def stream_accepted_def stream_callback_def list_locked_def
         tmuxremote_control_stream_listener_init_def)
  moreover have "stream_listed True 0 st2 = scene (Some (stream_7 False True 1)) [0] [] MonTop None"
    by (simp add: st2_def stream_accepted_def stream_callback_def stream_listed_def ensure_monitor_started_def
        tmuxremote_control_stream_listener_init_def scene_def stream_7_def)
  ultimately show ?thesis by simp
qed

lemma reader_0_resolves:
  assumes "creachable (scene (Some (stream_7 c sy n)) act [] pc prev)"
  shows "creachable (scene (Some (stream_7 c sy n)) act [(Reader 0, WantsTargets 7 frame_0)] pc prev)"
proof -
  have call: "tmuxremote_control_stream_send_prompt_gone_for_ref (quiet_env mem_ok Written) 7 (Some [])
      = Some (WantsTargets 7 frame_0)"
    by (simp add: tmuxremote_control_stream_send_prompt_gone_for_ref_def quiet_env_def
        tmuxremote_prompt_protocol_encode_gone_def encode_into_def wrap_framed_payload_def frame_0_def)
  let ?st = "scene (Some (stream_7 c sy n)) act [] pc prev"
  have "cstep ?st (?st\<lparr>co_calls := (Reader 0, WantsTargets 7 frame_0) # co_calls ?st\<rparr>)"
    by (rule cstep.reader_resolves [of 0 _ "stream_7 c sy n"])
       (use call in \<open>simp_all add: scene_def stream_7_def\<close>)
  from creachable.step [OF assms this] show ?thesis by (simp add: scene_def)
qed

lemma scene_deadlock:
  "creachable (scene (Some (stream_7 True False 1)) [0] [(Reader 0, WantsTargets 7 frame_0)]
     (MonPrune [] [0]) (Some []))"
proof -
  let ?e = "quiet_env mem_ok WriteFailed"
  note mon = run_monitor [where e = ?e]
  have "creachable (scene (Some (stream_7 False False (Suc 1))) [0] [] (MonSessions True (Some frame_0) [0]) (Some []))"
    by (rule mon [OF scene_listed]) (simp add: run_simps)
  then have "creachable (scene (Some (stream_7 False False (Suc 1))) [0] [] (MonSending [0] frame_0 [0]) (Some []))"
    by (rule mon) (simp add: run_simps)
  then have "creachable (scene (Some (stream_7 True False (Suc 1))) [0] [] (MonSending [] frame_0 [0]) (Some []))"
    by (rule mon) (simp add: run_simps)
  then have "creachable (scene (Some (stream_7 True False (Suc 1))) [0] [] (MonDropping [0]) (Some []))"
    by (rule mon) (simp add: run_simps)
  then have "creachable (scene (Some (stream_7 True False 1)) [0] [] (MonDropping []) (Some []))"
    by (rule mon) (simp add: run_simps)
  then have "creachable (scene (Some (stream_7 True False 1)) [0] [] MonPrompts (Some []))"
    by (rule mon) (simp add: run_simps)
  then have "creachable (scene (Some (stream_7 True False 1)) [0] [] (MonPrompt []) (Some []))"
    by (rule mon) (simp add: run_simps)
  from reader_0_resolves [OF this] show ?thesis
    by (rule mon) (simp add: run_simps)
qed

lemma scene_call:
  assumes "creachable (scene cs act [(t, c)] pc prev)"
    and "send_to_ref e t c (scene cs act [(t, c)] pc prev) = Some (Some (scene cs' act [(t, c)] pc prev, Some d))"
  shows "creachable (scene cs' act [(t, d)] pc prev)"
  using creachable.step [OF assms(1) cstep.call [OF _ assms(2), of "[]" "[]"]] by (simp add: scene_def)

lemma scene_return:
  assumes "creachable (scene cs act [(t, Sending [] data)] pc prev)"
  shows "creachable (scene cs act [] pc prev)"
proof -
  let ?st = "scene cs act [(t, Sending [] data)] pc prev"
  have "send_to_ref e t (Sending [] data) ?st = Some (Some (?st, None))" for e
    by (simp add: send_to_ref_def)
  from creachable.step [OF assms cstep.call [OF _ this, of "[]" "[]"]] show ?thesis by (simp add: scene_def)
qed

lemma scene_freed: "creachable (scene None [] [] (MonPrune [] []) (Some []))"
proof -
  let ?call = "\<lambda>c. [(Reader 0, c)]" and ?e = "quiet_env (\<lambda>_. False) Written"
  note mon = run_monitor [where e = ?e] and call = scene_call [where e = "quiet_env mem_ok WriteFailed"]
  have "creachable (scene (Some (stream_7 False True (Suc 1))) [0] (?call (Sending [0] frame_0)) MonTop None)"
    by (rule call [OF reader_0_resolves [OF scene_listed]]) (simp add: run_simps)
  then have "creachable (scene (Some (stream_7 True True (Suc 1))) [0] (?call (Releasing [0] frame_0)) MonTop None)"
    by (rule call) (simp add: run_simps)
  then have "creachable (scene (Some (stream_7 True True (Suc 1))) [0] (?call (Releasing [0] frame_0))
      (MonSessions True None []) (Some []))"
    by (rule mon) (simp add: run_simps)
  then have "creachable (scene (Some (stream_7 True True (Suc 1))) [0] (?call (Releasing [0] frame_0))
      (MonDropping []) (Some []))"
    by (rule mon) (simp add: run_simps)
  then have "creachable (scene (Some (stream_7 True True (Suc 1))) [0] (?call (Releasing [0] frame_0))
      MonPrompts (Some []))"
    by (rule mon) (simp add: run_simps)
  then have "creachable (scene (Some (stream_7 True True (Suc 1))) [0] (?call (Releasing [0] frame_0))
      (MonPrompt []) (Some []))"
    by (rule mon) (simp add: run_simps)
  then have "creachable (scene (Some (stream_7 True True (Suc 1))) [0] (?call (Releasing [0] frame_0))
      (MonPrune [] [0]) (Some []))"
    by (rule mon) (simp add: run_simps)
  then have "creachable (scene (Some (stream_7 True True 1)) [] (?call (Releasing [0] frame_0))
      (MonPrune [] []) (Some []))"
    by (rule mon) (simp add: run_simps)
  then have "creachable (scene None [] (?call (Sending [] frame_0)) (MonPrune [] []) (Some []))"
    by (rule call) (simp add: run_simps)
  then show ?thesis by (rule scene_return)
qed

section \<open>A round of the monitor\<close>

fun monitor_run :: "nat \<Rightarrow> env \<Rightarrow> control \<Rightarrow> control option" where
  "monitor_run 0 e st = Some st"
| "monitor_run (Suc n) e st =
     (case monitor_thread_func e st of Some (Some st') \<Rightarrow> monitor_run n e st' | _ \<Rightarrow> None)"

lemma collect_members:
  "collect test upd cap h ss = Some (h', out) \<Longrightarrow> length ss \<le> cap \<Longrightarrow> s \<in> set ss \<Longrightarrow>
     h s = Some cs \<Longrightarrow> test cs \<Longrightarrow> s \<in> set out"
proof (induction ss arbitrary: h cap out)
  case (Cons t ss)
  then obtain ct where ct: "h t = Some ct" by (auto split: option.splits if_splits)
  show ?case
  proof (cases "t = s")
    case True
    with Cons.prems ct show ?thesis by (auto split: if_splits)
  next
    case False
    then have s: "s \<in> set ss" "(h(t \<mapsto> upd ct)) s = Some cs" using Cons.prems by auto
    show ?thesis
    proof (cases "test ct")
      case True
      then obtain out' where o: "collect test upd (cap - 1) (h(t \<mapsto> upd ct)) ss = Some (h', out')" "out = t # out'"
        using Cons.prems(1,2) ct by auto
      have "s \<in> set out'" by (rule Cons.IH [OF o(1) _ s Cons.prems(5)]) (use Cons.prems(2) in simp)
      with o(2) show ?thesis by simp
    next
      case False
      with Cons.prems ct have "collect test upd cap h ss = Some (h', out)" by auto
      with Cons.IH [of cap h out] s(1) Cons.prems show ?thesis by auto
    qed
  qed
qed simp

lemma collect_closing:
  assumes "\<And>cs. ac_closing (upd cs) = ac_closing cs"
  shows "collect test upd cap h ss = Some (h', out) \<Longrightarrow>
     map_option ac_closing (h' s) = map_option ac_closing (h s)"
proof (induction ss arbitrary: h cap out)
  case (Cons t ss)
  show ?case
  proof (cases "cap = 0")
    case False
    then obtain ct where ct: "h t = Some ct" using Cons.prems by (auto split: option.splits)
    show ?thesis
    proof (cases "test ct")
      case True
      with False ct Cons.prems obtain out' where
        "collect test upd (cap - 1) (h(t \<mapsto> upd ct)) ss = Some (h', out')" by auto
      from Cons.IH [OF this] assms ct show ?thesis by (simp split: if_splits)
    next
      case False
      with \<open>cap \<noteq> 0\<close> ct Cons.prems have "collect test upd cap h ss = Some (h', out)" by simp
      from Cons.IH [OF this] show ?thesis .
    qed
  qed (use Cons.prems in simp)
qed simp

lemma monitor_poll_eq:
  assumes "\<not> co_monitorStop st" and "tmuxremote_tmux_list_sessions (en_tmux e) = Some sessions"
    and "collect (\<lambda>cs. ac_needsSessionSync cs \<and> \<not> ac_closing cs)
      (\<lambda>cs. (control_stream_retain cs)\<lparr>ac_needsSessionSync := False\<rparr>)
      MAX_CONTROL_STREAMS (co_heap st) (co_active st) = Some (h, sync)" and "sync \<noteq> []"
    and "encode_session_snapshot (en_enc e) (en_al e) sessions = Some data"
  shows "\<exists>ch p. monitor_poll e st = Some (st\<lparr>co_heap := h, co_prev := p,
    co_monitor := MonSessions ch (Some data) sync\<rparr>)"
proof -
  let ?ch = "case co_prev st of None \<Rightarrow> True | Some prevList \<Rightarrow> \<not> tmux_lists_equal prevList sessions"
  show ?thesis
    by (rule exI [of _ ?ch], rule exI [of _ "if ?ch then Some sessions else co_prev st"])
       (use assms in \<open>simp add: monitor_poll_def Let_def\<close>)
qed

lemma sending_reaches:
  assumes "co_monitor st = MonSending ts data ss" and "en_write e = Written"
    and "\<forall>t \<in> set ts. co_heap st t \<noteq> None"
    and "s \<in> set ts" and "co_heap st s = Some cs" and "\<not> ac_closing cs"
  shows "\<exists>n st'. monitor_run n e st = Some st' \<and> (s, data) \<in> set (co_sent st')"
  using assms
proof (induction ts arbitrary: st)
  case (Cons t ts)
  then obtain ct where ct: "co_heap st t = Some ct" by auto
  define st1 where "st1 = st\<lparr>co_monitor := MonSending ts data ss,
    co_sent := co_sent st @ (if ac_closing ct then [] else [(t, data)])\<rparr>"
  have step: "monitor_thread_func e st = Some (Some st1)"
    using Cons.prems(1,2) ct by (simp add: monitor_thread_func_def send_to_stream_def st1_def)
  show ?case
  proof (cases "t = s")
    case True
    then have "monitor_run 1 e st = Some st1 \<and> (s, data) \<in> set (co_sent st1)"
      using step Cons.prems ct by (simp add: st1_def)
    then show ?thesis by blast
  next
    case False
    then have "\<exists>n st'. monitor_run n e st1 = Some st' \<and> (s, data) \<in> set (co_sent st')"
      using Cons.prems by (intro Cons.IH) (simp_all add: st1_def)
    then obtain n st' where "monitor_run n e st1 = Some st'" "(s, data) \<in> set (co_sent st')" by blast
    then have "monitor_run (Suc n) e st = Some st' \<and> (s, data) \<in> set (co_sent st')" using step by simp
    then show ?thesis by blast
  qed
qed simp

section \<open>Properties\<close>

text \<open>
  C9: control streams are freed exactly when the last reference goes.  However the callbacks,
  the monitor, the readers, the PTY threads and the main thread interleave, a stream is
  allocated exactly as long as it is being accepted, is listed, or is held in somebody's
  snapshot, its counter is the number of these references, and neither the monitor nor a
  thread that sends nor the shutdown ever uses a freed stream, although broadcasts retain
  nothing.
\<close>

theorem control_streams_are_counted:
  assumes "creachable st"
  shows "(\<forall>s. co_heap st s = None \<longleftrightarrow> s \<notin># references st) \<and>
    (\<forall>s cs. co_heap st s = Some cs \<longrightarrow> ac_refCount cs = count (references st) s) \<and>
    monitor_thread_func e st \<noteq> None \<and> deinit_release st \<noteq> None \<and>
    (\<forall>t c. (t, c) \<in> set (co_calls st) \<longrightarrow> send_to_ref e t c st \<noteq> None)"
proof (intro conjI allI impI)
  have wf: "wf_control st" by (rule creachable_wf [OF assms])
  then have c: "counted (co_heap st) (references st)" by (simp add: wf_control_def)
  show "co_heap st s = None \<longleftrightarrow> s \<notin># references st" for s
    using c counted_not [OF c] counted_allocated [OF c] by fastforce
  show "ac_refCount cs = count (references st) s" if "co_heap st s = Some cs" for s cs
    using counted_count [OF c that] by simp
  show "monitor_thread_func e st \<noteq> None" "deinit_release st \<noteq> None"
    using monitor_thread_fine [OF wf, of e] deinit_release_fine [OF wf] by (auto simp: monitor_fine_def)
  show "send_to_ref e t c st \<noteq> None" if call: "(t, c) \<in> set (co_calls st)" for t c
  proof -
    obtain xs ys where calls: "co_calls st = xs @ (t, c) # ys" using call by (auto simp: in_set_conv_decomp)
    let ?M = "references (st\<lparr>co_calls := xs @ ys\<rparr>)"
    have "counted (co_heap st) (mset (call_held c) + ?M)" "set (co_active st) \<subseteq> set_mset ?M"
      using c calls by (auto simp: references_def ac_simps)
    from send_to_ref_counted [OF this, of e t] show ?thesis by (auto simp: call_ok_def)
  qed
qed

theorem control_streams_are_counted_witness:
  "\<exists>st. creachable st \<and> co_calls st \<noteq> [] \<and>
    (\<forall>s. co_heap st s = None \<longleftrightarrow> s \<notin># references st) \<and>
    (\<forall>s cs. co_heap st s = Some cs \<longrightarrow> ac_refCount cs = count (references st) s) \<and>
    monitor_thread_func (quiet_env mem_ok Written) st \<noteq> None \<and> deinit_release st \<noteq> None \<and>
    (\<forall>t c. (t, c) \<in> set (co_calls st) \<longrightarrow> send_to_ref (quiet_env mem_ok Written) t c st \<noteq> None)"
proof -
  have "co_calls (scene (Some (stream_7 False True 1)) [0] [(Reader 0, WantsTargets 7 frame_0)] MonTop None) \<noteq> []"
    by (simp add: scene_def)
  with reader_0_resolves [OF scene_listed] control_streams_are_counted [OF reader_0_resolves [OF scene_listed]]
  show ?thesis by blast
qed

text \<open>
  The current session list reaches every new stream.  When the monitor starts a round
  and at most 16 streams are listed, then, running on, it writes the session list to every
  open stream that has not been synchronised yet, as long as the list can be encoded and
  writes succeed.
\<close>

theorem new_streams_get_sessions:
  assumes "creachable st" and "co_monitor st = MonTop" and "\<not> co_monitorStop st"
    and "length (co_active st) \<le> MAX_CONTROL_STREAMS" and "en_write e = Written"
    and "tmuxremote_tmux_list_sessions (en_tmux e) = Some sessions"
    and "encode_session_snapshot (en_enc e) (en_al e) sessions = Some data"
    and "s \<in> set (co_active st)" and "co_heap st s = Some cs" and "\<not> ac_closing cs"
    and "ac_needsSessionSync cs"
  shows "\<exists>n st'. monitor_run n e st = Some st' \<and> (s, data) \<in> set (co_sent st')"
proof -
  have wf: "wf_control st" by (rule creachable_wf [OF assms(1)])
  obtain h sync where col: "collect (\<lambda>cs. ac_needsSessionSync cs \<and> \<not> ac_closing cs)
      (\<lambda>cs. (control_stream_retain cs)\<lparr>ac_needsSessionSync := False\<rparr>)
      MAX_CONTROL_STREAMS (co_heap st) (co_active st) = Some (h, sync)"
    using monitor_poll_fine [OF wf assms(2), of e] assms(3)
    by (auto simp: monitor_fine_def monitor_poll_def Let_def split: option.splits)
  have s: "s \<in> set sync" by (rule collect_members [OF col assms(4,8,9)]) (simp add: assms(10,11))
  have "map_option ac_closing (h s) = Some False"
    using collect_closing [OF _ col, of s] assms(9,10) by (simp add: control_stream_retain_def)
  then obtain cs1 where cs1: "h s = Some cs1" "\<not> ac_closing cs1" by auto
  obtain ch st1 where st1: "monitor_poll e st = Some st1" "co_monitor st1 = MonSessions ch (Some data) sync"
    "co_heap st1 = h" "co_active st1 = co_active st" "co_deinit st1 = co_deinit st"
    using monitor_poll_eq [OF assms(3,6) col _ assms(7)] s by force
  have wf1: "wf_control st1" using monitor_poll_fine [OF wf assms(2), of e] st1(1) by (simp add: monitor_fine_def)
  have nd: "\<not> co_deinit st1" using wf assms(3) st1(5) by (auto simp: wf_control_def)
  obtain st2 where st2: "monitor_sessions ch (Some data) sync st1 = Some st2" "wf_control st2"
    using monitor_sessions_fine [OF wf1 nd st1(2)] by (auto simp: monitor_fine_def)
  have "s \<in> set ts" if "broadcast_to_all h (co_active st) = Some ts" for ts
    using that assms(4,8) cs1 collect_members [of "\<lambda>cs. \<not> ac_closing cs" "\<lambda>cs. cs" MAX_CONTROL_STREAMS h "co_active st"]
    by (auto simp: broadcast_to_all_def)
  then obtain ts where ts: "co_monitor st2 = MonSending ts data sync" "s \<in> set ts" "co_heap st2 = h"
    using st2(1) s st1(3,4) by (auto simp: monitor_sessions_def split: if_splits)
  have "set ts \<subseteq> set_mset (references st2)" "counted (co_heap st2) (references st2)"
    using st2(2) ts(1) by (auto simp: wf_control_def pc_ok_def references_def)
  then have "\<forall>t \<in> set ts. co_heap st2 t \<noteq> None" using counted_allocated by fastforce
  from sending_reaches [OF ts(1) assms(5) this ts(2)] cs1 ts(3) obtain n st' where
    run: "monitor_run n e st2 = Some st'" "(s, data) \<in> set (co_sent st')" by auto
  have "monitor_run (Suc (Suc n)) e st = Some st'"
    using run(1) st1(1,2) st2(1) assms(2) by (simp add: monitor_thread_func_def)
  with run(2) show ?thesis by blast
qed

theorem new_streams_get_sessions_witness:
  "\<exists>n st'. monitor_run n ((quiet_env mem_ok Written)\<lparr>en_tmux := good_tmux\<rparr>)
      (scene (Some (stream_7 False True 1)) [0] [] MonTop None) = Some st' \<and> (0, frame_0) \<in> set (co_sent st')"
  by (rule new_streams_get_sessions [OF scene_listed, where sessions = "[]" and cs = "stream_7 False True 1"])
     (simp_all add: scene_def stream_7_def quiet_env_def MAX_CONTROL_STREAMS_def empty_session_snapshot
       tmuxremote_tmux_list_sessions_def good_tmux_def c_string_def parse_session_lines.simps)

text \<open>
  C37: the monitor and a reader can wait for each other for ever.  There is a run after which
  the monitor holds the list mutex and joins the reader of a stream that failed, while this
  reader waits for the mutex to report the prompt it has just resolved; whatever the other
  threads do, the monitor never moves again and the mutex is never released.
\<close>

theorem control_monitor_can_deadlock:
  "\<exists>st. creachable st \<and> (\<forall>st'. cstep\<^sup>*\<^sup>* st st' \<longrightarrow>
     list_locked st' \<and> 0 \<in> co_readers st' \<and> (\<forall>e. monitor_thread_func e st' = Some None) \<and>
     (\<exists>ref data. (Reader 0, WantsTargets ref data) \<in> set (co_calls st') \<and>
        (\<forall>e. send_to_ref e (Reader 0) (WantsTargets ref data) st' = Some None)))"
proof -
  let ?st = "scene (Some (stream_7 True False 1)) [0] [(Reader 0, WantsTargets 7 frame_0)]
    (MonPrune [] [0]) (Some [])"
  have d: "deadlocked 0 ?st" by (simp add: deadlocked_def scene_def stream_7_def)
  have "deadlocked 0 st'" if "cstep\<^sup>*\<^sup>* ?st st'" for st'
    by (rule deadlock_is_permanent [OF that d creachable_wf [OF scene_deadlock]])
  then have "\<forall>st'. cstep\<^sup>*\<^sup>* ?st st' \<longrightarrow> list_locked st' \<and> 0 \<in> co_readers st' \<and>
     (\<forall>e. monitor_thread_func e st' = Some None) \<and>
     (\<exists>ref data. (Reader 0, WantsTargets ref data) \<in> set (co_calls st') \<and>
        (\<forall>e. send_to_ref e (Reader 0) (WantsTargets ref data) st' = Some None))"
    using deadlocked_blocks unfolding deadlocked_def by metis
  with scene_deadlock show ?thesis by blast
qed

theorem control_monitor_can_deadlock_witness:
  "\<exists>st. creachable st \<and> list_locked st"
  using control_monitor_can_deadlock by blast

text \<open>
  A reader can free its own stream and go on using it.  There is a run after which the
  stream of a reader that is still running, and is not inside a call, has been freed: the
  reader held the last reference while it reported a prompt, and the join of itself failed.
  Its next access, the test of \<open>closing\<close>, is to freed memory.
\<close>

theorem control_reader_outlives_stream:
  "\<exists>st s. creachable st \<and> s \<in> co_readers st \<and> Reader s \<notin> fst ` set (co_calls st) \<and> co_heap st s = None"
proof -
  let ?st = "scene None [] [] (MonPrune [] []) (Some [])"
  have "0 \<in> co_readers ?st" "Reader 0 \<notin> fst ` set (co_calls ?st)" "co_heap ?st 0 = None"
    by (simp_all add: scene_def)
  with scene_freed show ?thesis by blast
qed

end
