(* ===== verification/Iam.thy ===== *)
theory Iam
  imports Coap_Endpoints "HOL-Library.Sublist"
begin

text \<open>
  Users, pairing and access rights (\<open>agent/src/tmuxremote_iam.c\<close>).

  The IAM module of the SDK is third-party code.  Its state object is the record \<open>iam_state\<close>
  of the fields the agent reads and writes (the setters store their argument, a new state is a
  parameter, and a new user is refused for names the module does not accept); its JSON
  serializer and the file system are parameters.  \<open>NN_LLIST_FOREACH\<close> leaves its variable at
  \<open>NULL\<close> when it does not find the user.

  The saver thread and the state-changed callback share \<open>pendingState\<close> under \<open>saveMutex\<close>:
  each critical section is one operation and \<open>sstep\<close> interleaves them.
\<close>

definition TMUXREMOTE_IAM_MAX_USERS :: nat where "TMUXREMOTE_IAM_MAX_USERS = 32"

record iam_user =
  us_username :: "string option"
  us_role :: "string option"
  us_password :: "string option"
  us_sct :: "string option"
  us_displayName :: "string option"
  us_fingerprints :: "string list"

record iam_state =
  is_users :: "iam_user list"
  is_password_invite_pairing :: bool
  is_password_open_pairing :: bool
  is_local_open_pairing :: bool
  is_local_initial_pairing :: bool
  is_password_open_password :: "string option"
  is_password_open_sct :: "string option"
  is_open_pairing_role :: "string option"
  is_friendly_name :: "string option"

type_synonym fs = "string \<rightharpoonup> string"

text \<open>What the module and the file system do: the parameters of the operations.\<close>

record iam_env =
  ie_new_state :: iam_state
  ie_username_ok :: "string \<Rightarrow> bool"
  ie_dump :: "iam_state \<Rightarrow> string option"
  ie_load :: "string \<Rightarrow> iam_state option"
  ie_write :: "fs \<Rightarrow> string \<Rightarrow> string \<Rightarrow> bool \<times> fs"

text \<open>Documented behaviour that properties rely on: the serializer is faithful.\<close>

definition serializer_faithful :: "iam_env \<Rightarrow> bool" where
  "serializer_faithful e \<longleftrightarrow> (\<forall>st s. ie_dump e st = Some s \<longrightarrow> ie_load e s = Some st)"

section \<open>Saving\<close>

definition save_iam_state :: "iam_env \<Rightarrow> fs \<Rightarrow> string \<Rightarrow> iam_state \<Rightarrow> fs" where
  "save_iam_state e fs filename state =
     (case ie_dump e state of None \<Rightarrow> fs | Some str \<Rightarrow> snd (ie_write e fs filename str))"

definition paired :: "iam_user \<Rightarrow> bool" where
  "paired u \<longleftrightarrow> us_fingerprints u \<noteq> [] \<and> us_username u \<noteq> None"

text \<open>
  Whether a name is among the tracked users; an entry is \<^const>\<open>None\<close> when its \<open>strdup\<close> failed,
  and \<open>strcmp\<close> with it is undefined.
\<close>

fun known_user :: "string option list \<Rightarrow> string \<Rightarrow> bool option" where
  "known_user [] name = Some False"
| "known_user (None # us) name = None"
| "known_user (Some u # us) name = (if u = name then Some True else known_user us name)"

fun newly_paired :: "string option list \<Rightarrow> iam_user list \<Rightarrow> string list \<Rightarrow> string list option" where
  "newly_paired tracked [] acc = Some acc"
| "newly_paired tracked (u # us) acc =
     (if \<not> paired u then newly_paired tracked us acc
      else case known_user tracked (the (us_username u)) of
             None \<Rightarrow> None
           | Some known \<Rightarrow>
               newly_paired tracked us
                 (if \<not> known \<and> length acc < TMUXREMOTE_IAM_MAX_USERS then acc @ [the (us_username u)] else acc))"

text \<open>The announced users, and the tracked users afterwards.\<close>

definition check_and_announce_new_pairings ::
  "alloc \<Rightarrow> string option list \<Rightarrow> iam_state \<Rightarrow> (string list \<times> string option list) option" where
  "check_and_announce_new_pairings al tracked state =
     map_option (\<lambda>new. (new, tracked @ map (strdup al) (take (TMUXREMOTE_IAM_MAX_USERS - length tracked) new)))
       (newly_paired tracked (is_users state) [])"

section \<open>The saver thread\<close>

datatype saver_pc = SvWaiting | SvSaving iam_state | SvExited

text \<open>
  \<open>sv_fs\<close> is the file system, \<open>sv_announced\<close> the users whose pairing was printed; \<open>sv_submitted\<close>
  and \<open>sv_saved\<close> record the dumped and the saved states, in order.
\<close>

record iam_saver =
  sv_iamStateFile :: string
  sv_saveThreadStarted :: bool
  sv_saveStop :: bool
  sv_pendingState :: "iam_state option"
  sv_worker :: saver_pc
  sv_pairedUsers :: "string option list"
  sv_fs :: fs
  sv_announced :: "string list"
  sv_submitted :: "iam_state list"
  sv_saved :: "iam_state list"

definition tmuxremote_iam_init :: "fs \<Rightarrow> string \<Rightarrow> bool \<Rightarrow> iam_saver" where
  "tmuxremote_iam_init fs iamStateFile started =
     \<lparr>sv_iamStateFile = iamStateFile, sv_saveThreadStarted = started, sv_saveStop = False,
      sv_pendingState = None, sv_worker = (if started then SvWaiting else SvExited), sv_pairedUsers = [],
      sv_fs = fs, sv_announced = [], sv_submitted = [], sv_saved = []\<rparr>"

text \<open>The argument is the result of \<open>nm_iam_dump_state\<close>.\<close>

definition tmuxremote_iam_state_changed :: "iam_env \<Rightarrow> iam_state option \<Rightarrow> iam_saver \<Rightarrow> iam_saver" where
  "tmuxremote_iam_state_changed e dump sv =
     (case dump of
        None \<Rightarrow> sv
      | Some state \<Rightarrow>
          let sv = sv\<lparr>sv_submitted := sv_submitted sv @ [state]\<rparr>
          in if \<not> sv_saveThreadStarted sv
             then sv\<lparr>sv_fs := save_iam_state e (sv_fs sv) (sv_iamStateFile sv) state,
                     sv_saved := sv_saved sv @ [state]\<rparr>
             else sv\<lparr>sv_pendingState := Some state\<rparr>)"

text \<open>
  The worker's critical section (\<^const>\<open>None\<close> while it waits), and the save and the announcement
  after it (\<^const>\<open>None\<close> is the undefined comparison).
\<close>

definition save_worker_take :: "iam_saver \<Rightarrow> iam_saver option" where
  "save_worker_take sv =
     (case sv_pendingState sv of
        Some state \<Rightarrow> Some (sv\<lparr>sv_pendingState := None, sv_worker := SvSaving state\<rparr>)
      | None \<Rightarrow> if sv_saveStop sv then Some (sv\<lparr>sv_worker := SvExited\<rparr>) else None)"

definition save_worker_save :: "iam_env \<Rightarrow> alloc \<Rightarrow> iam_state \<Rightarrow> iam_saver \<Rightarrow> iam_saver option" where
  "save_worker_save e al state sv =
     (case check_and_announce_new_pairings al (sv_pairedUsers sv) state of
        None \<Rightarrow> None
      | Some (new, tracked) \<Rightarrow>
          Some (sv\<lparr>sv_fs := save_iam_state e (sv_fs sv) (sv_iamStateFile sv) state,
                   sv_saved := sv_saved sv @ [state], sv_announced := sv_announced sv @ new,
                   sv_pairedUsers := tracked, sv_worker := SvWaiting\<rparr>))"

text \<open>\<open>tmuxremote_iam_deinit\<close> stops the module, and with it the callback, before the worker.\<close>

definition tmuxremote_iam_stop :: "iam_saver \<Rightarrow> iam_saver" where
  "tmuxremote_iam_stop sv = sv\<lparr>sv_saveStop := True\<rparr>"

text \<open>\<open>tracked\<close> are the users that \<open>tmuxremote_iam_load_state\<close> entered before the device runs.\<close>

inductive sstep :: "iam_env \<Rightarrow> alloc \<Rightarrow> iam_saver \<Rightarrow> iam_saver \<Rightarrow> bool" for e al where
  changed: "\<not> sv_saveStop sv \<Longrightarrow> sstep e al sv (tmuxremote_iam_state_changed e dump sv)"
| take: "sv_worker sv = SvWaiting \<Longrightarrow> save_worker_take sv = Some sv' \<Longrightarrow> sstep e al sv sv'"
| save: "sv_worker sv = SvSaving state \<Longrightarrow> save_worker_save e al state sv = Some sv' \<Longrightarrow> sstep e al sv sv'"
| stop: "sstep e al sv (tmuxremote_iam_stop sv)"

inductive sreachable :: "iam_env \<Rightarrow> alloc \<Rightarrow> string option list \<Rightarrow> iam_saver \<Rightarrow> bool" for e al tracked where
  init: "sreachable e al tracked ((tmuxremote_iam_init fs iamStateFile started)\<lparr>sv_pairedUsers := tracked\<rparr>)"
| step: "sreachable e al tracked sv \<Longrightarrow> sstep e al sv sv' \<Longrightarrow> sreachable e al tracked sv'"

section \<open>Initial states, loading, pairing strings\<close>

definition new_user :: "string \<Rightarrow> iam_user" where
  "new_user name = \<lparr>us_username = Some name, us_role = None, us_password = None, us_sct = None,
     us_displayName = None, us_fingerprints = []\<rparr>"

text \<open>The password and the token come from the random generator and the SDK.\<close>

definition invited_user :: "string \<Rightarrow> string \<Rightarrow> string option \<Rightarrow> iam_user" where
  "invited_user name pwd sct =
     (new_user name)\<lparr>us_role := Some ''Owner'', us_password := Some pwd, us_sct := sct\<rparr>"

definition tmuxremote_iam_create_default_state ::
  "iam_env \<Rightarrow> fs \<Rightarrow> string \<Rightarrow> string \<Rightarrow> string \<Rightarrow> string option \<Rightarrow> fs" where
  "tmuxremote_iam_create_default_state e fs filename username pwd sct =
     (let state = (ie_new_state e)\<lparr>is_password_invite_pairing := True, is_local_open_pairing := False,
            is_password_open_pairing := False, is_local_initial_pairing := False,
            is_friendly_name := Some ''tmux-remote''\<rparr>
      in if \<not> ie_username_ok e username then fs
         else save_iam_state e fs filename
                (state\<lparr>is_users := is_users state @ [invited_user username pwd sct]\<rparr>))"

definition tmuxremote_iam_create_open_state ::
  "iam_env \<Rightarrow> fs \<Rightarrow> string \<Rightarrow> string \<Rightarrow> string option \<Rightarrow> fs" where
  "tmuxremote_iam_create_open_state e fs filename openPwd sct =
     save_iam_state e fs filename
       ((ie_new_state e)\<lparr>is_open_pairing_role := Some ''Owner'', is_friendly_name := Some ''tmux-remote'',
          is_local_initial_pairing := False, is_local_open_pairing := False,
          is_password_open_password := Some openPwd, is_password_open_pairing := True,
          is_password_invite_pairing := False, is_password_open_sct := sct\<rparr>)"

fun seed_tracked :: "alloc \<Rightarrow> iam_user list \<Rightarrow> string option list \<Rightarrow> string option list" where
  "seed_tracked al [] tracked = tracked"
| "seed_tracked al (u # us) tracked =
     seed_tracked al us
       (if paired u \<and> length tracked < TMUXREMOTE_IAM_MAX_USERS
        then tracked @ [strdup al (the (us_username u))] else tracked)"

text \<open>\<open>accepts\<close> is \<open>nm_iam_load_state\<close>; the result is the loaded state and the tracked users.\<close>

definition tmuxremote_iam_load_state ::
  "iam_env \<Rightarrow> alloc \<Rightarrow> (iam_state \<Rightarrow> bool) \<Rightarrow> fs \<Rightarrow> string \<Rightarrow> (iam_state \<times> string option list) option" where
  "tmuxremote_iam_load_state e al accepts fs filename =
     (case fs filename of
        None \<Rightarrow> None
      | Some str \<Rightarrow>
          (case ie_load e str of
             None \<Rightarrow> None
           | Some is \<Rightarrow> if \<not> accepts is then None else Some (is, seed_tracked al (is_users is) [])))"

definition find_user :: "iam_state \<Rightarrow> string \<Rightarrow> iam_user option" where
  "find_user state username = find (\<lambda>u. us_username u = Some username) (is_users state)"

definition pairing_string :: "string \<Rightarrow> string \<Rightarrow> string \<Rightarrow> string \<Rightarrow> string \<Rightarrow> string" where
  "pairing_string p d u pwd sct =
     ''p='' @ p @ '',d='' @ d @ '',u='' @ u @ '',pwd='' @ pwd @ '',sct='' @ sct"

text \<open>\<open>snprintf\<close> with 511 keeps 510 characters.\<close>

definition tmuxremote_iam_create_invite_pairing_string ::
  "alloc \<Rightarrow> iam_state option \<Rightarrow> string \<Rightarrow> string \<Rightarrow> string \<Rightarrow> string option" where
  "tmuxremote_iam_create_invite_pairing_string al dump productId deviceId username =
     (case dump of
        None \<Rightarrow> None
      | Some state \<Rightarrow>
          (case find_user state username of
             None \<Rightarrow> None
           | Some user \<Rightarrow>
               (case (us_password user, us_sct user) of
                  (Some pwd, Some sct) \<Rightarrow>
                    if \<not> al 512 then None
                    else Some (take 510 (pairing_string productId deviceId username pwd sct))
                | _ \<Rightarrow> None)))"

section \<open>Access rights\<close>

text \<open>The configuration: policies with the actions they allow, and roles with their policies.\<close>

record iam_configuration =
  ic_policies :: "(string \<times> string list) list"
  ic_roles :: "(string \<times> string list) list"
  ic_unpaired_role :: string

definition load_iam_config :: iam_configuration where
  "load_iam_config =
     \<lparr>ic_policies =
        [(''Pairing'', [''IAM:GetPairing'', ''IAM:PairingPasswordInvite'']),
         (''Terminal'', [''Terminal:Connect'', ''Terminal:ListSessions'', ''Terminal:CreateSession'',
                         ''Terminal:Resize'', ''Terminal:Status''])],
      ic_roles = [(''Unpaired'', [''Pairing'']), (''Owner'', [''Pairing'', ''Terminal''])],
      ic_unpaired_role = ''Unpaired''\<rparr>"

text \<open>
  What a role may do under a configuration of allowing statements.  \<open>iam_decides\<close> is the
  documented decision of the module: the role of the user whose key the connection has, or the
  role for unpaired connections.
\<close>

definition role_allows :: "iam_configuration \<Rightarrow> string \<Rightarrow> string \<Rightarrow> bool" where
  "role_allows conf role action \<longleftrightarrow>
     (\<exists>ps. map_of (ic_roles conf) role = Some ps \<and>
        (\<exists>p \<in> set ps. \<exists>as. map_of (ic_policies conf) p = Some as \<and> action \<in> set as))"

definition iam_decides ::
  "(connection_ref \<Rightarrow> string option) \<Rightarrow> (connection_ref \<Rightarrow> string \<Rightarrow> bool) \<Rightarrow> bool" where
  "iam_decides role_of check \<longleftrightarrow>
     (\<forall>ref action. check ref action =
        role_allows load_iam_config
          (case role_of ref of None \<Rightarrow> ic_unpaired_role load_iam_config | Some r \<Rightarrow> r) action)"

definition tmuxremote_iam_check_access_ref ::
  "(connection_ref \<Rightarrow> string \<Rightarrow> bool) \<Rightarrow> connection_ref \<Rightarrow> string \<Rightarrow> bool" where
  "tmuxremote_iam_check_access_ref check ref action = check ref action"

definition tmuxremote_iam_check_access ::
  "(connection_ref \<Rightarrow> string \<Rightarrow> bool) \<Rightarrow> coap_request \<Rightarrow> string \<Rightarrow> bool" where
  "tmuxremote_iam_check_access check request action = check (rq_ref request) action"

section \<open>Lemmas\<close>

text \<open>The states that are saved, being saved or waiting, in order.\<close>

fun in_worker :: "saver_pc \<Rightarrow> iam_state list" where
  "in_worker (SvSaving s) = [s]"
| "in_worker _ = []"

definition save_queue :: "iam_saver \<Rightarrow> iam_state list" where
  "save_queue sv = sv_saved sv @ in_worker (sv_worker sv) @
     (case sv_pendingState sv of None \<Rightarrow> [] | Some s \<Rightarrow> [s])"

definition wf_saver :: "iam_saver \<Rightarrow> bool" where
  "wf_saver sv \<longleftrightarrow> subseq (save_queue sv) (sv_submitted sv) \<and>
     (sv_submitted sv \<noteq> [] \<longrightarrow> save_queue sv \<noteq> [] \<and> last (save_queue sv) = last (sv_submitted sv)) \<and>
     (sv_worker sv = SvExited \<longrightarrow>
        sv_pendingState sv = None \<and> (sv_saveThreadStarted sv \<longrightarrow> sv_saveStop sv)) \<and>
     (\<not> sv_saveThreadStarted sv \<longrightarrow> sv_worker sv = SvExited)"

lemma subseq_app: "subseq xs (xs @ ys)"
  by (simp add: prefix_imp_subseq)

lemma state_changed_wf:
  assumes wf: "wf_saver sv" and run: "\<not> sv_saveStop sv"
  shows "wf_saver (tmuxremote_iam_state_changed e dump sv)"
proof (cases dump)
  case None
  then show ?thesis using wf by (simp add: tmuxremote_iam_state_changed_def)
next
  case (Some state)
  let ?base = "sv_saved sv @ in_worker (sv_worker sv)"
  have "subseq ?base (save_queue sv)"
    using subseq_app [of ?base] by (simp add: save_queue_def)
  then have base: "subseq ?base (sv_submitted sv)"
    using wf unfolding wf_saver_def by (meson subseq_order.trans)
  have app: "subseq (?base @ [state]) (sv_submitted sv @ [state])"
    using base by (rule list_emb_append_mono) simp
  show ?thesis
  proof (cases "sv_saveThreadStarted sv")
    case True
    then have "sv_worker sv \<noteq> SvExited" using wf run by (auto simp: wf_saver_def)
    with True Some app show ?thesis
      by (auto simp: tmuxremote_iam_state_changed_def wf_saver_def save_queue_def Let_def)
  next
    case False
    with wf have "sv_worker sv = SvExited" "sv_pendingState sv = None" by (auto simp: wf_saver_def)
    with False Some app show ?thesis
      by (auto simp: tmuxremote_iam_state_changed_def wf_saver_def save_queue_def Let_def)
  qed
qed

lemma sstep_wf: "sstep e al sv sv' \<Longrightarrow> wf_saver sv \<Longrightarrow> wf_saver sv'"
proof (induction rule: sstep.induct)
  case (changed sv dump)
  then show ?case by (simp add: state_changed_wf)
next
  case (take sv sv')
  then show ?case
    by (auto simp: save_worker_take_def wf_saver_def save_queue_def split: option.splits if_splits)
qed (auto simp: save_worker_save_def tmuxremote_iam_stop_def wf_saver_def save_queue_def split: option.splits)

lemma sreachable_wf: "sreachable e al tracked sv \<Longrightarrow> wf_saver sv"
proof (induction rule: sreachable.induct)
  case (init fs path started)
  then show ?case by (simp add: tmuxremote_iam_init_def wf_saver_def save_queue_def)
qed (rule sstep_wf)

lemma subseq_imp_subset: "subseq xs ys \<Longrightarrow> set xs \<subseteq> set ys"
  by (metis set_nths_subset subseq_conv_nths)

text \<open>When saving works, the file holds the state that was saved last.\<close>

definition storage_works :: "iam_env \<Rightarrow> bool" where
  "storage_works e \<longleftrightarrow> serializer_faithful e \<and> (\<forall>fs path s. ie_write e fs path s = (True, fs(path \<mapsto> s)))"

definition dumpable :: "iam_env \<Rightarrow> iam_state list \<Rightarrow> bool" where
  "dumpable e sts \<longleftrightarrow> list_all (\<lambda>st. ie_dump e st \<noteq> None) sts"

definition file_is_last :: "iam_env \<Rightarrow> iam_saver \<Rightarrow> bool" where
  "file_is_last e sv \<longleftrightarrow> (sv_saved sv \<noteq> [] \<longrightarrow>
     (\<exists>str. sv_fs sv (sv_iamStateFile sv) = Some str \<and> ie_load e str = Some (last (sv_saved sv))))"

lemma save_iam_state_stored:
  "storage_works e \<Longrightarrow> ie_dump e st \<noteq> None \<Longrightarrow>
     \<exists>str. save_iam_state e fs path st path = Some str \<and> ie_load e str = Some st"
  unfolding storage_works_def serializer_faithful_def save_iam_state_def
  by (cases "ie_dump e st") auto

lemma being_saved_submitted:
  "wf_saver sv \<Longrightarrow> sv_worker sv = SvSaving state \<Longrightarrow> state \<in> set (sv_submitted sv)"
  using subseq_imp_subset [of "save_queue sv" "sv_submitted sv"] by (auto simp: wf_saver_def save_queue_def)

lemma sstep_file:
  assumes "sstep e al sv sv'" and "wf_saver sv" and "storage_works e" and "dumpable e (sv_submitted sv')"
    and "dumpable e (sv_submitted sv) \<Longrightarrow> file_is_last e sv"
  shows "file_is_last e sv'"
  using assms
proof (induction rule: sstep.induct)
  case (changed sv dump)
  then show ?case
    using save_iam_state_stored [of e _ "sv_fs sv" "sv_iamStateFile sv"]
    by (auto simp: file_is_last_def tmuxremote_iam_state_changed_def dumpable_def Let_def split: option.splits)
next
  case (save sv state sv')
  then have "state \<in> set (sv_submitted sv)" by (simp add: being_saved_submitted)
  with save show ?case
    using save_iam_state_stored [of e state "sv_fs sv" "sv_iamStateFile sv"]
    by (auto simp: file_is_last_def save_worker_save_def dumpable_def list_all_iff split: option.splits)
qed (auto simp: file_is_last_def save_worker_take_def tmuxremote_iam_stop_def split: option.splits if_splits)

lemma sreachable_file:
  assumes "sreachable e al tracked sv" and works: "storage_works e"
  shows "dumpable e (sv_submitted sv) \<Longrightarrow> file_is_last e sv"
  using assms(1)
proof (induction rule: sreachable.induct)
  case (step sv sv')
  then show ?case using sstep_file [OF step(2) sreachable_wf [OF step(1)] works] by blast
qed (simp add: file_is_last_def tmuxremote_iam_init_def)

text \<open>With every \<open>strdup\<close> successful, the tracked users are names.\<close>

definition paired_names :: "iam_user list \<Rightarrow> string list" where
  "paired_names us = map (\<lambda>u. the (us_username u)) (filter paired us)"

lemma known_user_names: "known_user (map Some ts) name = Some (name \<in> set ts)"
  by (induction ts) auto

lemma newly_paired_names:
  "length acc \<le> 32 \<Longrightarrow> newly_paired (map Some ts) us acc =
     Some (acc @ take (32 - length acc) (filter (\<lambda>n. n \<notin> set ts) (paired_names us)))"
proof (induction us arbitrary: acc)
  case (Cons u us)
  show ?case
  proof (cases "paired u \<and> the (us_username u) \<notin> set ts \<and> length acc < 32")
    case True
    then show ?thesis
      using Cons.IH [of "acc @ [the (us_username u)]"]
      by (simp add: known_user_names paired_names_def TMUXREMOTE_IAM_MAX_USERS_def take_Cons' Suc_diff_Suc)
  next
    case False
    then show ?thesis
      using Cons.IH [of acc] Cons.prems
      by (auto simp: known_user_names paired_names_def TMUXREMOTE_IAM_MAX_USERS_def)
  qed
qed (simp add: paired_names_def)

text \<open>The announcements over a history of saved states, and the tracked users at its end.\<close>

fun announce_all ::
  "alloc \<Rightarrow> string option list \<Rightarrow> iam_state list \<Rightarrow> (string list \<times> string option list) option" where
  "announce_all al tracked [] = Some ([], tracked)"
| "announce_all al tracked (s # ss) =
     (case check_and_announce_new_pairings al tracked s of
        None \<Rightarrow> None
      | Some (new, tracked') \<Rightarrow> map_option (apfst ((@) new)) (announce_all al tracked' ss))"

definition ever_paired :: "iam_state list \<Rightarrow> string set" where
  "ever_paired ss = (\<Union>s \<in> set ss. set (paired_names (is_users s)))"

lemma announce_step:
  assumes "distinct ts" and "distinct (paired_names (is_users s))"
    and "card (set ts \<union> set (paired_names (is_users s))) \<le> 32"
  shows "check_and_announce_new_pairings mem_ok (map Some ts) s =
     (let new = filter (\<lambda>n. n \<notin> set ts) (paired_names (is_users s)) in Some (new, map Some (ts @ new)))"
proof -
  let ?new = "filter (\<lambda>n. n \<notin> set ts) (paired_names (is_users s))"
  have "card (set ts \<union> set (paired_names (is_users s))) = length ts + length ?new"
  proof -
    have "set ts \<union> set (paired_names (is_users s)) = set (ts @ ?new)" by auto
    moreover have "distinct (ts @ ?new)" using assms(1,2) by auto
    ultimately show ?thesis by (metis distinct_card length_append)
  qed
  with assms(3) have "length ?new \<le> 32 - length ts" by simp
  then show ?thesis
    by (simp add: check_and_announce_new_pairings_def newly_paired_names TMUXREMOTE_IAM_MAX_USERS_def Let_def)
qed

lemma announce_all_once:
  "distinct ts \<Longrightarrow> \<forall>s \<in> set ss. distinct (paired_names (is_users s)) \<Longrightarrow>
     card (set ts \<union> ever_paired ss) \<le> 32 \<Longrightarrow>
     \<exists>anns tr. announce_all mem_ok (map Some ts) ss = Some (anns, tr) \<and> distinct anns \<and>
       set anns = ever_paired ss - set ts"
proof (induction ss arbitrary: ts)
  case (Cons s ss)
  let ?new = "filter (\<lambda>n. n \<notin> set ts) (paired_names (is_users s))"
  have fin: "finite (set ts \<union> ever_paired (s # ss))" by (simp add: ever_paired_def)
  have "card (set ts \<union> set (paired_names (is_users s))) \<le> card (set ts \<union> ever_paired (s # ss))"
    by (rule card_mono [OF fin]) (auto simp: ever_paired_def)
  with Cons.prems have step: "check_and_announce_new_pairings mem_ok (map Some ts) s = Some (?new, map Some (ts @ ?new))"
    using announce_step [of ts s] by (simp add: Let_def)
  have "set (ts @ ?new) \<union> ever_paired ss = set ts \<union> ever_paired (s # ss)" by (auto simp: ever_paired_def)
  moreover have "distinct (ts @ ?new)" using Cons.prems(1,2) by auto
  ultimately obtain anns tr where anns: "announce_all mem_ok (map Some (ts @ ?new)) ss = Some (anns, tr)"
    "distinct anns" "set anns = ever_paired ss - set (ts @ ?new)"
    using Cons.IH [of "ts @ ?new"] Cons.prems(2,3) by (metis list.set_intros(2))
  have "distinct (?new @ anns)" "set (?new @ anns) = ever_paired (s # ss) - set ts"
    using anns(2,3) Cons.prems(2) by (auto simp: ever_paired_def)
  with step anns(1) show ?case by simp
qed (simp add: ever_paired_def)

lemma announce_all_snoc:
  "announce_all al tracked ss = Some (anns, tr) \<Longrightarrow>
   check_and_announce_new_pairings al tr s = Some (new, tr') \<Longrightarrow>
   announce_all al tracked (ss @ [s]) = Some (anns @ new, tr')"
  by (induction ss arbitrary: tracked anns) (fastforce split: option.splits)+

lemma sreachable_announced:
  "sreachable e al tracked sv \<Longrightarrow> sv_saveThreadStarted sv \<Longrightarrow>
     announce_all al tracked (sv_saved sv) = Some (sv_announced sv, sv_pairedUsers sv)"
proof (induction rule: sreachable.induct)
  case (step sv sv')
  from step(2-4) show ?case
  proof (induction rule: sstep.induct)
    case (save sv state sv')
    then obtain new tr where
      "check_and_announce_new_pairings al (sv_pairedUsers sv) state = Some (new, tr)"
      "sv_saveThreadStarted sv" "sv_saved sv' = sv_saved sv @ [state]"
      "sv_announced sv' = sv_announced sv @ new" "sv_pairedUsers sv' = tr"
      by (auto simp: save_worker_save_def split: option.splits)
    with save(3) show ?case using announce_all_snoc by metis
  qed (auto simp: tmuxremote_iam_state_changed_def save_worker_take_def tmuxremote_iam_stop_def Let_def
      split: option.splits if_splits)
qed (simp add: tmuxremote_iam_init_def)

definition terminal_actions :: "string list" where
  "terminal_actions = [''Terminal:Connect'', ''Terminal:ListSessions'', ''Terminal:CreateSession'',
     ''Terminal:Resize'', ''Terminal:Status'']"

lemma unpaired_role: "ic_unpaired_role load_iam_config = ''Unpaired''"
  by (simp add: load_iam_config_def)

lemma unpaired_allows: "role_allows load_iam_config ''Unpaired'' action \<longleftrightarrow>
    action = ''IAM:GetPairing'' \<or> action = ''IAM:PairingPasswordInvite''"
  by (auto simp: role_allows_def load_iam_config_def)

lemma owner_allows: "role_allows load_iam_config ''Owner'' action \<longleftrightarrow>
    action = ''IAM:GetPairing'' \<or> action = ''IAM:PairingPasswordInvite'' \<or> action \<in> set terminal_actions"
  by (auto simp: role_allows_def load_iam_config_def terminal_actions_def)

section \<open>Properties\<close>

text \<open>
  C19: the last state is not lost.  Under every interleaving of state changes, the saver
  thread and the shutdown, the states reach the file in the order in which they were taken,
  some of them skipped; and when the states can be serialized and written, then once the saver has gone the next start
  loads exactly the last state that was taken.
\<close>

theorem last_iam_state_is_saved:
  assumes "sreachable e al tracked sv" and "storage_works e" and "dumpable e (sv_submitted sv)"
  shows "subseq (sv_saved sv) (sv_submitted sv) \<and>
    (sv_worker sv = SvExited \<longrightarrow> sv_submitted sv \<noteq> [] \<longrightarrow>
       map_option fst (tmuxremote_iam_load_state e al (\<lambda>_. True) (sv_fs sv) (sv_iamStateFile sv)) =
         Some (last (sv_submitted sv)))"
proof -
  have wf: "wf_saver sv" by (rule sreachable_wf [OF assms(1)])
  have "subseq (sv_saved sv) (save_queue sv)" by (simp add: save_queue_def subseq_app)
  then have "subseq (sv_saved sv) (sv_submitted sv)"
    using wf unfolding wf_saver_def by (meson subseq_order.trans)
  moreover have "map_option fst (tmuxremote_iam_load_state e al (\<lambda>_. True) (sv_fs sv) (sv_iamStateFile sv)) =
      Some (last (sv_submitted sv))" if "sv_worker sv = SvExited" "sv_submitted sv \<noteq> []"
  proof -
    have "save_queue sv = sv_saved sv" using wf that by (simp add: wf_saver_def save_queue_def)
    with wf that(2) have "sv_saved sv \<noteq> []" "last (sv_saved sv) = last (sv_submitted sv)"
      by (auto simp: wf_saver_def)
    with sreachable_file [OF assms(1,2)] assms(3) show ?thesis
      by (auto simp: file_is_last_def tmuxremote_iam_load_state_def)
  qed
  ultimately show ?thesis by blast
qed

text \<open>An environment with a serializer for two states.\<close>

definition sample_state :: "iam_user list \<Rightarrow> iam_state" where
  "sample_state us = \<lparr>is_users = us, is_password_invite_pairing = True, is_password_open_pairing = False,
     is_local_open_pairing = False, is_local_initial_pairing = False, is_password_open_password = None,
     is_password_open_sct = None, is_open_pairing_role = None, is_friendly_name = None\<rparr>"

definition ann :: iam_user where
  "ann = (new_user ''ann'')\<lparr>us_fingerprints := [''f'']\<rparr>"

definition two_states :: iam_env where
  "two_states = \<lparr>ie_new_state = sample_state [], ie_username_ok = (\<lambda>_. True),
     ie_dump = (\<lambda>st. if st = sample_state [] then Some ''[]'' else if st = sample_state [ann] then Some ''[ann]'' else None),
     ie_load = (\<lambda>s. if s = ''[]'' then Some (sample_state []) else if s = ''[ann]'' then Some (sample_state [ann]) else None),
     ie_write = (\<lambda>fs path s. (True, fs(path \<mapsto> s)))\<rparr>"

text \<open>A run that submits both states and shuts down: the first one is never saved.\<close>

definition demo_run :: "iam_saver \<Rightarrow> bool" where
  "demo_run sv \<longleftrightarrow> sv_worker sv = SvExited \<and> sv_saveThreadStarted sv \<and> sv_iamStateFile sv = ''iam'' \<and>
     sv_submitted sv = [sample_state [], sample_state [ann]] \<and> sv_saved sv = [sample_state [ann]]"

lemma demo_run_reachable: "\<exists>sv. sreachable two_states mem_ok (map Some [''bob'']) sv \<and> demo_run sv"
proof -
  let ?r = "sreachable two_states mem_ok (map Some [''bob''])"
  let ?sv0 = "(tmuxremote_iam_init Map.empty ''iam'' True)\<lparr>sv_pairedUsers := map Some [''bob'']\<rparr>"
  let ?sv1 = "tmuxremote_iam_state_changed two_states (Some (sample_state [])) ?sv0"
  let ?sv2 = "tmuxremote_iam_state_changed two_states (Some (sample_state [ann])) ?sv1"
  let ?sv3 = "tmuxremote_iam_stop ?sv2"
  let ?sv4 = "?sv3\<lparr>sv_pendingState := None, sv_worker := SvSaving (sample_state [ann])\<rparr>"
  let ?sv5 = "?sv4\<lparr>sv_fs := Map.empty(''iam'' \<mapsto> ''[ann]''), sv_saved := [sample_state [ann]],
      sv_announced := [''ann''], sv_pairedUsers := map Some [''bob'', ''ann''], sv_worker := SvWaiting\<rparr>"
  let ?sv6 = "?sv5\<lparr>sv_worker := SvExited\<rparr>"
  note defs = tmuxremote_iam_init_def tmuxremote_iam_state_changed_def tmuxremote_iam_stop_def
    save_worker_take_def
  have save: "save_worker_save two_states mem_ok (sample_state [ann]) ?sv4 = Some ?sv5"
    by (simp add: defs save_worker_save_def check_and_announce_new_pairings_def save_iam_state_def two_states_def
        sample_state_def ann_def new_user_def paired_def TMUXREMOTE_IAM_MAX_USERS_def)
  have "?r ?sv1" by (rule sreachable.step [OF sreachable.init sstep.changed]) (simp add: defs)
  then have "?r ?sv2" by (rule sreachable.step) (rule sstep.changed, simp add: defs)
  then have "?r ?sv3" by (rule sreachable.step) (rule sstep.stop)
  then have "?r ?sv4" by (rule sreachable.step) (rule sstep.take, simp_all add: defs)
  then have "?r ?sv5" by (rule sreachable.step) (rule sstep.save [OF _ save], simp)
  then have "?r ?sv6" by (rule sreachable.step) (rule sstep.take, simp_all add: defs)
  moreover have "demo_run ?sv6" by (simp add: demo_run_def defs)
  ultimately show ?thesis by blast
qed

lemma two_states_works: "storage_works two_states"
  by (simp add: storage_works_def serializer_faithful_def two_states_def)

theorem last_iam_state_is_saved_witness:
  "\<exists>sv. demo_run sv \<and> map_option fst (tmuxremote_iam_load_state two_states mem_ok (\<lambda>_. True) (sv_fs sv) ''iam'') =
     Some (sample_state [ann])"
proof -
  from demo_run_reachable obtain sv where sv: "sreachable two_states mem_ok (map Some [''bob'']) sv" "demo_run sv" by blast
  then have "dumpable two_states (sv_submitted sv)" by (simp add: demo_run_def dumpable_def two_states_def)
  from last_iam_state_is_saved [OF sv(1) two_states_works this] sv(2) show ?thesis
    by (intro exI [of _ sv]) (simp add: demo_run_def)
qed

text \<open>
  Every pairing is announced once.  Starting with the users that were paired when the
  state was loaded, and as long as no more than 32 users are ever paired and names are not
  used twice in one state, the saver announces every other user that is paired in a state it
  saves, and each of them exactly once.
\<close>

theorem pairings_are_announced_once:
  assumes "sreachable e mem_ok (map Some ts) sv" and "sv_saveThreadStarted sv" and "distinct ts"
    and "\<forall>s \<in> set (sv_saved sv). distinct (paired_names (is_users s))"
    and "card (set ts \<union> ever_paired (sv_saved sv)) \<le> 32"
  shows "distinct (sv_announced sv) \<and> set (sv_announced sv) = ever_paired (sv_saved sv) - set ts"
  using announce_all_once [OF assms(3-5)] sreachable_announced [OF assms(1,2)] by auto

theorem pairings_are_announced_once_witness:
  "\<exists>sv. demo_run sv \<and> set (sv_announced sv) = {''ann''}"
proof -
  from demo_run_reachable obtain sv where sv: "sreachable two_states mem_ok (map Some [''bob'']) sv" "demo_run sv" by blast
  have "ever_paired (sv_saved sv) = {''ann''}" "distinct (paired_names (is_users (sample_state [ann])))"
    using sv(2) by (simp_all add: demo_run_def ever_paired_def paired_names_def sample_state_def ann_def new_user_def paired_def)
  with pairings_are_announced_once [OF sv(1)] sv(2) show ?thesis
    by (intro exI [of _ sv]) (simp add: demo_run_def)
qed

text \<open>
  A paired user that no longer fits into the table of 32 tracked users is announced again at
  every state change.
\<close>

lemma untracked_user_is_announced_again:
  assumes "length ts = 32" and "n \<in> set (paired_names (is_users s))" and "n \<notin> set ts"
  shows "\<exists>new. check_and_announce_new_pairings al (map Some ts) s = Some (new, map Some ts) \<and> new \<noteq> []"
proof -
  let ?new = "take 32 (filter (\<lambda>n. n \<notin> set ts) (paired_names (is_users s)))"
  have "filter (\<lambda>n. n \<notin> set ts) (paired_names (is_users s)) \<noteq> []" using assms(2,3) by (auto simp: filter_empty_conv)
  moreover have "check_and_announce_new_pairings al (map Some ts) s = Some (?new, map Some ts)"
    using assms(1) newly_paired_names [of "[]" ts "is_users s"]
    by (simp add: check_and_announce_new_pairings_def TMUXREMOTE_IAM_MAX_USERS_def)
  ultimately show ?thesis by simp
qed

text \<open>
  C20: unpaired clients can do nothing but pair, owners can use every endpoint.  With the
  rights the agent configures and the documented decision of the IAM module, every endpoint
  answers an unpaired connection with 403 and without any effect, and a connection of a user
  with the role that invitations give passes the access check of every endpoint.
\<close>

theorem unpaired_clients_have_no_effect:
  assumes "iam_decides role_of check" and "rq_allowed q = tmuxremote_iam_check_access check q"
  shows "(role_of (rq_ref q) = None \<longrightarrow>
      attach_handle_request tmux parse m q = (ErrorResponse 403 ''Access denied'', m, []) \<and>
      create_handle_request tmux parse q = (ErrorResponse 403 ''Access denied'', []) \<and>
      resize_handle_request get_pty_fd parse m q = (ErrorResponse 403 ''Access denied'', m, []) \<and>
      sessions_handle_request tmux enc q = (ErrorResponse 403 ''Access denied'', []) \<and>
      status_handle_request tmux enc now startTime q = (ErrorResponse 403 ''Access denied'', [])) \<and>
    (role_of (rq_ref q) = us_role (invited_user name pwd sct) \<longrightarrow> list_all (rq_allowed q) terminal_actions)"
proof -
  have allowed: "rq_allowed q action = role_allows load_iam_config
      (case role_of (rq_ref q) of None \<Rightarrow> ''Unpaired'' | Some r \<Rightarrow> r) action" for action
    using assms unfolding iam_decides_def tmuxremote_iam_check_access_def unpaired_role by simp
  show ?thesis
    by (auto simp: allowed unpaired_allows owner_allows attach_handle_request_def create_handle_request_def
        resize_handle_request_def sessions_handle_request_def status_handle_request_def
        invited_user_def terminal_actions_def list_all_iff)
qed

definition owner_7 :: "connection_ref \<Rightarrow> string option" where
  "owner_7 = (\<lambda>ref. if ref = 7 then Some ''Owner'' else None)"

definition configured_check :: "connection_ref \<Rightarrow> string \<Rightarrow> bool" where
  "configured_check ref action = role_allows load_iam_config
     (case owner_7 ref of None \<Rightarrow> ''Unpaired'' | Some r \<Rightarrow> r) action"

theorem unpaired_clients_have_no_effect_witness:
  "create_handle_request good_tmux attach_main
     ((sample_request True)\<lparr>rq_allowed := configured_check 5\<rparr>) = (ErrorResponse 403 ''Access denied'', [])"
proof -
  have decides: "iam_decides owner_7 configured_check"
    unfolding iam_decides_def configured_check_def unpaired_role by simp
  show ?thesis
    using unpaired_clients_have_no_effect [OF decides, of "(sample_request True)\<lparr>rq_allowed := configured_check 5\<rparr>"
        good_tmux attach_main]
    by (simp add: tmuxremote_iam_check_access_def sample_request_def owner_7_def fun_eq_iff)
qed

end
