(* ===== verification/Client_Config.thy ===== *)
theory Client_Config
  imports Pattern_Config
begin

text \<open>
  The saved agents of the CLI client: \<open>clients/cli/src/tmuxremote_client_config.c\<close>, the pairing
  string parser of \<open>tmuxremote_client_util.c\<close>, \<open>tmuxremote_rename.c\<close> and the bookkeeping of
  \<open>tmuxremote_pair.c\<close>.

  The configuration record has the device array as the list of its counted entries; the
  fixed-size strings of an entry are strings cut to the size of their buffer.  The JSON text
  parser and printer, the file system and the key generator of the SDK are parameters.  The
  printer's \<^const>\<open>None\<close> also stands for a document that could not be built.
\<close>

definition TMUXREMOTE_MAX_DEVICES :: nat where "TMUXREMOTE_MAX_DEVICES = 32"
definition TMUXREMOTE_MAX_NAME_LEN :: nat where "TMUXREMOTE_MAX_NAME_LEN = 64"

record device_bookmark =
  bm_name :: string
  bm_productId :: string
  bm_deviceId :: string
  bm_fingerprint :: string
  bm_sct :: string

record client_config =
  cc_configDir :: string
  cc_keyFile :: string
  cc_devicesFile :: string
  cc_devices :: "device_bookmark list"

record pairing_info =
  pi_productId :: string
  pi_deviceId :: string
  pi_username :: string
  pi_password :: string
  pi_sct :: string

section \<open>Pairing strings\<close>

definition store_field :: "string \<Rightarrow> string \<Rightarrow> pairing_info \<Rightarrow> pairing_info" where
  "store_field key v info =
     (let value = strncpy_term TMUXREMOTE_MAX_NAME_LEN v
      in if key = ''p'' then info\<lparr>pi_productId := value\<rparr>
         else if key = ''d'' then info\<lparr>pi_deviceId := value\<rparr>
         else if key = ''u'' then info\<lparr>pi_username := value\<rparr>
         else if key = ''pwd'' then info\<lparr>pi_password := value\<rparr>
         else if key = ''sct'' then info\<lparr>pi_sct := value\<rparr>
         else info)"

definition parse_pairing_token :: "string \<Rightarrow> pairing_info \<Rightarrow> pairing_info" where
  "parse_pairing_token token info =
     (case split_char (CHR ''='') token of
        (_, None) \<Rightarrow> info
      | (key, Some value) \<Rightarrow> store_field key value info)"

function parse_pairing_tokens :: "string \<Rightarrow> pairing_info \<Rightarrow> pairing_info" where
  "parse_pairing_tokens token info =
     (if token = [] then info
      else case split_char (CHR '','') token of
             (tok, None) \<Rightarrow> parse_pairing_token tok info
           | (tok, Some rest) \<Rightarrow> parse_pairing_tokens rest (parse_pairing_token tok info))"
  by pat_completeness auto
termination
  by (relation "measure (\<lambda>(token, _). length token)") (auto dest: split_char_length [OF sym])

declare parse_pairing_tokens.simps [simp del]

definition no_pairing_info :: pairing_info where
  "no_pairing_info = \<lparr>pi_productId = [], pi_deviceId = [], pi_username = [], pi_password = [], pi_sct = []\<rparr>"

definition tmuxremote_parse_pairing_string :: "alloc \<Rightarrow> string option \<Rightarrow> pairing_info option" where
  "tmuxremote_parse_pairing_string al str =
     (case str of
        None \<Rightarrow> None
      | Some s \<Rightarrow>
          if s = [] then None
          else case strdup al s of
                 None \<Rightarrow> None
               | Some copy \<Rightarrow>
                   let info = parse_pairing_tokens copy no_pairing_info
                   in if pi_productId info = [] \<or> pi_deviceId info = [] \<or> pi_username info = [] \<or>
                         pi_password info = [] \<or> pi_sct info = [] then None
                      else Some info)"

section \<open>Files\<close>

type_synonym files = "string \<rightharpoonup> string"

text \<open>An empty file counts as missing; the contents are used as a C string.\<close>

definition read_file :: "alloc \<Rightarrow> files \<Rightarrow> string \<Rightarrow> string option" where
  "read_file al fs path =
     (case fs path of
        None \<Rightarrow> None
      | Some s \<Rightarrow> if s = [] then None else if \<not> al (length s + 1) then None else Some (c_string s))"

text \<open>
  \<open>can_open\<close> says whether the file can be opened for writing, \<open>room\<close> how many bytes \<open>fwrite\<close>
  can write; opening truncates the file.
\<close>

record disk =
  dk_can_open :: bool
  dk_fdopen :: bool
  dk_room :: nat

definition write_file :: "disk \<Rightarrow> files \<Rightarrow> string \<Rightarrow> string \<Rightarrow> bool \<times> files" where
  "write_file dk fs path content =
     (if \<not> dk_can_open dk then (False, fs)
      else if \<not> dk_fdopen dk then (False, fs(path \<mapsto> []))
      else
        let written = take (dk_room dk) content
        in (length written = length content, fs(path \<mapsto> written)))"

definition good_disk :: disk where
  "good_disk = \<lparr>dk_can_open = True, dk_fdopen = True, dk_room = 1000000\<rparr>"

section \<open>The configuration\<close>

text \<open>\<open>snprintf\<close> into a buffer of 512 bytes.\<close>

definition path_512 :: "string \<Rightarrow> string" where
  "path_512 s = take 511 s"

definition tmuxremote_config_init :: "string option \<Rightarrow> string option \<Rightarrow> client_config option" where
  "tmuxremote_config_init baseDir home =
     (let dir = (case baseDir of
                   Some b \<Rightarrow> if b \<noteq> [] then Some b
                             else map_option (\<lambda>h. path_512 (h @ ''/.tmux-remote-client'')) home
                 | None \<Rightarrow> map_option (\<lambda>h. path_512 (h @ ''/.tmux-remote-client'')) home)
      in map_option (\<lambda>d. \<lparr>cc_configDir = d, cc_keyFile = path_512 (d @ ''/client.key''),
                          cc_devicesFile = path_512 (d @ ''/devices.json''), cc_devices = []\<rparr>) dir)"

definition string_member :: "nat \<Rightarrow> cjson \<Rightarrow> string \<Rightarrow> string" where
  "string_member n item key =
     (case cJSON_GetObjectItem (Some item) key of
        Some (JString s) \<Rightarrow> strncpy_term n s
      | _ \<Rightarrow> [])"

definition bookmark_of_item :: "cjson \<Rightarrow> device_bookmark" where
  "bookmark_of_item item =
     \<lparr>bm_name = string_member TMUXREMOTE_MAX_NAME_LEN item ''name'',
      bm_productId = string_member TMUXREMOTE_MAX_NAME_LEN item ''productId'',
      bm_deviceId = string_member TMUXREMOTE_MAX_NAME_LEN item ''deviceId'',
      bm_fingerprint = string_member 128 item ''fingerprint'',
      bm_sct = string_member TMUXREMOTE_MAX_NAME_LEN item ''sct''\<rparr>"

definition tmuxremote_config_load_devices ::
  "alloc \<Rightarrow> (string \<Rightarrow> cjson option) \<Rightarrow> files \<Rightarrow> client_config \<Rightarrow> bool \<times> client_config" where
  "tmuxremote_config_load_devices al parse fs config =
     (let config = config\<lparr>cc_devices := []\<rparr>
      in case read_file al fs (cc_devicesFile config) of
           None \<Rightarrow> (True, config)
         | Some json \<Rightarrow>
             (case parse json of
                None \<Rightarrow> (False, config)
              | Some root \<Rightarrow>
                  (case cJSON_GetObjectItem (Some root) ''devices'' of
                     Some (JArray items) \<Rightarrow>
                       (True, config\<lparr>cc_devices := map bookmark_of_item
                          (filter (\<lambda>i. cJSON_IsObject (Some i)) (take TMUXREMOTE_MAX_DEVICES items))\<rparr>)
                   | _ \<Rightarrow> (True, config))))"

definition item_of_bookmark :: "device_bookmark \<Rightarrow> cjson" where
  "item_of_bookmark dev =
     JObject [(''name'', JString (bm_name dev)), (''productId'', JString (bm_productId dev)),
              (''deviceId'', JString (bm_deviceId dev)), (''fingerprint'', JString (bm_fingerprint dev)),
              (''sct'', JString (bm_sct dev))]"

definition tmuxremote_config_save_devices ::
  "(cjson \<Rightarrow> string option) \<Rightarrow> disk \<Rightarrow> files \<Rightarrow> client_config \<Rightarrow> bool \<times> files" where
  "tmuxremote_config_save_devices print dk fs config =
     (case print (JObject [(''devices'', JArray (map item_of_bookmark (cc_devices config)))]) of
        None \<Rightarrow> (False, fs)
      | Some json \<Rightarrow> write_file dk fs (cc_devicesFile config) json)"

definition tmuxremote_config_add_device ::
  "(cjson \<Rightarrow> string option) \<Rightarrow> disk \<Rightarrow> files \<Rightarrow> client_config \<Rightarrow> device_bookmark
     \<Rightarrow> bool \<times> files \<times> client_config" where
  "tmuxremote_config_add_device print dk fs config device =
     (if length (cc_devices config) \<ge> TMUXREMOTE_MAX_DEVICES then (False, fs, config)
      else
        let config = config\<lparr>cc_devices := cc_devices config @ [device]\<rparr>;
            (ok, fs) = tmuxremote_config_save_devices print dk fs config
        in (ok, fs, config))"

text \<open>The index of the first entry with a property.\<close>

fun index_of :: "(device_bookmark \<Rightarrow> bool) \<Rightarrow> device_bookmark list \<Rightarrow> nat option" where
  "index_of P [] = None"
| "index_of P (d # ds) = (if P d then Some 0 else map_option Suc (index_of P ds))"

definition tmuxremote_config_replace_device ::
  "(cjson \<Rightarrow> string option) \<Rightarrow> disk \<Rightarrow> files \<Rightarrow> client_config \<Rightarrow> string \<Rightarrow> device_bookmark
     \<Rightarrow> bool \<times> files \<times> client_config" where
  "tmuxremote_config_replace_device print dk fs config deviceId device =
     (case index_of (\<lambda>d. bm_deviceId d = deviceId) (cc_devices config) of
        None \<Rightarrow> (False, fs, config)
      | Some i \<Rightarrow>
          let config = config\<lparr>cc_devices := (cc_devices config)[i := device]\<rparr>;
              (ok, fs) = tmuxremote_config_save_devices print dk fs config
          in (ok, fs, config))"

text \<open>The pointer into the array is an index.\<close>

definition tmuxremote_config_find_device :: "client_config \<Rightarrow> string \<Rightarrow> nat option" where
  "tmuxremote_config_find_device config name =
     (case index_of (\<lambda>d. bm_name d = name \<or> bm_deviceId d = name) (cc_devices config) of
        Some i \<Rightarrow> Some i
      | None \<Rightarrow>
          (case strtol name of
             Some (idx, []) \<Rightarrow>
               if 0 \<le> idx \<and> idx < int (length (cc_devices config)) then Some (nat idx) else None
           | _ \<Rightarrow> None))"

text \<open>The key generator of the SDK is a parameter.\<close>

definition tmuxremote_config_load_or_create_key ::
  "alloc \<Rightarrow> string option \<Rightarrow> disk \<Rightarrow> files \<Rightarrow> client_config \<Rightarrow> string option \<times> files" where
  "tmuxremote_config_load_or_create_key al create_private_key dk fs config =
     (case read_file al fs (cc_keyFile config) of
        Some key \<Rightarrow> (Some key, fs)
      | None \<Rightarrow>
          (case create_private_key of
             None \<Rightarrow> (None, fs)
           | Some key \<Rightarrow>
               let (ok, fs) = write_file dk fs (cc_keyFile config) key
               in (if ok then strdup al key else None, fs)))"

section \<open>Renaming and pairing\<close>

text \<open>\<open>tmuxremote_cmd_rename\<close> after the argument check: the exit code and the files.\<close>

definition tmuxremote_cmd_rename ::
  "alloc \<Rightarrow> (string \<Rightarrow> cjson option) \<Rightarrow> (cjson \<Rightarrow> string option) \<Rightarrow> disk \<Rightarrow> files \<Rightarrow> client_config option
     \<Rightarrow> string \<Rightarrow> string \<Rightarrow> int \<times> files" where
  "tmuxremote_cmd_rename al parse print dk fs config_init currentName newName =
     (case config_init of
        None \<Rightarrow> (1, fs)
      | Some config \<Rightarrow>
          let config = snd (tmuxremote_config_load_devices al parse fs config)
          in case tmuxremote_config_find_device config currentName of
               None \<Rightarrow> (1, fs)
             | Some i \<Rightarrow>
                 let dev = (cc_devices config ! i)\<lparr>bm_name := strncpy_term TMUXREMOTE_MAX_NAME_LEN newName\<rparr>;
                     (ok, fs) = tmuxremote_config_save_devices print dk fs
                                  (config\<lparr>cc_devices := (cc_devices config)[i := dev]\<rparr>)
                 in (if ok then 0 else 1, fs))"

text \<open>The bookmark that \<open>tmuxremote_cmd_pair\<close> builds.\<close>

definition new_bookmark :: "pairing_info \<Rightarrow> string option \<Rightarrow> string option \<Rightarrow> device_bookmark" where
  "new_bookmark info friendlyName fingerprint =
     \<lparr>bm_name = strncpy_term TMUXREMOTE_MAX_NAME_LEN
        (case friendlyName of Some n \<Rightarrow> n | None \<Rightarrow> pi_deviceId info),
      bm_productId = strncpy_term TMUXREMOTE_MAX_NAME_LEN (pi_productId info),
      bm_deviceId = strncpy_term TMUXREMOTE_MAX_NAME_LEN (pi_deviceId info),
      bm_fingerprint = (case fingerprint of Some f \<Rightarrow> strncpy_term 128 f | None \<Rightarrow> []),
      bm_sct = strncpy_term TMUXREMOTE_MAX_NAME_LEN (pi_sct info)\<rparr>"

text \<open>How it is saved: \<open>replacing\<close> when \<open>tmuxremote_config_find_device\<close> knows the device id.\<close>

definition save_pairing ::
  "(cjson \<Rightarrow> string option) \<Rightarrow> disk \<Rightarrow> files \<Rightarrow> client_config \<Rightarrow> pairing_info \<Rightarrow> string option
     \<Rightarrow> string option \<Rightarrow> bool \<times> files \<times> client_config" where
  "save_pairing print dk fs config info friendlyName fingerprint =
     (let replacing = (tmuxremote_config_find_device config (pi_deviceId info) \<noteq> None);
          bookmark = new_bookmark info friendlyName fingerprint
      in if replacing then tmuxremote_config_replace_device print dk fs config (pi_deviceId info) bookmark
         else tmuxremote_config_add_device print dk fs config bookmark)"

section \<open>Lemmas\<close>

text \<open>Documented behaviour of the JSON library: printing and parsing again gives the document.\<close>

definition json_faithful :: "(string \<Rightarrow> cjson option) \<Rightarrow> (cjson \<Rightarrow> string option) \<Rightarrow> bool" where
  "json_faithful parse print \<longleftrightarrow>
     (\<forall>j s. print j = Some s \<longrightarrow> s \<noteq> [] \<and> NUL \<notin> set s \<and> parse s = Some j)"

definition wf_bookmark :: "device_bookmark \<Rightarrow> bool" where
  "wf_bookmark d \<longleftrightarrow> length (bm_name d) < 64 \<and> length (bm_productId d) < 64 \<and>
     length (bm_deviceId d) < 64 \<and> length (bm_fingerprint d) < 128 \<and> length (bm_sct d) < 64"

definition wf_config :: "client_config \<Rightarrow> bool" where
  "wf_config c \<longleftrightarrow> length (cc_devices c) \<le> TMUXREMOTE_MAX_DEVICES \<and> list_all wf_bookmark (cc_devices c)"

lemma bookmark_item:
  "wf_bookmark d \<Longrightarrow> bookmark_of_item (item_of_bookmark d) = d"
  by (simp add: bookmark_of_item_def item_of_bookmark_def string_member_def cJSON_GetObjectItem_def
      case_insensitive_equal_def tolower_def wf_bookmark_def TMUXREMOTE_MAX_NAME_LEN_def strncpy_term_id)

lemma bookmark_of_item_wf: "wf_bookmark (bookmark_of_item item)"
proof -
  have "length (string_member n item key) < n" if "0 < n" for n key
    using that by (auto simp: string_member_def strncpy_term_def split: option.splits cjson.splits)
  then show ?thesis by (simp add: wf_bookmark_def bookmark_of_item_def TMUXREMOTE_MAX_NAME_LEN_def)
qed

lemma load_devices_wf: "wf_config (snd (tmuxremote_config_load_devices al parse fs c))"
proof -
  have "list_all wf_bookmark (map bookmark_of_item xs)" for xs
    by (auto simp: list_all_iff bookmark_of_item_wf)
  moreover have "length (map bookmark_of_item (filter P (take 32 xs))) \<le> 32" for P xs
    by (metis length_filter_le length_map length_take min.bounded_iff min.cobounded2 order_trans)
  ultimately show ?thesis
    by (auto simp: tmuxremote_config_load_devices_def wf_config_def TMUXREMOTE_MAX_DEVICES_def Let_def
        split: option.splits cjson.splits)
qed

lemma saved_is_loaded:
  assumes faithful: "json_faithful parse print" and wf: "wf_config c"
    and save: "tmuxremote_config_save_devices print dk fs c = (True, fs')"
    and path: "cc_devicesFile c' = cc_devicesFile c"
  shows "tmuxremote_config_load_devices mem_ok parse fs' c' = (True, c'\<lparr>cc_devices := cc_devices c\<rparr>)"
proof -
  let ?j = "JObject [(''devices'', JArray (map item_of_bookmark (cc_devices c)))]"
  from save obtain s where s: "print ?j = Some s" "write_file dk fs (cc_devicesFile c) s = (True, fs')"
    by (auto simp: tmuxremote_config_save_devices_def split: option.splits)
  from s(2) have "fs' (cc_devicesFile c) = Some s"
    by (auto simp: write_file_def Let_def split: if_splits)
  moreover have "s \<noteq> []" "NUL \<notin> set s" "parse s = Some ?j" using faithful s(1) by (auto simp: json_faithful_def)
  ultimately have read: "read_file mem_ok fs' (cc_devicesFile c) = Some s" "parse s = Some ?j"
    by (simp_all add: read_file_def c_string_id)
  have "cJSON_GetObjectItem (Some ?j) ''devices'' = Some (JArray (map item_of_bookmark (cc_devices c)))"
    by (simp add: cJSON_GetObjectItem_def case_insensitive_equal_def)
  moreover have "map bookmark_of_item (filter (\<lambda>i. cJSON_IsObject (Some i))
      (take 32 (map item_of_bookmark (cc_devices c)))) = cc_devices c"
  proof -
    have obj: "filter (\<lambda>i. cJSON_IsObject (Some i)) (map item_of_bookmark ds) = map item_of_bookmark ds" for ds
      by (simp add: filter_id_conv item_of_bookmark_def)
    have "map bookmark_of_item (map item_of_bookmark ds) = ds" if "list_all wf_bookmark ds" for ds
      using that by (induction ds) (simp_all add: bookmark_item)
    with wf show ?thesis by (simp add: obj wf_config_def TMUXREMOTE_MAX_DEVICES_def)
  qed
  ultimately show ?thesis
    using read path by (simp add: tmuxremote_config_load_devices_def TMUXREMOTE_MAX_DEVICES_def)
qed

lemma index_of_Some: "index_of P ds = Some i \<Longrightarrow> i < length ds \<and> P (ds ! i)"
  by (induction ds arbitrary: i) (auto split: if_splits)

lemma index_of_None: "index_of P ds = None \<longleftrightarrow> (\<forall>d \<in> set ds. \<not> P d)"
  by (induction ds) auto

lemma index_of_append:
  "\<forall>d \<in> set ds. \<not> P d \<Longrightarrow> P d \<Longrightarrow> index_of P (ds @ [d]) = Some (length ds)"
  by (induction ds) auto

lemma write_good_disk: "length s \<le> 1000000 \<Longrightarrow> write_file good_disk fs path s = (True, fs(path \<mapsto> s))"
  by (simp add: write_file_def good_disk_def)

text \<open>What a pairing with an unknown agent saves.\<close>

lemma save_pairing_appends:
  assumes "json_faithful parse print" and "wf_config c" and "length (pi_deviceId info) < 64"
    and "tmuxremote_config_find_device c (pi_deviceId info) = None"
    and "save_pairing print dk fs c info name fp = (True, fs', c')"
  shows "cc_devices c' = cc_devices c @ [new_bookmark info name fp] \<and>
    tmuxremote_config_find_device c' (pi_deviceId info) = Some (length (cc_devices c)) \<and>
    tmuxremote_config_load_devices mem_ok parse fs' c = (True, c')"
proof -
  have c': "c' = c\<lparr>cc_devices := cc_devices c @ [new_bookmark info name fp]\<rparr>"
    and save: "tmuxremote_config_save_devices print dk fs c' = (True, fs')"
    and room: "length (cc_devices c) < TMUXREMOTE_MAX_DEVICES"
    using assms(4,5)
    by (auto simp: save_pairing_def tmuxremote_config_add_device_def Let_def split: if_splits prod.splits)
  have id: "bm_deviceId (new_bookmark info name fp) = pi_deviceId info"
    using assms(3) by (simp add: new_bookmark_def TMUXREMOTE_MAX_NAME_LEN_def strncpy_term_id)
  have "\<forall>d \<in> set (cc_devices c). \<not> (bm_name d = pi_deviceId info \<or> bm_deviceId d = pi_deviceId info)"
    using assms(4) unfolding index_of_None [symmetric] tmuxremote_config_find_device_def
    by (auto split: option.splits)
  then have found: "tmuxremote_config_find_device c' (pi_deviceId info) = Some (length (cc_devices c))"
    using index_of_append [of "cc_devices c" "\<lambda>d. bm_name d = pi_deviceId info \<or> bm_deviceId d = pi_deviceId info"] id
    by (simp add: tmuxremote_config_find_device_def c')
  have "wf_bookmark (new_bookmark info name fp)"
    by (auto simp: wf_bookmark_def new_bookmark_def strncpy_term_def TMUXREMOTE_MAX_NAME_LEN_def split: option.splits)
  then have "wf_config c'" using assms(2) room by (simp add: wf_config_def c')
  from saved_is_loaded [OF assms(1) this save, of c] found c' show ?thesis by simp
qed

section \<open>Properties\<close>


text \<open>A printer and parser for one document, and the configuration it stands for.\<close>

definition office :: device_bookmark where
  "office = \<lparr>bm_name = ''office'', bm_productId = ''pr-1'', bm_deviceId = ''de-1'', bm_fingerprint = ''ab'',
     bm_sct = ''tok''\<rparr>"

definition office_json :: cjson where
  "office_json = JObject [(''devices'', JArray [item_of_bookmark office])]"

definition office_print :: "cjson \<Rightarrow> string option" where
  "office_print j = (if j = office_json then Some ''x'' else None)"

definition office_parse :: "string \<Rightarrow> cjson option" where
  "office_parse s = (if s = ''x'' then Some office_json else None)"

definition client_with :: "device_bookmark list \<Rightarrow> client_config" where
  "client_with ds = \<lparr>cc_configDir = ''d'', cc_keyFile = ''k'', cc_devicesFile = ''f'', cc_devices = ds\<rparr>"

lemma office_faithful: "json_faithful office_parse office_print"
  by (simp add: json_faithful_def office_print_def office_parse_def)

lemma save_office:
  "tmuxremote_config_save_devices office_print good_disk fs (client_with [office]) = (True, fs(''f'' \<mapsto> ''x''))"
  by (simp add: tmuxremote_config_save_devices_def client_with_def office_print_def office_json_def write_good_disk)


text \<open>
  Pairing records the agent.  When the client knows no agent under the device id and has
  room for one more, saving the pairing appends one entry with the data of the pairing string;
  with a faithful file it is there after a reload, and looking the device id up finds it.
\<close>

theorem pairing_saves_agent:
  assumes "json_faithful parse print" and "wf_config c" and "length (pi_deviceId info) < 64"
    and "tmuxremote_config_find_device c (pi_deviceId info) = None"
    and "save_pairing print dk fs c info name fp = (True, fs', c')"
  shows "cc_devices c' = cc_devices c @ [new_bookmark info name fp] \<and>
    tmuxremote_config_find_device c' (pi_deviceId info) = Some (length (cc_devices c)) \<and>
    tmuxremote_config_load_devices mem_ok parse fs' c = (True, c')"
  by (rule save_pairing_appends [OF assms])

definition office_info :: pairing_info where
  "office_info = \<lparr>pi_productId = ''pr-1'', pi_deviceId = ''de-1'', pi_username = ''owner'', pi_password = ''pw'',
     pi_sct = ''tok''\<rparr>"

theorem pairing_saves_agent_witness:
  "tmuxremote_config_find_device (client_with [office]) ''de-1'' = Some 0 \<and>
   tmuxremote_config_load_devices mem_ok office_parse (Map.empty(''f'' \<mapsto> ''x'')) (client_with []) =
     (True, client_with [office])"
proof -
  have b: "new_bookmark office_info (Some ''office'') (Some ''ab'') = office"
    by (simp add: new_bookmark_def office_info_def office_def strncpy_term_def TMUXREMOTE_MAX_NAME_LEN_def)
  have f: "tmuxremote_config_find_device (client_with []) (pi_deviceId office_info) = None"
    by (simp add: tmuxremote_config_find_device_def client_with_def office_info_def strtol_def isdigit_def
        isspace_def)
  have "save_pairing office_print good_disk Map.empty (client_with []) office_info (Some ''office'') (Some ''ab'') =
      (True, Map.empty(''f'' \<mapsto> ''x''), client_with [office])"
    using save_office [of Map.empty] f
    by (simp add: save_pairing_def tmuxremote_config_add_device_def b client_with_def TMUXREMOTE_MAX_DEVICES_def)
  from pairing_saves_agent [OF office_faithful _ _ f this] show ?thesis
    by (simp add: wf_config_def client_with_def office_info_def)
qed


text \<open>
  A renamed agent has its new name after a reload.  When the command succeeds, exactly the
  entry it looked up has the new name, cut to 63 characters, and nothing else has changed.
\<close>

theorem rename_is_saved:
  assumes "json_faithful parse print" and "tmuxremote_config_load_devices mem_ok parse fs c0 = (True, c)"
    and "tmuxremote_cmd_rename mem_ok parse print dk fs (Some c0) cur new = (0, fs')"
  shows "\<exists>i. tmuxremote_config_find_device c cur = Some i \<and> i < length (cc_devices c) \<and>
    tmuxremote_config_load_devices mem_ok parse fs' c0 =
      (True, c\<lparr>cc_devices := (cc_devices c)[i := (cc_devices c ! i)\<lparr>bm_name := take 63 new\<rparr>]\<rparr>)"
proof -
  from assms(2,3) obtain i where find: "tmuxremote_config_find_device c cur = Some i"
    and save: "tmuxremote_config_save_devices print dk fs (c\<lparr>cc_devices :=
      (cc_devices c)[i := (cc_devices c ! i)\<lparr>bm_name := take 63 new\<rparr>]\<rparr>) = (True, fs')"
    by (auto simp: tmuxremote_cmd_rename_def Let_def strncpy_term_def TMUXREMOTE_MAX_NAME_LEN_def
        split: option.splits prod.splits if_splits)
  let ?c = "c\<lparr>cc_devices := (cc_devices c)[i := (cc_devices c ! i)\<lparr>bm_name := take 63 new\<rparr>]\<rparr>"
  have wf: "wf_config c" using load_devices_wf [of mem_ok parse fs c0] assms(2) by simp
  have i: "i < length (cc_devices c)"
    using find index_of_Some [of _ "cc_devices c" i]
    by (auto simp: tmuxremote_config_find_device_def split: option.splits list.splits if_splits)
  have "wf_bookmark (cc_devices c ! i)" using wf i by (simp add: wf_config_def list_all_length)
  then have "wf_bookmark ((cc_devices c ! i)\<lparr>bm_name := take 63 new\<rparr>)" by (simp add: wf_bookmark_def)
  with wf have "wf_config ?c"
    by (auto simp: wf_config_def list_all_iff dest!: set_update_subset_insert [THEN subsetD])
  have c0: "c = c0\<lparr>cc_devices := cc_devices c\<rparr>"
    using assms(2) by (auto simp: tmuxremote_config_load_devices_def Let_def split: option.splits cjson.splits)
  then have path: "cc_devicesFile c0 = cc_devicesFile ?c" by (metis client_config.select_convs(3)
        client_config.surjective client_config.update_convs(4))
  from saved_is_loaded [OF assms(1) \<open>wf_config ?c\<close> save path]
  have "tmuxremote_config_load_devices mem_ok parse fs' c0 = (True, c0\<lparr>cc_devices := cc_devices ?c\<rparr>)" .
  moreover have "c0\<lparr>cc_devices := cc_devices ?c\<rparr> = ?c" by (subst (3) c0) simp
  ultimately show ?thesis using find i by auto
qed

definition lab :: device_bookmark where
  "lab = office\<lparr>bm_name := ''lab''\<rparr>"

definition lab_json :: cjson where
  "lab_json = JObject [(''devices'', JArray [item_of_bookmark lab])]"

definition lab_print :: "cjson \<Rightarrow> string option" where
  "lab_print j = (if j = lab_json then Some ''y'' else office_print j)"

definition lab_parse :: "string \<Rightarrow> cjson option" where
  "lab_parse s = (if s = ''y'' then Some lab_json else office_parse s)"

theorem rename_is_saved_witness:
  "tmuxremote_config_load_devices mem_ok lab_parse (Map.empty(''f'' \<mapsto> ''y'')) (client_with []) =
     (True, client_with [lab])"
proof -
  have faithful: "json_faithful lab_parse lab_print"
    by (simp add: json_faithful_def lab_print_def lab_parse_def office_print_def office_parse_def)
  have "tmuxremote_config_load_devices mem_ok lab_parse (Map.empty(''f'' \<mapsto> ''x'')) (client_with []) =
      (True, client_with [office])"
    by (simp add: tmuxremote_config_load_devices_def client_with_def read_file_def c_string_id lab_parse_def
        office_parse_def office_json_def cJSON_GetObjectItem_def case_insensitive_equal_def
        TMUXREMOTE_MAX_DEVICES_def) (simp add: bookmark_item wf_bookmark_def office_def item_of_bookmark_def
        bookmark_of_item_def string_member_def cJSON_GetObjectItem_def case_insensitive_equal_def tolower_def
        strncpy_term_id TMUXREMOTE_MAX_NAME_LEN_def)
  note load = this
  have find: "tmuxremote_config_find_device (client_with [office]) ''office'' = Some 0"
    by (simp add: tmuxremote_config_find_device_def client_with_def office_def)
  have save_lab: "tmuxremote_config_save_devices lab_print good_disk (Map.empty(''f'' \<mapsto> ''x''))
      ((client_with [office])\<lparr>cc_devices := (cc_devices (client_with [office]))[0 := (cc_devices (client_with [office]) ! 0)
         \<lparr>bm_name := strncpy_term TMUXREMOTE_MAX_NAME_LEN ''lab''\<rparr>]\<rparr>) = (True, Map.empty(''f'' \<mapsto> ''y''))"
    by (simp add: tmuxremote_config_save_devices_def client_with_def strncpy_term_id
        TMUXREMOTE_MAX_NAME_LEN_def lab_print_def lab_json_def lab_def write_good_disk)
  have "tmuxremote_cmd_rename mem_ok lab_parse lab_print good_disk (Map.empty(''f'' \<mapsto> ''x''))
      (Some (client_with [])) ''office'' ''lab'' = (0, Map.empty(''f'' \<mapsto> ''y''))"
    using save_lab by (simp add: tmuxremote_cmd_rename_def load find)
  from rename_is_saved [OF faithful load this] find show ?thesis
    by (auto simp: client_with_def lab_def)
qed

end
