(* ===== verification/Keychain.thy ===== *)
theory Keychain
  imports Pattern_Config
begin

text \<open>
  Storage of the device's private key (\<open>agent/src/tmuxremote_keychain.c\<close>): key file names, the
  migration of a legacy key file, the macOS keychain slot, the choice of the storage in the
  device configuration, and moving the key from one storage to the other.

  The state \<open>key_world\<close> has the files and the generic passwords of the keychain service, by
  account.  The file functions of the SDK (\<open>string_file_load\<close>, \<open>string_file_save\<close>, \<open>write_file\<close>),
  \<open>remove\<close>, the Security framework, the key functions of the SDK and the JSON text functions
  are parameters, the fields of \<open>key_env\<close>; \<open>ke_apple\<close> says whether \<open>__APPLE__\<close> is defined, and
  \<open>ke_cf\<close> whether the Core Foundation objects of a query can be created.
\<close>

type_synonym file_map = "string \<rightharpoonup> string"

record key_world =
  kw_files :: file_map
  kw_keychain :: "string \<rightharpoonup> string"

record key_env =
  ke_apple :: bool
  ke_mem :: alloc
  ke_cf :: bool
  ke_exists :: "file_map \<Rightarrow> string \<Rightarrow> bool"
  ke_load :: "file_map \<Rightarrow> string \<Rightarrow> string option"
  ke_write :: "file_map \<Rightarrow> string \<Rightarrow> string \<Rightarrow> bool \<times> file_map"
  ke_remove :: "file_map \<Rightarrow> string \<Rightarrow> bool \<times> file_map"
  ke_sec_add :: "(string \<rightharpoonup> string) \<Rightarrow> string \<Rightarrow> string \<Rightarrow> bool \<times> (string \<rightharpoonup> string)"
  ke_sec_delete :: "(string \<rightharpoonup> string) \<Rightarrow> string \<Rightarrow> bool \<times> (string \<rightharpoonup> string)"
  ke_sec_copy :: "(string \<rightharpoonup> string) \<Rightarrow> string \<Rightarrow> string option"
  ke_set_private_key :: "string \<Rightarrow> bool"
  ke_fingerprint :: "string \<Rightarrow> string option"
  ke_create_private_key :: "string option"
  ke_load_or_create :: "file_map \<Rightarrow> string \<Rightarrow> string option \<times> file_map"
  ke_parse :: "string \<Rightarrow> cjson option"
  ke_print :: "cjson \<Rightarrow> string option"

section \<open>Key files\<close>

definition tmuxremote_is_key_component_char :: "char \<Rightarrow> bool" where
  "tmuxremote_is_key_component_char c \<longleftrightarrow> isalnum c \<or> c = CHR ''-'' \<or> c = CHR ''_'' \<or> c = CHR ''.''"

definition tmuxremote_sanitize_key_component :: "alloc \<Rightarrow> string option \<Rightarrow> string option" where
  "tmuxremote_sanitize_key_component al input =
     (let src = (case input of Some s \<Rightarrow> if s \<noteq> [] then s else ''unknown'' | None \<Rightarrow> ''unknown'')
      in if \<not> al (length src + 1) then None
         else Some (map (\<lambda>c. if tmuxremote_is_key_component_char c then c else CHR ''_'') src))"

definition tmuxremote_device_key_file_path ::
  "alloc \<Rightarrow> string option \<Rightarrow> string option \<Rightarrow> string option \<Rightarrow> string option" where
  "tmuxremote_device_key_file_path al homeDir productId deviceId =
     (case homeDir of
        None \<Rightarrow> None
      | Some home \<Rightarrow>
          (case (tmuxremote_sanitize_key_component al productId, tmuxremote_sanitize_key_component al deviceId) of
             (Some p, Some d) \<Rightarrow>
               let path = home @ ''/keys/'' @ p @ ''_'' @ d @ ''.key''
               in if al (length path + 1) then Some path else None
           | _ \<Rightarrow> None))"

definition tmuxremote_ensure_namespaced_key_file ::
  "key_env \<Rightarrow> file_map \<Rightarrow> string option \<Rightarrow> string option \<Rightarrow> bool \<times> file_map" where
  "tmuxremote_ensure_namespaced_key_file e fs legacyKeyFile namespacedKeyFile =
     (case (legacyKeyFile, namespacedKeyFile) of
        (Some legacy, Some namespaced) \<Rightarrow>
          if legacy = namespaced then (True, fs)
          else if ke_exists e fs namespaced then (True, fs)
          else if \<not> ke_exists e fs legacy then (True, fs)
          else (case ke_load e fs legacy of
                  None \<Rightarrow> (False, fs)
                | Some keyData \<Rightarrow> ke_write e fs namespaced keyData)
      | _ \<Rightarrow> (False, fs))"

section \<open>The keychain slot\<close>

definition tmuxremote_keychain_account_for_device ::
  "alloc \<Rightarrow> string option \<Rightarrow> string option \<Rightarrow> string option" where
  "tmuxremote_keychain_account_for_device al productId deviceId =
     (case (productId, deviceId) of
        (Some p, Some d) \<Rightarrow>
          if p = [] \<or> d = [] then None
          else let account = ''p='' @ p @ '',d='' @ d in if al (length account + 1) then Some account else None
      | _ \<Rightarrow> None)"

text \<open>The status of the deletion is ignored.\<close>

definition tmuxremote_keychain_save_private_key_slot ::
  "key_env \<Rightarrow> key_world \<Rightarrow> string \<Rightarrow> string \<Rightarrow> bool \<times> key_world" where
  "tmuxremote_keychain_save_private_key_slot e w account pemKey =
     (if \<not> ke_cf e then (False, w)
      else
        let keychain = snd (ke_sec_delete e (kw_keychain w) account);
            (ok, keychain) = ke_sec_add e keychain account pemKey
        in (ok, w\<lparr>kw_keychain := keychain\<rparr>))"

definition tmuxremote_keychain_load_private_key_slot :: "key_env \<Rightarrow> key_world \<Rightarrow> string \<Rightarrow> string option" where
  "tmuxremote_keychain_load_private_key_slot e w account =
     (if \<not> ke_cf e then None
      else case ke_sec_copy e (kw_keychain w) account of
             None \<Rightarrow> None
           | Some pem \<Rightarrow> if ke_mem e (length pem + 1) then Some pem else None)"

definition delete_private_key_keychain_storage :: "key_env \<Rightarrow> key_world \<Rightarrow> string \<Rightarrow> bool \<times> key_world" where
  "delete_private_key_keychain_storage e w account =
     (if \<not> ke_cf e then (False, w)
      else let (ok, keychain) = ke_sec_delete e (kw_keychain w) account
           in (ok, w\<lparr>kw_keychain := keychain\<rparr>))"

definition tmuxremote_keychain_available :: "key_env \<Rightarrow> bool" where
  "tmuxremote_keychain_available e = ke_apple e"

text \<open>
  The outcome of starting with a key: the key the device got (\<^const>\<open>None\<close> when the function
  returns \<open>false\<close>), whether the keychain was used, and the world.
\<close>

type_synonym key_outcome = "string option \<times> bool \<times> key_world"

definition load_or_create_file_key :: "key_env \<Rightarrow> key_world \<Rightarrow> string \<Rightarrow> key_outcome" where
  "load_or_create_file_key e w keyFile =
     (let (key, fs) = ke_load_or_create e (kw_files w) keyFile in (key, False, w\<lparr>kw_files := fs\<rparr>))"

definition tmuxremote_load_or_create_private_key ::
  "key_env \<Rightarrow> key_world \<Rightarrow> string \<Rightarrow> string option \<Rightarrow> string option \<Rightarrow> bool \<Rightarrow> key_outcome" where
  "tmuxremote_load_or_create_private_key e w keyFile productId deviceId useKeychain =
     (if \<not> useKeychain then load_or_create_file_key e w keyFile
      else if \<not> ke_apple e then load_or_create_file_key e w keyFile
      else case tmuxremote_keychain_account_for_device (ke_mem e) productId deviceId of
             None \<Rightarrow> load_or_create_file_key e w keyFile
           | Some account \<Rightarrow>
               (case tmuxremote_keychain_load_private_key_slot e w account of
                  Some pem \<Rightarrow> if ke_set_private_key e pem then (Some pem, True, w) else (None, False, w)
                | None \<Rightarrow>
                    (case ke_create_private_key e of
                       None \<Rightarrow> (None, False, w)
                     | Some newKey \<Rightarrow>
                         let (ok, w) = tmuxremote_keychain_save_private_key_slot e w account newKey
                         in if \<not> ok then (None, False, w)
                            else if ke_set_private_key e newKey then (Some newKey, True, w)
                            else (None, False, w))))"

section \<open>Moving the key\<close>

definition fingerprint_for_private_key :: "key_env \<Rightarrow> string \<Rightarrow> string option" where
  "fingerprint_for_private_key e pemKey =
     (if \<not> ke_set_private_key e pemKey then None
      else case ke_fingerprint e pemKey of None \<Rightarrow> None | Some fp \<Rightarrow> strdup (ke_mem e) fp)"

definition load_private_key_from_file_storage :: "key_env \<Rightarrow> key_world \<Rightarrow> string \<Rightarrow> string option" where
  "load_private_key_from_file_storage e w keyFile =
     (case ke_load e (kw_files w) keyFile of
        None \<Rightarrow> None
      | Some pem \<Rightarrow> if pem = [] then None else Some pem)"

definition save_private_key_to_file_storage ::
  "key_env \<Rightarrow> key_world \<Rightarrow> string \<Rightarrow> string \<Rightarrow> bool \<times> key_world" where
  "save_private_key_to_file_storage e w keyFile pemKey =
     (let (ok, fs) = ke_write e (kw_files w) keyFile pemKey in (ok, w\<lparr>kw_files := fs\<rparr>))"

definition delete_private_key_file_storage :: "key_env \<Rightarrow> key_world \<Rightarrow> string \<Rightarrow> bool \<times> key_world" where
  "delete_private_key_file_storage e w keyFile =
     (let (ok, fs) = ke_remove e (kw_files w) keyFile in (ok, w\<lparr>kw_files := fs\<rparr>))"

definition load_private_key_from_storage ::
  "key_env \<Rightarrow> string \<Rightarrow> string option \<Rightarrow> string option \<Rightarrow> bool \<Rightarrow> key_world \<Rightarrow> string option" where
  "load_private_key_from_storage e keyFile productId deviceId useKeychain w =
     (if \<not> useKeychain then load_private_key_from_file_storage e w keyFile
      else if \<not> ke_apple e then None
      else case tmuxremote_keychain_account_for_device (ke_mem e) productId deviceId of
             None \<Rightarrow> None
           | Some account \<Rightarrow> tmuxremote_keychain_load_private_key_slot e w account)"

definition save_private_key_to_storage ::
  "key_env \<Rightarrow> string \<Rightarrow> string option \<Rightarrow> string option \<Rightarrow> bool \<Rightarrow> string \<Rightarrow> key_world \<Rightarrow> bool \<times> key_world" where
  "save_private_key_to_storage e keyFile productId deviceId useKeychain pemKey w =
     (if \<not> useKeychain then save_private_key_to_file_storage e w keyFile pemKey
      else if \<not> ke_apple e then (False, w)
      else case tmuxremote_keychain_account_for_device (ke_mem e) productId deviceId of
             None \<Rightarrow> (False, w)
           | Some account \<Rightarrow> tmuxremote_keychain_save_private_key_slot e w account pemKey)"

definition delete_private_key_from_storage ::
  "key_env \<Rightarrow> string \<Rightarrow> string option \<Rightarrow> string option \<Rightarrow> bool \<Rightarrow> key_world \<Rightarrow> bool \<times> key_world" where
  "delete_private_key_from_storage e keyFile productId deviceId useKeychain w =
     (if \<not> useKeychain then delete_private_key_file_storage e w keyFile
      else if \<not> ke_apple e then (False, w)
      else case tmuxremote_keychain_account_for_device (ke_mem e) productId deviceId of
             None \<Rightarrow> (False, w)
           | Some account \<Rightarrow> delete_private_key_keychain_storage e w account)"

text \<open>
  The choice in the device configuration.  \<open>cJSON_DeleteItemFromObjectCaseSensitive\<close> removes the
  first member of the name; \<open>cJSON_AddBoolToObject\<close> appends a member, also to an array, and has no
  effect on the text of a value without members.
\<close>

definition KEYCHAIN_CONFIG_KEY :: string where "KEYCHAIN_CONFIG_KEY = ''KeychainKey''"

definition cJSON_GetObjectItemCaseSensitive :: "cjson \<Rightarrow> string \<Rightarrow> cjson option" where
  "cJSON_GetObjectItemCaseSensitive j name =
     (case j of JObject ms \<Rightarrow> map_of ms name | _ \<Rightarrow> None)"

fun delete_member :: "string \<Rightarrow> (string \<times> cjson) list \<Rightarrow> (string \<times> cjson) list" where
  "delete_member name [] = []"
| "delete_member name ((n, x) # ms) = (if n = name then ms else (n, x) # delete_member name ms)"

fun set_keychain_member :: "bool \<Rightarrow> cjson \<Rightarrow> cjson" where
  "set_keychain_member b (JObject ms) =
     JObject (delete_member KEYCHAIN_CONFIG_KEY ms @ [(KEYCHAIN_CONFIG_KEY, JBool b)])"
| "set_keychain_member b (JArray xs) = JArray (xs @ [JBool b])"
| "set_keychain_member b j = j"

definition keychain_setting :: "key_env \<Rightarrow> string option \<Rightarrow> bool" where
  "keychain_setting e str =
     (case str of
        None \<Rightarrow> False
      | Some s \<Rightarrow>
          (case ke_parse e s of
             None \<Rightarrow> False
           | Some json \<Rightarrow> cJSON_GetObjectItemCaseSensitive json KEYCHAIN_CONFIG_KEY = Some (JBool True)))"

definition tmuxremote_config_get_keychain_key :: "key_env \<Rightarrow> key_world \<Rightarrow> string \<Rightarrow> bool" where
  "tmuxremote_config_get_keychain_key e w deviceConfigFile =
     keychain_setting e (ke_load e (kw_files w) deviceConfigFile)"

definition tmuxremote_config_set_keychain_key ::
  "key_env \<Rightarrow> string \<Rightarrow> bool \<Rightarrow> key_world \<Rightarrow> bool \<times> key_world" where
  "tmuxremote_config_set_keychain_key e deviceConfigFile useKeychain w =
     (case ke_load e (kw_files w) deviceConfigFile of
        None \<Rightarrow> (False, w)
      | Some str \<Rightarrow>
          (case ke_parse e str of
             None \<Rightarrow> (False, w)
           | Some json \<Rightarrow>
               (case ke_print e (set_keychain_member useKeychain json) of
                  None \<Rightarrow> (False, w)
                | Some out \<Rightarrow>
                    let (ok, fs) = ke_write e (kw_files w) deviceConfigFile out in (ok, w\<lparr>kw_files := fs\<rparr>))))"

text \<open>A failing deletion of the source is only a warning.\<close>

definition tmuxremote_move_private_key_storage ::
  "key_env \<Rightarrow> string \<Rightarrow> string \<Rightarrow> string option \<Rightarrow> string option \<Rightarrow> bool \<Rightarrow> bool \<Rightarrow> key_world
     \<Rightarrow> bool \<times> key_world" where
  "tmuxremote_move_private_key_storage e deviceConfigFile keyFile productId deviceId
       sourceUseKeychain targetUseKeychain w =
     (if sourceUseKeychain = targetUseKeychain then (True, w)
      else case load_private_key_from_storage e keyFile productId deviceId sourceUseKeychain w of
        None \<Rightarrow> (False, w)
      | Some sourcePem \<Rightarrow>
      (case fingerprint_for_private_key e sourcePem of
         None \<Rightarrow> (False, w)
       | Some sourceFingerprint \<Rightarrow>
           let (ok, w) = save_private_key_to_storage e keyFile productId deviceId targetUseKeychain sourcePem w
           in if \<not> ok then (False, w)
              else case load_private_key_from_storage e keyFile productId deviceId targetUseKeychain w of
                None \<Rightarrow> (False, w)
              | Some targetPem \<Rightarrow>
              (case fingerprint_for_private_key e targetPem of
                 None \<Rightarrow> (False, w)
               | Some targetFingerprint \<Rightarrow>
                   if sourceFingerprint \<noteq> targetFingerprint then (False, w)
                   else let (ok, w) = tmuxremote_config_set_keychain_key e deviceConfigFile targetUseKeychain w
                        in if \<not> ok then (False, w)
                           else (True, snd (delete_private_key_from_storage e keyFile productId deviceId
                                              sourceUseKeychain w)))))"

section \<open>Lemmas\<close>

text \<open>
  Documented behaviour of the file system, the keychain and the JSON library: a function called
  for one path or account leaves the others alone, loading returns what is stored (or fails), a
  successful write or addition stores, and printed documents parse to themselves.
\<close>

definition key_env_ok :: "key_env \<Rightarrow> bool" where
  "key_env_ok e \<longleftrightarrow>
     (\<forall>fs p. ke_exists e fs p = (fs p \<noteq> None)) \<and>
     (\<forall>fs p s. ke_load e fs p = Some s \<longrightarrow> fs p = Some s) \<and>
     (\<forall>fs p s ok fs'. ke_write e fs p s = (ok, fs') \<longrightarrow>
        (\<forall>q. q \<noteq> p \<longrightarrow> fs' q = fs q) \<and> (ok \<longrightarrow> fs' p = Some s)) \<and>
     (\<forall>fs p ok fs'. ke_remove e fs p = (ok, fs') \<longrightarrow> (\<forall>q. q \<noteq> p \<longrightarrow> fs' q = fs q)) \<and>
     (\<forall>kc a s. ke_sec_copy e kc a = Some s \<longrightarrow> kc a = Some s) \<and>
     (\<forall>j s. ke_print e j = Some s \<longrightarrow> ke_parse e s = Some j)"

lemma key_env_okD:
  assumes "key_env_ok e"
  shows env_exists: "ke_exists e fs p = (fs p \<noteq> None)"
    and env_load: "ke_load e fs p = Some s \<Longrightarrow> fs p = Some s"
    and env_write_other: "ke_write e fs p s = (ok, fs') \<Longrightarrow> q \<noteq> p \<Longrightarrow> fs' q = fs q"
    and env_write: "ke_write e fs p s = (True, fs') \<Longrightarrow> fs' p = Some s"
    and env_remove: "ke_remove e fs p = (ok, fs') \<Longrightarrow> q \<noteq> p \<Longrightarrow> fs' q = fs q"
    and env_copy: "ke_sec_copy e kc a = Some s \<Longrightarrow> kc a = Some s"
    and env_print: "ke_print e j = Some s \<Longrightarrow> ke_parse e s = Some j"
  using assms unfolding key_env_ok_def by metis+

text \<open>What a storage holds, what the configuration says, and that it is an object with one setting.\<close>

definition key_held :: "key_env \<Rightarrow> string \<Rightarrow> string option \<Rightarrow> string option \<Rightarrow> bool \<Rightarrow> key_world \<Rightarrow> string option" where
  "key_held e keyFile p d useKeychain w =
     (if \<not> useKeychain then kw_files w keyFile
      else case tmuxremote_keychain_account_for_device (ke_mem e) p d of
             None \<Rightarrow> None | Some account \<Rightarrow> kw_keychain w account)"

definition configured :: "key_env \<Rightarrow> string \<Rightarrow> key_world \<Rightarrow> bool" where
  "configured e cfg w = keychain_setting e (kw_files w cfg)"

definition config_ok :: "key_env \<Rightarrow> string \<Rightarrow> key_world \<Rightarrow> bool" where
  "config_ok e cfg w \<longleftrightarrow>
     (\<exists>s ms. kw_files w cfg = Some s \<and> ke_parse e s = Some (JObject ms) \<and>
        length (filter (\<lambda>m. fst m = KEYCHAIN_CONFIG_KEY) ms) \<le> 1)"

definition stores_ok :: "key_env \<Rightarrow> string \<Rightarrow> string \<Rightarrow> key_world \<Rightarrow> bool" where
  "stores_ok e cfg keyFile w \<longleftrightarrow> key_env_ok e \<and> keyFile \<noteq> cfg \<and> config_ok e cfg w"

text \<open>
  Two storages of one key and the choice between them: what moving the key relies on.  An
  operation on one storage leaves the other storage and the choice alone; changing the choice
  leaves both storages alone.
\<close>

locale key_stores =
  fixes ok :: "'w \<Rightarrow> bool"
    and held :: "bool \<Rightarrow> 'w \<Rightarrow> string option"
    and choice :: "'w \<Rightarrow> bool"
    and load :: "bool \<Rightarrow> 'w \<Rightarrow> string option"
    and save :: "bool \<Rightarrow> string \<Rightarrow> 'w \<Rightarrow> bool \<times> 'w"
    and delete :: "bool \<Rightarrow> 'w \<Rightarrow> bool \<times> 'w"
    and change :: "bool \<Rightarrow> 'w \<Rightarrow> bool \<times> 'w"
  assumes load_held: "ok w \<Longrightarrow> load b w = Some s \<Longrightarrow> held b w = Some s"
    and save_keeps: "ok w \<Longrightarrow> save b s w = (r, w') \<Longrightarrow>
      ok w' \<and> choice w' = choice w \<and> held (\<not> b) w' = held (\<not> b) w"
    and delete_keeps: "ok w \<Longrightarrow> delete b w = (r, w') \<Longrightarrow>
      choice w' = choice w \<and> held (\<not> b) w' = held (\<not> b) w"
    and change_keeps: "ok w \<Longrightarrow> change b w = (r, w') \<Longrightarrow>
      held c w' = held c w \<and> (r \<longrightarrow> ok w' \<and> choice w' = b)"
begin

text \<open>While both storages hold an acceptable key, no choice can lose it.\<close>

lemma change_safe:
  assumes "ok w" and "held b w = Some k" and "P k" and "held (\<not> b) w = Some k'" and "P k'"
    and "change c w = (r, w')"
  shows "\<exists>k. held (choice w') w' = Some k \<and> P k"
proof -
  have same: "held x w' = held x w" for x using change_keeps [OF assms(1,6)] by simp
  show ?thesis
  proof (cases "choice w' = b")
    case True
    with assms(2,3) show ?thesis by (simp add: same)
  next
    case False
    then have "choice w' = (\<not> b)" by simp
    with assms(4,5) show ?thesis by (simp add: same)
  qed
qed

lemma delete_safe:
  assumes "ok w" and "choice w = (\<not> b)" and "held (\<not> b) w = Some k" and "delete b w = (r, w')"
  shows "choice w' = (\<not> b) \<and> held (choice w') w' = Some k"
  using delete_keeps [OF assms(1,4)] assms(2,3) by simp

lemma save_safe:
  assumes "ok w" and "choice w = (\<not> b)" and "held (\<not> b) w = Some k" and "save b s w = (r, w')"
  shows "ok w' \<and> choice w' = (\<not> b) \<and> held (\<not> b) w' = Some k"
  using save_keeps [OF assms(1,4)] assms(2,3) by simp

end

lemma delete_member_none:
  "length (filter (\<lambda>m. fst m = k) ms) \<le> 1 \<Longrightarrow> filter (\<lambda>m. fst m = k) (delete_member k ms) = []"
  by (induction k ms rule: delete_member.induct) auto

lemma delete_member_other: "q \<noteq> k \<Longrightarrow> map_of (delete_member k ms) q = map_of ms q"
  by (induction k ms rule: delete_member.induct) auto

lemma set_member_object:
  assumes "length (filter (\<lambda>m. fst m = KEYCHAIN_CONFIG_KEY) ms) \<le> 1"
    and "set_keychain_member b (JObject ms) = JObject ms'"
  shows "map_of ms' KEYCHAIN_CONFIG_KEY = Some (JBool b)"
    and "length (filter (\<lambda>m. fst m = KEYCHAIN_CONFIG_KEY) ms') \<le> 1"
proof -
  have none: "filter (\<lambda>m. fst m = KEYCHAIN_CONFIG_KEY) (delete_member KEYCHAIN_CONFIG_KEY ms) = []"
    using delete_member_none [OF assms(1)] .
  then have "map_of (delete_member KEYCHAIN_CONFIG_KEY ms) KEYCHAIN_CONFIG_KEY = None"
    by (auto simp: map_of_eq_None_iff filter_empty_conv)
  with assms(2) show "map_of ms' KEYCHAIN_CONFIG_KEY = Some (JBool b)" by (auto simp: map_add_def)
  from none assms(2) show "length (filter (\<lambda>m. fst m = KEYCHAIN_CONFIG_KEY) ms') \<le> 1" by auto
qed

text \<open>Setting the choice changes nothing, or writes the new document.\<close>

lemma set_keychain_key_cases:
  assumes env: "key_env_ok e" and w: "kw_files w cfg = Some s" "ke_parse e s = Some j"
    and set: "tmuxremote_config_set_keychain_key e cfg b w = (r, w')"
  obtains "w' = w" "\<not> r"
    | out fs where "ke_print e (set_keychain_member b j) = Some out"
        "ke_write e (kw_files w) cfg out = (r, fs)" "w' = w\<lparr>kw_files := fs\<rparr>"
proof (cases "ke_load e (kw_files w) cfg")
  case None
  with set that(1) show ?thesis by (simp add: tmuxremote_config_set_keychain_key_def)
next
  case (Some str)
  then have "str = s" using env_load [OF env] w(1) by force
  with Some w set that show ?thesis
    by (auto simp: tmuxremote_config_set_keychain_key_def split: option.splits prod.splits)
qed

lemma set_keychain_key_ok:
  assumes env: "key_env_ok e" and cfg: "config_ok e cfg w"
    and set: "tmuxremote_config_set_keychain_key e cfg b w = (r, w')"
  shows "kw_keychain w' = kw_keychain w \<and> (\<forall>q. q \<noteq> cfg \<longrightarrow> kw_files w' q = kw_files w q) \<and>
    (r \<longrightarrow> config_ok e cfg w' \<and> configured e cfg w' = b)"
proof -
  from cfg obtain s ms where s: "kw_files w cfg = Some s" "ke_parse e s = Some (JObject ms)"
    and one: "length (filter (\<lambda>m. fst m = KEYCHAIN_CONFIG_KEY) ms) \<le> 1" unfolding config_ok_def by blast
  show ?thesis
  proof (rule set_keychain_key_cases [OF env s set])
    fix out fs
    assume out: "ke_print e (set_keychain_member b (JObject ms)) = Some out"
      and wr: "ke_write e (kw_files w) cfg out = (r, fs)" and w': "w' = w\<lparr>kw_files := fs\<rparr>"
    obtain ms' where ms': "set_keychain_member b (JObject ms) = JObject ms'" by simp
    note new = set_member_object [OF one ms']
    have parse: "ke_parse e out = Some (JObject ms')" using env_print [OF env out] ms' by simp
    have "config_ok e cfg w' \<and> configured e cfg w' = b" if r
    proof -
      have "kw_files w' cfg = Some out" using wr that w' env_write [OF env] by simp
      with parse new show ?thesis
        unfolding config_ok_def configured_def keychain_setting_def cJSON_GetObjectItemCaseSensitive_def by simp
    qed
    with w' env_write_other [OF env wr] show ?thesis by simp
  qed simp
qed

lemma storage_load_held:
  assumes "key_env_ok e" and "load_private_key_from_storage e keyFile p d b w = Some s"
  shows "key_held e keyFile p d b w = Some s"
  using assms(2)
  by (auto simp: load_private_key_from_storage_def load_private_key_from_file_storage_def key_held_def
      tmuxremote_keychain_load_private_key_slot_def split: option.splits if_splits
      dest: env_load [OF assms(1)] env_copy [OF assms(1)])

lemma storage_save_frame:
  assumes "key_env_ok e" and "save_private_key_to_storage e keyFile p d b s w = (r, w')"
  shows "(b \<longrightarrow> kw_files w' = kw_files w) \<and> (\<not> b \<longrightarrow> kw_keychain w' = kw_keychain w) \<and>
    (\<forall>q. q \<noteq> keyFile \<longrightarrow> kw_files w' q = kw_files w q)"
  using assms(2)
  by (auto simp: save_private_key_to_storage_def save_private_key_to_file_storage_def Let_def
      tmuxremote_keychain_save_private_key_slot_def split: option.splits if_splits prod.splits
      dest: env_write_other [OF assms(1)])

lemma storage_delete_frame:
  assumes "key_env_ok e" and "delete_private_key_from_storage e keyFile p d b w = (r, w')"
  shows "(b \<longrightarrow> kw_files w' = kw_files w) \<and> (\<not> b \<longrightarrow> kw_keychain w' = kw_keychain w) \<and>
    (\<forall>q. q \<noteq> keyFile \<longrightarrow> kw_files w' q = kw_files w q)"
  using assms(2)
  by (auto simp: delete_private_key_from_storage_def delete_private_key_file_storage_def Let_def
      delete_private_key_keychain_storage_def split: option.splits if_splits prod.splits
      dest: env_remove [OF assms(1)])

interpretation device_key: key_stores "stores_ok e cfg keyFile" "key_held e keyFile p d" "configured e cfg"
  "load_private_key_from_storage e keyFile p d" "save_private_key_to_storage e keyFile p d"
  "delete_private_key_from_storage e keyFile p d" "tmuxremote_config_set_keychain_key e cfg"
  for e cfg keyFile p d
proof
  fix w b s
  assume "stores_ok e cfg keyFile w" "load_private_key_from_storage e keyFile p d b w = Some s"
  then show "key_held e keyFile p d b w = Some s" by (simp add: stores_ok_def storage_load_held)
next
  fix w b s r w'
  assume *: "stores_ok e cfg keyFile w" "save_private_key_to_storage e keyFile p d b s w = (r, w')"
  then show "stores_ok e cfg keyFile w' \<and> configured e cfg w' = configured e cfg w \<and>
      key_held e keyFile p d (\<not> b) w' = key_held e keyFile p d (\<not> b) w"
    using storage_save_frame [OF _ *(2)]
    by (auto simp: stores_ok_def config_ok_def configured_def key_held_def split: option.splits)
next
  fix w b r w'
  assume *: "stores_ok e cfg keyFile w" "delete_private_key_from_storage e keyFile p d b w = (r, w')"
  then show "configured e cfg w' = configured e cfg w \<and>
      key_held e keyFile p d (\<not> b) w' = key_held e keyFile p d (\<not> b) w"
    using storage_delete_frame [OF _ *(2)]
    by (auto simp: stores_ok_def configured_def key_held_def split: option.splits)
next
  fix w b r w' c
  assume *: "stores_ok e cfg keyFile w" "tmuxremote_config_set_keychain_key e cfg b w = (r, w')"
  then show "key_held e keyFile p d c w' = key_held e keyFile p d c w \<and>
      (r \<longrightarrow> stores_ok e cfg keyFile w' \<and> configured e cfg w' = b)"
    using set_keychain_key_ok [OF _ _ *(2)] by (auto simp: stores_ok_def key_held_def split: option.splits)
qed

text \<open>How far a move gets.\<close>

definition same_identity :: "key_env \<Rightarrow> string \<Rightarrow> string \<Rightarrow> bool" where
  "same_identity e k k' \<longleftrightarrow> k = k' \<or>
     (fingerprint_for_private_key e k \<noteq> None \<and> fingerprint_for_private_key e k = fingerprint_for_private_key e k')"

lemma move_cases:
  assumes move: "tmuxremote_move_private_key_storage e cfg keyFile p d src tgt w = (r, w')" and ne: "src \<noteq> tgt"
  obtains (unchanged) "w' = w" "\<not> r"
    | (saved) ok s where "save_private_key_to_storage e keyFile p d tgt s w = (ok, w')" "\<not> r"
    | (verified) k k' w1 w2 ok where "load_private_key_from_storage e keyFile p d src w = Some k"
        "save_private_key_to_storage e keyFile p d tgt k w = (True, w1)"
        "load_private_key_from_storage e keyFile p d tgt w1 = Some k'" "same_identity e k k'"
        "tmuxremote_config_set_keychain_key e cfg tgt w1 = (ok, w2)" "r = ok"
        "w' = (if ok then snd (delete_private_key_from_storage e keyFile p d src w2) else w2)"
proof (cases "load_private_key_from_storage e keyFile p d src w")
  case None
  with move ne have "w' = w \<and> \<not> r" by (auto simp: tmuxremote_move_private_key_storage_def)
  with unchanged show ?thesis by blast
next
  case (Some k)
  note k = this
  obtain ok w1 where s: "save_private_key_to_storage e keyFile p d tgt k w = (ok, w1)" by force
  show ?thesis
  proof (cases "fingerprint_for_private_key e k")
    case None
    with k move ne have "w' = w \<and> \<not> r" by (auto simp: tmuxremote_move_private_key_storage_def)
    with unchanged show ?thesis by blast
  next
    case (Some fp)
    note fp = this
    obtain c w2 where set: "tmuxremote_config_set_keychain_key e cfg tgt w1 = (c, w2)" by force
    show ?thesis
    proof (cases "\<exists>k'. ok \<and> load_private_key_from_storage e keyFile p d tgt w1 = Some k' \<and>
        fingerprint_for_private_key e k' = Some fp")
      case True
      then obtain k' where k': "ok" "load_private_key_from_storage e keyFile p d tgt w1 = Some k'"
        "fingerprint_for_private_key e k' = Some fp" by blast
      have id: "same_identity e k k'" using fp k'(3) by (simp add: same_identity_def)
      have "(r, w') = (if c then (True, snd (delete_private_key_from_storage e keyFile p d src w2)) else (False, w2))"
        using move ne k fp s k' set by (auto simp: tmuxremote_move_private_key_storage_def split: if_splits)
      then have rc: "r = c" and w': "w' = (if c then snd (delete_private_key_from_storage e keyFile p d src w2) else w2)"
        by (auto split: if_splits)
      show ?thesis using verified [OF k _ k'(2) id set rc w'] s k'(1) by simp
    next
      case False
      then have "\<not> r \<and> w' = w1"
        using move ne k fp s by (auto simp: tmuxremote_move_private_key_storage_def split: if_splits option.splits)
      with s saved show ?thesis by blast
    qed
  qed
qed

text \<open>The keychain keeps what is added to it, for the start-up of the agent.\<close>

definition keychain_works :: "key_env \<Rightarrow> bool" where
  "keychain_works e \<longleftrightarrow>
     (\<forall>kc a s kc'. ke_sec_add e kc a s = (True, kc') \<longrightarrow> kc' a = Some s) \<and>
     (\<forall>kc a. ke_sec_copy e kc a = kc a) \<and> (\<forall>n. ke_mem e n)"

lemma verified_move_keeps:
  assumes w1: "stores_ok e cfg keyFile w1 \<and> configured e cfg w1 = (\<not> tgt) \<and> key_held e keyFile p d (\<not> tgt) w1 = Some k"
    and held: "key_held e keyFile p d tgt w1 = Some k'" and id: "same_identity e k k'"
    and set: "tmuxremote_config_set_keychain_key e cfg tgt w1 = (c, w2)"
    and w': "w' = (if c then snd (delete_private_key_from_storage e keyFile p d (\<not> tgt) w2) else w2)"
  shows "(\<exists>k'. key_held e keyFile p d (configured e cfg w') w' = Some k' \<and> same_identity e k k') \<and> (c \<longrightarrow> configured e cfg w' = tgt)"
proof (cases c)
  case False
  then show ?thesis
    using device_key.change_safe [of e cfg keyFile w1 p d tgt k' "same_identity e k" k tgt c w2]
      w1 held id set w' by (simp add: same_identity_def)
next
  case True
  then have w2: "stores_ok e cfg keyFile w2" "configured e cfg w2 = tgt" "key_held e keyFile p d tgt w2 = Some k'"
    using device_key.change_keeps [OF conjunct1 [OF w1] set, of p d tgt] held by simp_all
  obtain x where "delete_private_key_from_storage e keyFile p d (\<not> tgt) w2 = (x, w')"
    using w' True by (metis prod.collapse)
  then have "configured e cfg w' = tgt \<and> key_held e keyFile p d (configured e cfg w') w' = Some k'"
    using device_key.delete_safe [of e cfg keyFile w2 "\<not> tgt" p d k' x w'] w2 by auto
  with id show ?thesis by auto
qed

section \<open>Properties\<close>

text \<open>
  C21: moving the device key never loses it.  Whatever fails on the way (reading, writing,
  verifying, writing the configuration, deleting the source), the storage that the
  configuration names afterwards holds the key, or one with the same fingerprint; and when the
  move succeeds the configuration names the target.
\<close>

theorem moving_keeps_the_key:
  assumes "key_env_ok e" and "keyFile \<noteq> cfg" and "config_ok e cfg w"
    and "configured e cfg w = src" and "key_held e keyFile p d src w = Some k"
    and "tmuxremote_move_private_key_storage e cfg keyFile p d src tgt w = (r, w')"
  shows "(\<exists>k'. key_held e keyFile p d (configured e cfg w') w' = Some k' \<and> same_identity e k k') \<and>
    (r \<longrightarrow> configured e cfg w' = tgt)"
proof (cases "src = tgt")
  case True
  with assms show ?thesis by (auto simp: tmuxremote_move_private_key_storage_def same_identity_def)
next
  case False
  then have src: "src = (\<not> tgt)" by auto
  have ok: "stores_ok e cfg keyFile w" using assms(1-3) by (simp add: stores_ok_def)
  have keep: "stores_ok e cfg keyFile w1 \<and> configured e cfg w1 = (\<not> tgt) \<and> key_held e keyFile p d (\<not> tgt) w1 = Some k"
    if "save_private_key_to_storage e keyFile p d tgt s w = (b, w1)" for s b w1
    using device_key.save_safe [OF ok _ _ that] assms(4,5) src by simp
  show ?thesis
  proof (rule move_cases [OF assms(6) False])
    assume "w' = w" "\<not> r"
    with assms(4,5) show ?thesis by (auto simp: same_identity_def)
  next
    fix b s assume "save_private_key_to_storage e keyFile p d tgt s w = (b, w')" "\<not> r"
    with keep show ?thesis by (auto simp: same_identity_def)
  next
    fix l k' w1 w2 c
    assume l: "load_private_key_from_storage e keyFile p d src w = Some l"
      and s: "save_private_key_to_storage e keyFile p d tgt l w = (True, w1)"
      and k': "load_private_key_from_storage e keyFile p d tgt w1 = Some k'" and id: "same_identity e l k'"
      and set: "tmuxremote_config_set_keychain_key e cfg tgt w1 = (c, w2)" and r: "r = c"
      and w': "w' = (if c then snd (delete_private_key_from_storage e keyFile p d src w2) else w2)"
    have "l = k" using device_key.load_held [OF ok l] assms(5) by simp
    have held: "key_held e keyFile p d tgt w1 = Some k'" using keep [OF s] k' by (blast intro: device_key.load_held)
    have "same_identity e k k'" using id \<open>l = k\<close> by simp
    from verified_move_keeps [OF keep [OF s] held this set w' [unfolded src]] show ?thesis unfolding r .
  qed
qed

text \<open>A file system and a keychain that work, with a serializer for two configurations.\<close>

definition setting_json :: "bool \<Rightarrow> cjson" where
  "setting_json b = JObject [(KEYCHAIN_CONFIG_KEY, JBool b)]"

definition mac :: key_env where
  "mac = \<lparr>ke_apple = True, ke_mem = mem_ok, ke_cf = True, ke_exists = (\<lambda>fs p. fs p \<noteq> None),
     ke_load = (\<lambda>fs p. fs p), ke_write = (\<lambda>fs p s. (True, fs(p \<mapsto> s))), ke_remove = (\<lambda>fs p. (True, fs(p := None))),
     ke_sec_add = (\<lambda>kc a s. (True, kc(a \<mapsto> s))), ke_sec_delete = (\<lambda>kc a. (True, kc(a := None))),
     ke_sec_copy = (\<lambda>kc a. kc a), ke_set_private_key = (\<lambda>_. True), ke_fingerprint = Some,
     ke_create_private_key = Some ''fresh'', ke_load_or_create = (\<lambda>fs p. (Some ''k'', fs(p \<mapsto> ''k''))),
     ke_parse = (\<lambda>s. if s = ''t'' then Some (setting_json True) else if s = ''f'' then Some (setting_json False) else None),
     ke_print = (\<lambda>j. if j = setting_json True then Some ''t'' else if j = setting_json False then Some ''f'' else None)\<rparr>"

definition key_in_file :: key_world where
  "key_in_file = \<lparr>kw_files = Map.empty(''cfg'' \<mapsto> ''f'', ''key'' \<mapsto> ''pem''), kw_keychain = Map.empty\<rparr>"

lemma mac_ok: "key_env_ok mac"
  by (auto simp: key_env_ok_def mac_def split: if_splits)

theorem moving_keeps_the_key_witness:
  "\<exists>w'. tmuxremote_move_private_key_storage mac ''cfg'' ''key'' (Some ''p'') (Some ''d'') False True key_in_file = (True, w') \<and>
     configured mac ''cfg'' w' \<and>
     (\<exists>k. key_held mac ''key'' (Some ''p'') (Some ''d'') True w' = Some k \<and> same_identity mac ''pem'' k)"
proof -
  have cfg: "config_ok mac ''cfg'' key_in_file" "configured mac ''cfg'' key_in_file = False"
    "key_held mac ''key'' (Some ''p'') (Some ''d'') False key_in_file = Some ''pem''"
    by (auto simp: config_ok_def configured_def keychain_setting_def key_in_file_def mac_def setting_json_def
        cJSON_GetObjectItemCaseSensitive_def key_held_def)
  obtain r w' where m: "tmuxremote_move_private_key_storage mac ''cfg'' ''key'' (Some ''p'') (Some ''d'') False True
      key_in_file = (r, w')" by force
  then have r
    by (auto simp: tmuxremote_move_private_key_storage_def load_private_key_from_storage_def
        load_private_key_from_file_storage_def save_private_key_to_storage_def fingerprint_for_private_key_def
        tmuxremote_keychain_account_for_device_def tmuxremote_keychain_save_private_key_slot_def
        tmuxremote_keychain_load_private_key_slot_def tmuxremote_config_set_keychain_key_def mac_def
        key_in_file_def setting_json_def strdup_def)
  with moving_keeps_the_key [OF mac_ok _ cfg m] m show ?thesis by auto
qed

text \<open>
  The agent keeps its identity.  When a start gets its key from the keychain, newly created
  or not, the next start gets the same key and changes nothing.
\<close>

theorem keychain_identity_is_kept:
  assumes "keychain_works e"
    and "tmuxremote_load_or_create_private_key e w keyFile p d b = (Some k, True, w')"
  shows "tmuxremote_load_or_create_private_key e w' keyFile p d b = (Some k, True, w')"
proof -
  have mem: "ke_mem e n" and copy: "ke_sec_copy e kc a = kc a" for n kc a
    using assms(1) by (auto simp: keychain_works_def)
  from assms(2) obtain account where a: "b" "ke_apple e"
      "tmuxremote_keychain_account_for_device (ke_mem e) p d = Some account"
    and cases: "tmuxremote_keychain_load_private_key_slot e w account = Some k \<and> w' = w \<or>
      tmuxremote_keychain_save_private_key_slot e w account k = (True, w')"
    and k: "ke_set_private_key e k"
    by (auto simp: tmuxremote_load_or_create_private_key_def load_or_create_file_key_def
        split: if_splits option.splits prod.splits)
  from cases have "tmuxremote_keychain_load_private_key_slot e w' account = Some k"
  proof
    assume "tmuxremote_keychain_save_private_key_slot e w account k = (True, w')"
    then have "ke_cf e" "kw_keychain w' account = Some k"
      using assms(1) by (auto simp: tmuxremote_keychain_save_private_key_slot_def keychain_works_def
          split: if_splits prod.splits)
    then show ?thesis by (simp add: tmuxremote_keychain_load_private_key_slot_def mem copy)
  qed simp
  with a k show ?thesis by (simp add: tmuxremote_load_or_create_private_key_def)
qed

theorem keychain_identity_is_kept_witness:
  "\<exists>w'. tmuxremote_load_or_create_private_key mac w' ''key'' (Some ''p'') (Some ''d'') True = (Some ''fresh'', True, w')"
proof -
  obtain w' where "tmuxremote_load_or_create_private_key mac key_in_file ''key'' (Some ''p'') (Some ''d'') True =
      (Some ''fresh'', True, w')"
    by (simp add: tmuxremote_load_or_create_private_key_def tmuxremote_keychain_account_for_device_def
        tmuxremote_keychain_load_private_key_slot_def tmuxremote_keychain_save_private_key_slot_def mac_def key_in_file_def)
  from keychain_identity_is_kept [OF _ this] show ?thesis by (auto simp: keychain_works_def mac_def)
qed

text \<open>
  The migration of a legacy key file: an existing key file of the device is not touched, a
  missing one is made from the legacy file, and no other file changes.
\<close>

theorem legacy_key_is_migrated:
  assumes "key_env_ok e"
    and "tmuxremote_ensure_namespaced_key_file e fs (Some legacy) (Some namespaced) = (True, fs')"
  shows "fs' namespaced = (if fs namespaced = None then fs legacy else fs namespaced) \<and>
    (\<forall>q. q \<noteq> namespaced \<longrightarrow> fs' q = fs q)"
proof (cases "legacy = namespaced \<or> fs namespaced \<noteq> None \<or> fs legacy = None")
  case True
  then show ?thesis
    using assms by (auto simp: tmuxremote_ensure_namespaced_key_file_def env_exists split: if_splits)
next
  case False
  then obtain s where s: "ke_load e fs legacy = Some s" "ke_write e fs namespaced s = (True, fs')"
    using assms by (auto simp: tmuxremote_ensure_namespaced_key_file_def env_exists split: option.splits)
  with env_load [OF assms(1) s(1)] env_write [OF assms(1) s(2)] env_write_other [OF assms(1) s(2)] False
  show ?thesis by simp
qed

theorem legacy_key_is_migrated_witness:
  "\<exists>fs'. tmuxremote_ensure_namespaced_key_file mac (Map.empty(''old'' \<mapsto> ''pem'')) (Some ''old'') (Some ''new'') = (True, fs') \<and>
     fs' ''new'' = Some ''pem'' \<and> fs' ''old'' = Some ''pem''"
proof -
  obtain fs' where m: "tmuxremote_ensure_namespaced_key_file mac (Map.empty(''old'' \<mapsto> ''pem''))
      (Some ''old'') (Some ''new'') = (True, fs')"
    by (simp add: tmuxremote_ensure_namespaced_key_file_def mac_def)
  from legacy_key_is_migrated [OF mac_ok m] m show ?thesis by auto
qed

text \<open>
  Key files of different devices.  For ids of letters, digits, dashes and dots, where the
  product id has no underscore, the name of the key file determines the device.
\<close>

definition plain_id :: "string \<Rightarrow> bool" where
  "plain_id s \<longleftrightarrow> s \<noteq> [] \<and> list_all tmuxremote_is_key_component_char s \<and> CHR ''_'' \<notin> set s"

lemma sanitize_plain: "plain_id s \<Longrightarrow> tmuxremote_sanitize_key_component mem_ok (Some s) = Some s"
  by (auto simp: plain_id_def tmuxremote_sanitize_key_component_def list_all_iff intro: map_idI)

lemma split_unique: "a @ c # x = b @ c # y \<Longrightarrow> c \<notin> set a \<Longrightarrow> c \<notin> set b \<Longrightarrow> a = b \<and> x = y"
  by (induction a arbitrary: b) (auto simp: Cons_eq_append_conv append_eq_Cons_conv)

theorem key_files_identify_devices:
  assumes "plain_id p" and "plain_id d" and "plain_id p'" and "plain_id d'"
  shows "tmuxremote_device_key_file_path mem_ok (Some home) (Some p) (Some d) =
      tmuxremote_device_key_file_path mem_ok (Some home) (Some p') (Some d') \<longleftrightarrow> p = p' \<and> d = d'"
  using assms split_unique [of p "CHR ''_''" "d @ ''.key''" p' "d' @ ''.key''"]
  by (auto simp: tmuxremote_device_key_file_path_def sanitize_plain plain_id_def)

theorem key_files_identify_devices_witness:
  "tmuxremote_device_key_file_path mem_ok (Some ''h'') (Some ''pr-1'') (Some ''de-1'') \<noteq>
   tmuxremote_device_key_file_path mem_ok (Some ''h'') (Some ''pr-1'') (Some ''de-2'')"
  using key_files_identify_devices [of "''pr-1''" "''de-1''" "''pr-1''" "''de-2''"]
  by (simp add: plain_id_def tmuxremote_is_key_component_char_def isalnum_def isdigit_def)

text \<open>Without that restriction two devices can share one key file.\<close>

lemma key_files_collide:
  "tmuxremote_device_key_file_path mem_ok (Some home) (Some ''a_b'') (Some ''c'') =
   tmuxremote_device_key_file_path mem_ok (Some home) (Some ''a'') (Some ''b_c'')"
  by (simp add: tmuxremote_device_key_file_path_def tmuxremote_sanitize_key_component_def
      tmuxremote_is_key_component_char_def isalnum_def)

end
