(* ===== verification/Agent_Setup.thy ===== *)
theory Agent_Setup
  imports Iam Keychain Client_Config
begin

text \<open>
  The set-up commands of the agent (\<open>agent/src/tmuxremote_init.c\<close>): \<open>--init\<close>, \<open>--add-user\<close>,
  \<open>--remove-user\<close>, \<open>--list-users\<close> and \<open>--move-device-key\<close>, on top of the user state of \<open>Iam\<close> and
  the key storage of \<open>Keychain\<close>.

  Both share one file system: the file functions are those of \<open>key_env\<close>.  Loading and saving
  \<open>device.json\<close>, creating a device object, the random password and the server connect token
  come from the SDK and are parameters; allocations for paths succeed.  The result of a command
  has the pairing string it prints; other output is left out.
\<close>

record setup_env =
  se_iam :: iam_env
  se_key :: key_env
  se_load_device_config :: "file_map \<Rightarrow> string \<Rightarrow> (string \<times> string) option"
  se_save_device_config :: "file_map \<Rightarrow> string \<Rightarrow> string \<Rightarrow> string \<Rightarrow> bool \<times> file_map"
  se_device_new :: bool
  se_password :: string
  se_sct :: "string option"

definition iam_of :: "setup_env \<Rightarrow> iam_env" where
  "iam_of e = (se_iam e)\<lparr>ie_write := ke_write (se_key e)\<rparr>"

section \<open>Arguments and paths\<close>

definition username_char :: "char \<Rightarrow> bool" where
  "username_char c \<longleftrightarrow> \<not> ((code c < 97 \<or> code c > 122) \<and> (code c < 48 \<or> code c > 57) \<and>
     c \<noteq> CHR ''_'' \<and> c \<noteq> CHR ''.'' \<and> c \<noteq> CHR ''-'')"

definition validate_username :: "string option \<Rightarrow> bool" where
  "validate_username username =
     (case username of None \<Rightarrow> False | Some u \<Rightarrow> u \<noteq> [] \<and> list_all username_char u)"

definition parse_key_storage_target :: "string option \<Rightarrow> bool option" where
  "parse_key_storage_target targetStorage =
     (case targetStorage of
        None \<Rightarrow> None
      | Some t \<Rightarrow> if t = ''filesystem'' \<or> t = ''file'' then Some False
                  else if t = ''keychain'' then Some True else None)"

definition device_config_file :: "string \<Rightarrow> string" where
  "device_config_file homeDir = take 511 (homeDir @ ''/config/device.json'')"

definition iam_state_file :: "string \<Rightarrow> string" where
  "iam_state_file homeDir = take 511 (homeDir @ ''/state/iam_state.json'')"

definition legacy_key_file :: "string \<Rightarrow> string" where
  "legacy_key_file homeDir = take 511 (homeDir @ ''/keys/device.key'')"

section \<open>Initialisation\<close>

text \<open>\<open>fgets\<close> with a buffer of \<open>n\<close> bytes: the text read and the rest of the input.\<close>

definition newline :: char where "newline = CHR 0x0A"

definition fgets :: "nat \<Rightarrow> string \<Rightarrow> (string \<times> string) option" where
  "fgets n input =
     (if input = [] then None
      else let line = takeWhile (\<lambda>c. c \<noteq> newline) input;
               avail = length line + (if length line < length input then 1 else 0);
               k = min (n - 1) avail
           in Some (take k input, drop k input))"

definition trim_newline :: "string \<Rightarrow> string" where
  "trim_newline buf = takeWhile (\<lambda>c. c \<noteq> newline \<and> c \<noteq> NUL) buf"

definition read_id :: "string option \<Rightarrow> string \<Rightarrow> (string \<times> string) option" where
  "read_id arg stdin =
     (case arg of
        Some (c # cs) \<Rightarrow> Some (strncpy_term 64 (c # cs), stdin)
      | _ \<Rightarrow> map_option (apfst trim_newline) (fgets 64 stdin))"

text \<open>The answer on a terminal, or the environment variable.\<close>

definition ask_keychain :: "setup_env \<Rightarrow> bool \<Rightarrow> string option \<Rightarrow> string \<Rightarrow> bool" where
  "ask_keychain e tty keyStorageEnv stdin =
     (if \<not> tmuxremote_keychain_available (se_key e) then False
      else if tty then (case fgets 16 stdin of
                          None \<Rightarrow> True
                        | Some (kcBuf, _) \<Rightarrow> take 1 (trim_newline kcBuf) \<noteq> ''n'' \<and> take 1 (trim_newline kcBuf) \<noteq> ''N'')
      else keyStorageEnv = Some ''keychain'')"

text \<open>Recording the choice: when the keychain cannot be recorded, the key goes to a file.\<close>

definition record_key_storage :: "setup_env \<Rightarrow> string \<Rightarrow> bool \<Rightarrow> key_world \<Rightarrow> bool \<times> key_world" where
  "record_key_storage e deviceConfigFile useKeychain w =
     (let (ok, w) = tmuxremote_config_set_keychain_key (se_key e) deviceConfigFile useKeychain w
      in if ok then (useKeychain, w)
         else if useKeychain
         then (False, snd (tmuxremote_config_set_keychain_key (se_key e) deviceConfigFile False w))
         else (False, w))"

definition owner_pairing_string :: "setup_env \<Rightarrow> file_map \<Rightarrow> string \<Rightarrow> string \<Rightarrow> string \<Rightarrow> string option" where
  "owner_pairing_string e fs iamStateFile pid did =
     (case ke_load (se_key e) fs iamStateFile of
        None \<Rightarrow> None
      | Some str \<Rightarrow>
          (case ie_load (se_iam e) str of
             None \<Rightarrow> None
           | Some state \<Rightarrow>
               (case find_user state ''owner'' of
                  None \<Rightarrow> None
                | Some user \<Rightarrow>
                    (case (us_password user, us_sct user) of
                       (Some pwd, Some sct) \<Rightarrow> Some (pairing_string pid did ''owner'' pwd sct)
                     | _ \<Rightarrow> None))))"

definition init_common ::
  "setup_env \<Rightarrow> string \<Rightarrow> string option \<Rightarrow> string option \<Rightarrow> bool \<Rightarrow> string option \<Rightarrow> string \<Rightarrow> key_world
     \<Rightarrow> bool \<times> string option \<times> key_world" where
  "init_common e homeDir productId deviceId tty keyStorageEnv stdin w =
     (let deviceConfigFile = device_config_file homeDir; iamStateFile = iam_state_file homeDir
      in if ke_exists (se_key e) (kw_files w) deviceConfigFile then (False, None, w)
         else case read_id productId stdin of
           None \<Rightarrow> (False, None, w)
         | Some (pid, stdin) \<Rightarrow>
         (case read_id deviceId stdin of
            None \<Rightarrow> (False, None, w)
          | Some (did, stdin) \<Rightarrow>
              if pid = [] \<or> did = [] then (False, None, w)
              else case tmuxremote_device_key_file_path (ke_mem (se_key e)) (Some homeDir) (Some pid) (Some did) of
                None \<Rightarrow> (False, None, w)
              | Some deviceKeyFile \<Rightarrow>
                  let useKeychain = ask_keychain e tty keyStorageEnv stdin;
                      (ok, fs) = se_save_device_config e (kw_files w) deviceConfigFile pid did;
                      w = w\<lparr>kw_files := fs\<rparr>
                  in if \<not> ok then (False, None, w)
                     else
                       let (useKeychain, w) = record_key_storage e deviceConfigFile useKeychain w
                       in if \<not> se_device_new e then (False, None, w)
                          else case tmuxremote_load_or_create_private_key (se_key e) w deviceKeyFile
                                      (Some pid) (Some did) useKeychain of
                            (None, _, w) \<Rightarrow> (False, None, w)
                          | (Some key, _, w) \<Rightarrow>
                              let fs = tmuxremote_iam_create_default_state (iam_of e) (kw_files w) iamStateFile
                                         ''owner'' (se_password e) (se_sct e)
                              in (True, owner_pairing_string e fs iamStateFile pid did, w\<lparr>kw_files := fs\<rparr>)))"

definition tmuxremote_do_init ::
  "setup_env \<Rightarrow> string \<Rightarrow> string option \<Rightarrow> string option \<Rightarrow> bool \<Rightarrow> string option \<Rightarrow> string \<Rightarrow> key_world
     \<Rightarrow> bool \<times> string option \<times> key_world" where
  "tmuxremote_do_init = init_common"

definition tmuxremote_do_demo_init :: "key_world \<Rightarrow> bool \<times> key_world" where
  "tmuxremote_do_demo_init w = (False, w)"

section \<open>Users\<close>

text \<open>The state in the file, when it can be read and parsed.\<close>

definition load_users :: "setup_env \<Rightarrow> file_map \<Rightarrow> string \<Rightarrow> iam_state option" where
  "load_users e fs homeDir =
     (case ke_load (se_key e) fs (iam_state_file homeDir) of
        None \<Rightarrow> None | Some str \<Rightarrow> ie_load (se_iam e) str)"

definition save_users :: "setup_env \<Rightarrow> file_map \<Rightarrow> string \<Rightarrow> iam_state \<Rightarrow> bool \<times> file_map" where
  "save_users e fs homeDir state =
     (case ie_dump (se_iam e) state of
        None \<Rightarrow> (False, fs) | Some jsonStr \<Rightarrow> ke_write (se_key e) fs (iam_state_file homeDir) jsonStr)"

definition tmuxremote_do_add_user ::
  "setup_env \<Rightarrow> string \<Rightarrow> string option \<Rightarrow> file_map \<Rightarrow> bool \<times> string option \<times> file_map" where
  "tmuxremote_do_add_user e homeDir username fs =
     (if \<not> validate_username username then (False, None, fs)
      else case se_load_device_config e fs (device_config_file homeDir) of
        None \<Rightarrow> (False, None, fs)
      | Some (productId, deviceId) \<Rightarrow>
      (case load_users e fs homeDir of
         None \<Rightarrow> (False, None, fs)
       | Some state \<Rightarrow>
           if list_ex (\<lambda>u. us_username u = username) (is_users state) then (False, None, fs)
           else if \<not> se_device_new e then (False, None, fs)
           else if \<not> ie_username_ok (se_iam e) (the username) then (False, None, fs)
           else
             let user = invited_user (the username) (se_password e) (se_sct e);
                 state = state\<lparr>is_users := is_users state @ [user], is_password_invite_pairing := True\<rparr>;
                 (ok, fs) = save_users e fs homeDir state
             in if \<not> ok then (False, None, fs)
                else (True, map_option (pairing_string productId deviceId (the username) (se_password e)) (se_sct e), fs)))"

fun erase_user :: "string \<Rightarrow> iam_user list \<Rightarrow> iam_user list" where
  "erase_user name [] = []"
| "erase_user name (u # us) = (if us_username u = Some name then us else u # erase_user name us)"

definition tmuxremote_do_remove_user :: "setup_env \<Rightarrow> string \<Rightarrow> string \<Rightarrow> file_map \<Rightarrow> bool \<times> file_map" where
  "tmuxremote_do_remove_user e homeDir username fs =
     (case load_users e fs homeDir of
        None \<Rightarrow> (False, fs)
      | Some state \<Rightarrow>
          (case find_user state username of
             None \<Rightarrow> (False, fs)
           | Some user \<Rightarrow> save_users e fs homeDir (state\<lparr>is_users := erase_user username (is_users state)\<rparr>)))"

text \<open>What \<open>--list-users\<close> prints for a user.\<close>

datatype user_line = PairedUser string "string list" | PendingUser string "string option"

definition user_line_of :: "string \<Rightarrow> string \<Rightarrow> iam_user \<Rightarrow> user_line option" where
  "user_line_of productId deviceId user =
     (case us_username user of
        None \<Rightarrow> None
      | Some name \<Rightarrow>
          if us_fingerprints user \<noteq> [] then Some (PairedUser name (us_fingerprints user))
          else Some (PendingUser name
                 (case (us_password user, us_sct user) of
                    (Some pwd, Some sct) \<Rightarrow> Some (pairing_string productId deviceId name pwd sct)
                  | _ \<Rightarrow> None)))"

definition tmuxremote_do_list_users :: "setup_env \<Rightarrow> string \<Rightarrow> file_map \<Rightarrow> user_line list option" where
  "tmuxremote_do_list_users e homeDir fs =
     (case se_load_device_config e fs (device_config_file homeDir) of
        None \<Rightarrow> None
      | Some (productId, deviceId) \<Rightarrow>
          map_option (\<lambda>state. List.map_filter (user_line_of productId deviceId) (is_users state))
            (load_users e fs homeDir))"

section \<open>Moving the device key\<close>

definition tmuxremote_do_move_device_key ::
  "setup_env \<Rightarrow> string \<Rightarrow> string option \<Rightarrow> key_world \<Rightarrow> bool \<times> key_world" where
  "tmuxremote_do_move_device_key e homeDir targetStorage w =
     (case parse_key_storage_target targetStorage of
        None \<Rightarrow> (False, w)
      | Some targetUseKeychain \<Rightarrow>
          if targetUseKeychain \<and> \<not> tmuxremote_keychain_available (se_key e) then (False, w)
          else
            let deviceConfigFile = device_config_file homeDir
            in case se_load_device_config e (kw_files w) deviceConfigFile of
              None \<Rightarrow> (False, w)
            | Some (productId, deviceId) \<Rightarrow>
                let sourceUseKeychain = tmuxremote_config_get_keychain_key (se_key e) w deviceConfigFile
                in if sourceUseKeychain = targetUseKeychain then (True, w)
                   else case tmuxremote_device_key_file_path (ke_mem (se_key e)) (Some homeDir)
                               (Some productId) (Some deviceId) of
                     None \<Rightarrow> (False, w)
                   | Some deviceKeyFile \<Rightarrow>
                       let (ok, fs) = tmuxremote_ensure_namespaced_key_file (se_key e) (kw_files w)
                                        (Some (legacy_key_file homeDir)) (Some deviceKeyFile);
                           w = w\<lparr>kw_files := fs\<rparr>
                       in if \<not> ok then (False, w)
                          else tmuxremote_move_private_key_storage (se_key e) deviceConfigFile deviceKeyFile
                                 (Some productId) (Some deviceId) sourceUseKeychain targetUseKeychain w)"

section \<open>Lemmas\<close>

text \<open>A value that fits a field of a pairing string.\<close>

definition field_ok :: "string \<Rightarrow> bool" where
  "field_ok s \<longleftrightarrow> s \<noteq> [] \<and> length s < 64 \<and> CHR '','' \<notin> set s"

lemma username_field: "validate_username (Some u) \<Longrightarrow> length u < 64 \<Longrightarrow> field_ok u"
  by (auto simp: validate_username_def field_ok_def list_all_iff username_char_def)

lemma parse_field:
  assumes "CHR ''='' \<notin> set key" and "CHR '','' \<notin> set key" and "field_ok v"
  shows "parse_pairing_tokens (key @ CHR ''='' # v @ CHR '','' # rest) info =
      parse_pairing_tokens rest (store_field key v info)"
    and "parse_pairing_tokens (key @ CHR ''='' # v) info = store_field key v info"
proof -
  have tok: "parse_pairing_token (key @ CHR ''='' # v) info = store_field key v info"
    using assms(1) by (simp add: parse_pairing_token_def split_char_found)
  have v: "CHR '','' \<notin> set (key @ CHR ''='' # v)" using assms(2,3) by (simp add: field_ok_def)
  show "parse_pairing_tokens (key @ CHR ''='' # v @ CHR '','' # rest) info =
      parse_pairing_tokens rest (store_field key v info)"
    using split_char_found [OF v, of rest] tok by (subst parse_pairing_tokens.simps) simp
  show "parse_pairing_tokens (key @ CHR ''='' # v) info = store_field key v info"
    using split_char_absent [OF v] tok by (subst parse_pairing_tokens.simps) simp
qed

lemma pairing_string_parses:
  assumes "field_ok p" "field_ok d" "field_ok u" "field_ok pwd" "field_ok sct"
  shows "tmuxremote_parse_pairing_string mem_ok (Some (pairing_string p d u pwd sct)) =
    Some \<lparr>pi_productId = p, pi_deviceId = d, pi_username = u, pi_password = pwd, pi_sct = sct\<rparr>"
proof -
  have cut: "strncpy_term 64 s = s" if "field_ok s" for s using that by (simp add: field_ok_def strncpy_term_id)
  have "parse_pairing_tokens (pairing_string p d u pwd sct) no_pairing_info =
      \<lparr>pi_productId = p, pi_deviceId = d, pi_username = u, pi_password = pwd, pi_sct = sct\<rparr>"
    using parse_field(1) [of "''p''" p "''d='' @ d @ '',u='' @ u @ '',pwd='' @ pwd @ '',sct='' @ sct" no_pairing_info]
      parse_field(1) [of "''d''" d "''u='' @ u @ '',pwd='' @ pwd @ '',sct='' @ sct"]
      parse_field(1) [of "''u''" u "''pwd='' @ pwd @ '',sct='' @ sct"]
      parse_field(1) [of "''pwd''" pwd "''sct='' @ sct"] parse_field(2) [of "''sct''" sct] assms
    by (simp add: pairing_string_def store_field_def TMUXREMOTE_MAX_NAME_LEN_def cut no_pairing_info_def)
  moreover have "pairing_string p d u pwd sct \<noteq> []" by (simp add: pairing_string_def)
  ultimately show ?thesis using assms by (simp add: tmuxremote_parse_pairing_string_def field_ok_def)
qed

text \<open>Files can be read back, and the serializer is faithful.\<close>

definition setup_works :: "setup_env \<Rightarrow> bool" where
  "setup_works e \<longleftrightarrow> key_env_ok (se_key e) \<and> serializer_faithful (se_iam e) \<and>
     (\<forall>fs p. ke_load (se_key e) fs p = fs p)"

lemma saved_users_load:
  assumes "setup_works e" and "save_users e fs homeDir st = (True, fs')"
  shows "load_users e fs' homeDir = Some st"
proof -
  from assms(2) obtain str where str: "ie_dump (se_iam e) st = Some str"
    "ke_write (se_key e) fs (iam_state_file homeDir) str = (True, fs')"
    by (auto simp: save_users_def split: option.splits)
  have "fs' (iam_state_file homeDir) = Some str" using env_write [OF _ str(2)] assms(1) by (simp add: setup_works_def)
  then show ?thesis using assms(1) str(1) by (simp add: load_users_def setup_works_def serializer_faithful_def)
qed

text \<open>What a successful \<open>--add-user\<close> did.\<close>

lemma add_userE:
  assumes "tmuxremote_do_add_user e homeDir username fs = (True, str, fs')"
  obtains u p d st where "username = Some u" "validate_username (Some u)"
    "se_load_device_config e fs (device_config_file homeDir) = Some (p, d)" "load_users e fs homeDir = Some st"
    "find_user st u = None"
    "save_users e fs homeDir (st\<lparr>is_users := is_users st @ [invited_user u (se_password e) (se_sct e)],
       is_password_invite_pairing := True\<rparr>) = (True, fs')"
    "str = map_option (pairing_string p d u (se_password e)) (se_sct e)"
proof -
  from assms obtain u where u: "username = Some u" "validate_username (Some u)"
    by (cases username) (auto simp: tmuxremote_do_add_user_def validate_username_def split: if_splits)
  from assms u obtain p d st where st: "se_load_device_config e fs (device_config_file homeDir) = Some (p, d)"
    "load_users e fs homeDir = Some st"
    by (auto simp: tmuxremote_do_add_user_def split: option.splits)
  from assms u st have new: "\<not> list_ex (\<lambda>x. us_username x = Some u) (is_users st)"
    and "save_users e fs homeDir (st\<lparr>is_users := is_users st @ [invited_user u (se_password e) (se_sct e)],
       is_password_invite_pairing := True\<rparr>) = (True, fs') \<and>
       str = map_option (pairing_string p d u (se_password e)) (se_sct e)"
    by (auto simp: tmuxremote_do_add_user_def Let_def split: if_splits prod.splits)
  moreover have "find_user st u = None" using new by (auto simp: find_user_def find_None_iff list_ex_iff)
  ultimately show ?thesis using that u st by blast
qed

lemma find_user_new:
  "find_user st u = None \<Longrightarrow> find_user (st\<lparr>is_users := is_users st @ [invited_user u pwd sct], is_password_invite_pairing := b\<rparr>) u =
     Some (invited_user u pwd sct)"
  by (simp add: find_user_def find_append invited_user_def new_user_def)

lemma erase_new_user:
  "find_user st u = None \<Longrightarrow> erase_user u (is_users st @ [invited_user u pwd sct]) = is_users st"
proof -
  have "\<forall>x \<in> set us. us_username x \<noteq> Some u \<Longrightarrow> erase_user u (us @ [invited_user u pwd sct]) = us" for us
    by (induction us) (auto simp: invited_user_def new_user_def)
  then show "find_user st u = None \<Longrightarrow> ?thesis" by (auto simp: find_user_def find_None_iff)
qed

section \<open>Properties\<close>

text \<open>
  C25: an invitation works.  When \<open>--add-user\<close> succeeds, the pairing string it prints, given to the
  client, is read as exactly the agent's ids and the user's name, password and token; and
  those are the credentials in the state the agent loads, for a user with the owner role.
\<close>

theorem invitation_reaches_client:
  assumes "setup_works e" and "tmuxremote_do_add_user e homeDir username fs = (True, Some str, fs')"
    and "se_load_device_config e fs (device_config_file homeDir) = Some (p, d)"
    and "list_all field_ok [p, d, se_password e, the (se_sct e)]" and "length (the username) < 64"
  shows "\<exists>u sct st. username = Some u \<and> se_sct e = Some sct \<and>
    tmuxremote_parse_pairing_string mem_ok (Some str) =
      Some \<lparr>pi_productId = p, pi_deviceId = d, pi_username = u, pi_password = se_password e, pi_sct = sct\<rparr> \<and>
    load_users e fs' homeDir = Some st \<and> find_user st u = Some (invited_user u (se_password e) (Some sct)) \<and>
    is_password_invite_pairing st"
  using assms(2)
proof (rule add_userE)
  fix u p' d' and st :: iam_state
  let ?st = "st\<lparr>is_users := is_users st @ [invited_user u (se_password e) (se_sct e)], is_password_invite_pairing := True\<rparr>"
  assume u: "username = Some u" "validate_username (Some u)" and dc: "se_load_device_config e fs (device_config_file homeDir) = Some (p', d')"
    and new: "find_user st u = None" and save: "save_users e fs homeDir ?st = (True, fs')"
    and str: "Some str = map_option (pairing_string p' d' u (se_password e)) (se_sct e)"
  from str obtain sct where sct: "se_sct e = Some sct" "str = pairing_string p' d' u (se_password e) sct"
    by (cases "se_sct e") auto
  have "field_ok u" using u assms(5) by (simp add: username_field)
  with assms(3,4) dc sct have "tmuxremote_parse_pairing_string mem_ok (Some str) =
      Some \<lparr>pi_productId = p, pi_deviceId = d, pi_username = u, pi_password = se_password e, pi_sct = sct\<rparr>"
    by (simp add: pairing_string_parses)
  moreover have "load_users e fs' homeDir = Some ?st" by (rule saved_users_load [OF assms(1) save])
  moreover have "find_user ?st u = Some (invited_user u (se_password e) (Some sct))"
    using find_user_new [OF new, where pwd = "se_password e" and sct = "Some sct" and b = True] sct by simp
  ultimately show ?thesis using u(1) sct(1) by (intro exI [of _ u] exI [of _ sct] exI [of _ ?st]) simp
qed

text \<open>
  Removing an invited user takes the invitation back.  After \<open>--add-user\<close> and \<open>--remove-user\<close>
  for the same name the agent loads the state from before, with invitations enabled.
\<close>

theorem add_then_remove_user:
  assumes "setup_works e" and "load_users e fs homeDir = Some st"
    and "tmuxremote_do_add_user e homeDir (Some u) fs = (True, str, fs1)"
    and "tmuxremote_do_remove_user e homeDir u fs1 = (True, fs2)"
  shows "load_users e fs2 homeDir = Some (st\<lparr>is_password_invite_pairing := True\<rparr>)"
  using assms(3)
proof (rule add_userE)
  fix u' and st' :: iam_state
  let ?st = "st'\<lparr>is_users := is_users st' @ [invited_user u' (se_password e) (se_sct e)], is_password_invite_pairing := True\<rparr>"
  assume "Some u = Some u'" "load_users e fs homeDir = Some st'" and new: "find_user st' u' = None"
    and save: "save_users e fs homeDir ?st = (True, fs1)"
  then have [simp]: "u' = u" "st' = st" using assms(2) by simp_all
  have "load_users e fs1 homeDir = Some ?st" by (rule saved_users_load [OF assms(1) save])
  then have "save_users e fs1 homeDir (?st\<lparr>is_users := erase_user u (is_users ?st)\<rparr>) = (True, fs2)"
    using assms(4) by (simp add: tmuxremote_do_remove_user_def split: option.splits)
  from saved_users_load [OF assms(1) this] new show ?thesis by (simp add: erase_new_user)
qed

text \<open>The state that \<open>--init\<close> is meant to leave.\<close>

definition owner_state :: "setup_env \<Rightarrow> iam_state" where
  "owner_state e = (ie_new_state (se_iam e))\<lparr>is_password_invite_pairing := True,
     is_local_open_pairing := False, is_password_open_pairing := False, is_local_initial_pairing := False,
     is_friendly_name := Some ''tmux-remote'',
     is_users := is_users (ie_new_state (se_iam e)) @ [invited_user ''owner'' (se_password e) (se_sct e)]\<rparr>"

text \<open>What a successful \<open>--init\<close> did.\<close>

lemma init_commonE:
  assumes "init_common e homeDir productId deviceId tty env stdin w = (True, str, w')"
  obtains fs1 pid did where "\<not> ke_exists (se_key e) (kw_files w) (device_config_file homeDir)"
    "kw_files w' = tmuxremote_iam_create_default_state (iam_of e) fs1 (iam_state_file homeDir)
       ''owner'' (se_password e) (se_sct e)"
    "str = owner_pairing_string e (kw_files w') (iam_state_file homeDir) pid did"
proof -
  have "\<exists>fs1 pid did. \<not> ke_exists (se_key e) (kw_files w) (device_config_file homeDir) \<and>
      kw_files w' = tmuxremote_iam_create_default_state (iam_of e) fs1 (iam_state_file homeDir)
       ''owner'' (se_password e) (se_sct e) \<and>
      str = owner_pairing_string e (kw_files w') (iam_state_file homeDir) pid did"
    using assms unfolding init_common_def Let_def
    by (auto split: if_splits option.splits prod.splits intro!: exI)
  with that show ?thesis by blast
qed

text \<open>
  Initialisation invites the owner and nobody else.  A successful \<open>--init\<close> found no
  configuration; afterwards the agent loads a state in which only invited users can pair, with
  one new user, the owner, whose pairing string is printed.
\<close>

theorem init_invites_owner:
  assumes "setup_works e" and "\<forall>fs p s. fst (ke_write (se_key e) fs p s)" and "ie_username_ok (se_iam e) ''owner''"
    and "ie_dump (se_iam e) (owner_state e) \<noteq> None" and "find_user (ie_new_state (se_iam e)) ''owner'' = None"
    and "tmuxremote_do_init e homeDir productId deviceId tty env stdin w = (True, str, w')"
  shows "kw_files w (device_config_file homeDir) = None \<and> load_users e (kw_files w') homeDir = Some (owner_state e) \<and>
    (\<exists>pid did. str = map_option (pairing_string pid did ''owner'' (se_password e)) (se_sct e))"
  using assms(6) [unfolded tmuxremote_do_init_def]
proof (rule init_commonE)
  fix fs1 pid did
  assume no: "\<not> ke_exists (se_key e) (kw_files w) (device_config_file homeDir)"
    and fs: "kw_files w' = tmuxremote_iam_create_default_state (iam_of e) fs1 (iam_state_file homeDir)
       ''owner'' (se_password e) (se_sct e)"
    and str: "str = owner_pairing_string e (kw_files w') (iam_state_file homeDir) pid did"
  have env: "key_env_ok (se_key e)" using assms(1) by (simp add: setup_works_def)
  from assms(4) obtain out where out: "ie_dump (se_iam e) (owner_state e) = Some out" by blast
  have state: "tmuxremote_iam_create_default_state (iam_of e) fs1 (iam_state_file homeDir) ''owner''
      (se_password e) (se_sct e) = snd (ke_write (se_key e) fs1 (iam_state_file homeDir) out)"
    using out assms(3)
    by (simp add: tmuxremote_iam_create_default_state_def iam_of_def save_iam_state_def owner_state_def Let_def)
  have "ke_write (se_key e) fs1 (iam_state_file homeDir) out = (True, kw_files w')"
    using assms(2) fs state by (metis prod.collapse)
  then have "save_users e fs1 homeDir (owner_state e) = (True, kw_files w')"
    using out by (simp add: save_users_def)
  then have load: "load_users e (kw_files w') homeDir = Some (owner_state e)"
    by (rule saved_users_load [OF assms(1)])
  have "find_user (owner_state e) ''owner'' = Some (invited_user ''owner'' (se_password e) (se_sct e))"
    using find_user_new [OF assms(5), where pwd = "se_password e" and sct = "se_sct e" and b = True] by (simp add: find_user_def owner_state_def)
  with load have "str = map_option (pairing_string pid did ''owner'' (se_password e)) (se_sct e)"
    by (auto simp: str owner_pairing_string_def load_users_def invited_user_def new_user_def split: option.splits)
  with no load show ?thesis by (auto simp: env_exists [OF env])
qed

text \<open>An agent with working storage and a serializer for two states.\<close>

definition lap_state :: "iam_user list \<Rightarrow> iam_state" where
  "lap_state us = (sample_state us)\<lparr>is_friendly_name := Some ''tmux-remote''\<rparr>"

definition bob :: iam_user where "bob = invited_user ''bob'' ''pw'' (Some ''tok'')"
definition owner :: iam_user where "owner = invited_user ''owner'' ''pw'' (Some ''tok'')"

definition lap_dump :: "iam_state \<Rightarrow> string option" where
  "lap_dump st = (if st = lap_state [owner] then Some ''o'' else if st = lap_state [owner, bob] then Some ''ob'' else None)"

definition lap_load :: "string \<Rightarrow> iam_state option" where
  "lap_load s = (if s = ''o'' then Some (lap_state [owner]) else if s = ''ob'' then Some (lap_state [owner, bob]) else None)"

definition lap :: setup_env where
  "lap = \<lparr>se_iam = \<lparr>ie_new_state = sample_state [], ie_username_ok = (\<lambda>_. True), ie_dump = lap_dump, ie_load = lap_load,
       ie_write = (\<lambda>fs p s. (True, fs(p \<mapsto> s)))\<rparr>,
     se_key = mac,
     se_load_device_config = (\<lambda>fs p. Some (''pr'', ''de'')),
     se_save_device_config = (\<lambda>fs f p d. (True, fs(f \<mapsto> ''f''))), se_device_new = True,
     se_password = ''pw'', se_sct = Some ''tok''\<rparr>"

lemma lap_works: "setup_works lap"
proof -
  have "key_env_ok (se_key lap)" using mac_ok by (simp add: lap_def)
  moreover have "serializer_faithful (se_iam lap)"
    by (simp add: serializer_faithful_def lap_def lap_dump_def lap_load_def)
  moreover have "\<forall>fs p. ke_load (se_key lap) fs p = fs p" by (simp add: lap_def mac_def)
  ultimately show ?thesis unfolding setup_works_def by blast
qed

definition lap_files :: file_map where
  "lap_files = Map.empty(''h/state/iam_state.json'' \<mapsto> ''o'')"

lemma lap_users: "load_users lap lap_files ''h'' = Some (lap_state [owner])"
  by (simp add: load_users_def lap_files_def lap_def lap_load_def iam_state_file_def mac_def)

lemma lap_add:
  "tmuxremote_do_add_user lap ''h'' (Some ''bob'') lap_files =
     (True, Some (pairing_string ''pr'' ''de'' ''bob'' ''pw'' ''tok''), lap_files(''h/state/iam_state.json'' \<mapsto> ''ob''))"
proof -
  have "validate_username (Some ''bob'')" by (simp add: validate_username_def username_char_def)
  moreover have "(lap_state [owner])\<lparr>is_users := [owner, bob], is_password_invite_pairing := True\<rparr> = lap_state [owner, bob]"
    by (simp add: lap_state_def sample_state_def)
  moreover have "save_users lap fs ''h'' (lap_state [owner, bob]) = (True, fs(''h/state/iam_state.json'' \<mapsto> ''ob''))" for fs
    by (simp add: save_users_def lap_def lap_dump_def lap_state_def sample_state_def iam_state_file_def mac_def)
  moreover have "is_users (lap_state us) = us" for us by (simp add: lap_state_def sample_state_def)
  ultimately show ?thesis using lap_users
    by (simp add: tmuxremote_do_add_user_def) (simp add: lap_def owner_def bob_def invited_user_def new_user_def)
qed

theorem invitation_reaches_client_witness:
  "tmuxremote_parse_pairing_string mem_ok (Some (pairing_string ''pr'' ''de'' ''bob'' ''pw'' ''tok'')) =
     Some \<lparr>pi_productId = ''pr'', pi_deviceId = ''de'', pi_username = ''bob'', pi_password = ''pw'', pi_sct = ''tok''\<rparr>"
proof -
  have "se_load_device_config lap lap_files (device_config_file ''h'') = Some (''pr'', ''de'')"
    "list_all field_ok [''pr'', ''de'', se_password lap, the (se_sct lap)]"
    by (simp_all add: lap_def field_ok_def)
  from invitation_reaches_client [OF lap_works lap_add this] show ?thesis by (auto simp: lap_def)
qed

theorem add_then_remove_user_witness:
  "load_users lap (lap_files(''h/state/iam_state.json'' \<mapsto> ''o'')) ''h'' =
     Some ((lap_state [owner])\<lparr>is_password_invite_pairing := True\<rparr>)"
proof -
  let ?fs = "lap_files(''h/state/iam_state.json'' \<mapsto> ''ob'')"
  have u: "load_users lap ?fs ''h'' = Some (lap_state [owner, bob])"
    by (simp add: load_users_def lap_def lap_load_def iam_state_file_def mac_def)
  have "tmuxremote_do_remove_user lap ''h'' ''bob'' ?fs = (True, ?fs(''h/state/iam_state.json'' \<mapsto> ''o''))"
    by (simp add: tmuxremote_do_remove_user_def u)
       (simp add: find_user_def lap_state_def sample_state_def owner_def bob_def invited_user_def new_user_def
          save_users_def lap_def lap_dump_def iam_state_file_def mac_def)
  from add_then_remove_user [OF lap_works lap_users lap_add this] show ?thesis by simp
qed

theorem init_invites_owner_witness:
  "\<exists>str w'. tmuxremote_do_init lap ''h'' (Some ''pr'') (Some ''de'') False None [] \<lparr>kw_files = Map.empty, kw_keychain = Map.empty\<rparr> =
      (True, str, w') \<and> load_users lap (kw_files w') ''h'' = Some (owner_state lap)"
proof -
  let ?w = "\<lparr>kw_files = Map.empty, kw_keychain = Map.empty\<rparr>"
  obtain r str w' where i: "tmuxremote_do_init lap ''h'' (Some ''pr'') (Some ''de'') False None [] ?w = (r, str, w')"
    by (metis prod_cases3)
  then have r
    by (auto simp: tmuxremote_do_init_def init_common_def read_id_def strncpy_term_def ask_keychain_def
        tmuxremote_device_key_file_path_def tmuxremote_sanitize_key_component_def lap_def mac_def
        tmuxremote_load_or_create_private_key_def load_or_create_file_key_def record_key_storage_def Let_def
        split: prod.splits if_splits)
  have ok: "\<forall>fs p s. fst (ke_write (se_key lap) fs p s)" "ie_username_ok (se_iam lap) ''owner''"
    "find_user (ie_new_state (se_iam lap)) ''owner'' = None"
    by (simp_all add: lap_def mac_def find_user_def sample_state_def)
  have "owner_state lap = lap_state [owner]"
    by (simp add: owner_state_def lap_def lap_state_def sample_state_def owner_def)
  then have "ie_dump (se_iam lap) (owner_state lap) \<noteq> None" by (simp add: lap_def lap_dump_def)
  from init_invites_owner [OF lap_works ok(1,2) this ok(3)] i \<open>r\<close> show ?thesis by auto
qed

end
