(* ===== verification/Pty_Relay.thy ===== *)
theory Pty_Relay
  imports Prompt_Detector "HOL-Library.Sublist"
begin

text \<open>
  The threads that carry the bytes of a terminal (\<open>agent/src/tmuxremote_stream.c\<close>): the PTY
  reader, which records, scans for prompts and sends to the client, and the stream reader,
  which writes the client's input to the PTY.

  What the operating system and the SDK return is a list of outcomes, one per call, and a
  thread that uses up the list has not ended yet: the value \<^const>\<open>None\<close>.  The state after each
  turn is in the accumulated output, so a prefix of the outcomes gives a snapshot of the run.
\<close>

definition TMUXREMOTE_STREAM_BUFFER_SIZE :: nat where "TMUXREMOTE_STREAM_BUFFER_SIZE = 4096"
definition TMUXREMOTE_STREAM_WAIT_SLICE_MS :: nat where "TMUXREMOTE_STREAM_WAIT_SLICE_MS = 250"
definition TMUXREMOTE_STREAM_WRITE_TIMEOUT_MS :: nat where "TMUXREMOTE_STREAM_WRITE_TIMEOUT_MS = 15000"

section \<open>Writing to a descriptor\<close>

text \<open>
  The results of \<open>write\<close>: a count, an interruption (\<open>EINTR\<close>, \<open>EAGAIN\<close>, \<open>EWOULDBLOCK\<close>) or another
  error.  The value of \<open>write_all_fd\<close> is what was written, the result and the unused outcomes.
\<close>

datatype write_outcome = Wrote nat | Interrupted | WriteError

fun write_all_fd :: "write_outcome list \<Rightarrow> char list \<Rightarrow> (char list \<times> bool \<times> write_outcome list) option" where
  "write_all_fd os [] = Some ([], True, os)"
| "write_all_fd [] (c # cs) = None"
| "write_all_fd (Wrote n # os) (c # cs) =
     (if n = 0 then Some ([], False, os)
      else map_option (\<lambda>(w, r). (take n (c # cs) @ w, r)) (write_all_fd os (drop n (c # cs))))"
| "write_all_fd (Interrupted # os) (c # cs) = write_all_fd os (c # cs)"
| "write_all_fd (WriteError # os) (c # cs) = Some ([], False, os)"

section \<open>Waiting for a future\<close>

text \<open>
  A slice of the wait: the result of \<open>nabto_device_future_timed_wait\<close>, \<^const>\<open>None\<close> when the future
  is not resolved, and whether another thread has set \<open>closing\<close>.  The value is the result, how
  often the stream was aborted, and whether the wait set \<open>closing\<close>.
\<close>

fun wait_stream_future ::
  "nat \<Rightarrow> bool \<Rightarrow> bool \<Rightarrow> ('e option \<times> bool) list \<Rightarrow> ('e \<times> nat \<times> bool) option" where
  "wait_stream_future waitedMs aborted timeoutEnabled [] = None"
| "wait_stream_future waitedMs aborted timeoutEnabled ((Some ec, closing) # ws) = Some (ec, 0, False)"
| "wait_stream_future waitedMs aborted timeoutEnabled ((None, closing) # ws) =
     (if closing \<and> \<not> aborted
      then map_option (\<lambda>(ec, n, c). (ec, n + 1, c)) (wait_stream_future waitedMs True False ws)
      else if timeoutEnabled
      then let waitedMs = waitedMs + TMUXREMOTE_STREAM_WAIT_SLICE_MS
           in if waitedMs \<ge> TMUXREMOTE_STREAM_WRITE_TIMEOUT_MS
              then map_option (\<lambda>(ec, n, c). (ec, n + 1, True)) (wait_stream_future waitedMs True False ws)
              else wait_stream_future waitedMs aborted True ws
      else wait_stream_future waitedMs aborted False ws)"

section \<open>From the PTY to the client\<close>

text \<open>
  A turn of the PTY reader: \<open>closing\<close> at the head of the loop, what \<open>read\<close> returned
  (\<^const>\<open>None\<close> for \<open>n \<le> 0\<close>), whether the write future could be made, and whether the write ended
  well; the allocator is the one of that moment.
\<close>

record pty_turn =
  pt_closing :: bool
  pt_read :: "char list option"
  pt_future :: bool
  pt_written :: bool
  pt_al :: alloc

record 're pty_side =
  py_record :: "byte list option"
  py_detector :: "'re prompt_detector option"
  py_sent :: "char list list"
  py_events :: "prompt_event list"

definition record_header :: "byte list" where
  "record_header = map byte_of_char ''PTYR'' @ be32 1 @ replicate 8 0"

definition record_frame :: "char list \<Rightarrow> byte list" where
  "record_frame buf = be32 (word_of_nat (length buf)) @ map byte_of_char buf"

text \<open>The body of a turn after a successful read; \<^const>\<open>None\<close> is a fault of the detector.\<close>

definition relay_chunk ::
  "'re pcre2 \<Rightarrow> alloc \<Rightarrow> bool \<Rightarrow> char list \<Rightarrow> 're pty_side \<Rightarrow> 're pty_side option" where
  "relay_chunk api al future_ok buf p =
     (let p = p\<lparr>py_record := map_option (\<lambda>f. f @ record_frame buf) (py_record p)\<rparr>;
          send = (\<lambda>p. if future_ok then p\<lparr>py_sent := py_sent p @ [buf]\<rparr> else p)
      in case py_detector p of
           None \<Rightarrow> Some (send p)
         | Some d \<Rightarrow>
             map_option (\<lambda>(d', es). send (p\<lparr>py_detector := Some d', py_events := py_events p @ es\<rparr>))
               (tmuxremote_prompt_detector_feed api al d buf))"

text \<open>
  The loop: the state, and whether the thread has left the loop (then it sets \<open>closing\<close>, wakes
  the control monitor and starts the close).
\<close>

fun pty_reader_thread ::
  "'re pcre2 \<Rightarrow> pty_turn list \<Rightarrow> 're pty_side \<Rightarrow> ('re pty_side \<times> bool) option" where
  "pty_reader_thread api [] p = Some (p, False)"
| "pty_reader_thread api (t # ts) p =
     (if pt_closing t then Some (p, True)
      else case pt_read t of
             None \<Rightarrow> Some (p, True)
           | Some buf \<Rightarrow>
               (case relay_chunk api (pt_al t) (pt_future t) buf p of
                  None \<Rightarrow> None
                | Some p' \<Rightarrow>
                    if pt_future t \<and> pt_written t then pty_reader_thread api ts p' else Some (p', True)))"

text \<open>
  Reading a recording back (\<open>load_recording\<close> of the replay test, \<open>agent/tests\<close>): the frames, or
  \<^const>\<open>None\<close> when an assertion fails.
\<close>

function read_frames :: "byte list \<Rightarrow> byte list list option" where
  "read_frames bs =
     (if length bs < 4 then Some []
      else
        let n = unat (from_be32 bs); rest = drop 4 bs
        in if n = 0 \<or> n > 65536 then Some []
           else if length rest < n then None
           else map_option (Cons (take n rest)) (read_frames (drop n rest)))"
  by pat_completeness auto
termination
  by (relation "measure length") auto

declare read_frames.simps [simp del]

definition load_recording :: "byte list \<Rightarrow> byte list list option" where
  "load_recording bs =
     (if length bs < 16 \<or> take 4 bs \<noteq> map byte_of_char ''PTYR'' then None else read_frames (drop 16 bs))"

section \<open>From the client to the PTY\<close>

text \<open>
  A turn of the stream reader: \<open>closing\<close>, whether the read future could be made, the bytes read
  (\<^const>\<open>None\<close> for an error), whether the descriptor is open, and the outcomes of \<open>write\<close>.
\<close>

record stream_turn =
  st_closing :: bool
  st_future :: bool
  st_read :: "char list option"
  st_fd_open :: bool
  st_writes :: "write_outcome list"

text \<open>The bytes written to the PTY, and whether the thread has left the loop.\<close>

fun stream_reader_thread :: "stream_turn list \<Rightarrow> char list \<Rightarrow> char list \<times> bool" where
  "stream_reader_thread [] out = (out, False)"
| "stream_reader_thread (t # ts) out =
     (if st_closing t \<or> \<not> st_future t then (out, True)
      else case st_read t of
             None \<Rightarrow> (out, True)
           | Some buf \<Rightarrow>
               if buf \<noteq> [] \<and> st_fd_open t
               then (case write_all_fd (st_writes t) buf of
                       None \<Rightarrow> (out, False)
                     | Some (w, ok, _) \<Rightarrow> if ok then stream_reader_thread ts (out @ w) else (out @ w, True))
               else stream_reader_thread ts out)"

section \<open>Lemmas\<close>

lemma write_all_fd_result:
  "write_all_fd os cs = Some (w, ok, os') \<Longrightarrow> prefix w cs \<and> (ok \<longleftrightarrow> w = cs)"
proof (induction os cs arbitrary: w rule: write_all_fd.induct)
  case (3 n os c cs)
  show ?case
  proof (cases "n = 0")
    case True
    with 3 show ?thesis by auto
  next
    case False
    with 3(2) obtain w' where w: "write_all_fd os (drop n (c # cs)) = Some (w', ok, os')" "w = take n (c # cs) @ w'"
      by auto
    have "prefix w' (drop n (c # cs)) \<and> (ok \<longleftrightarrow> w' = drop n (c # cs))" using 3(1) [OF False w(1)] .
    moreover have "c # cs = take n (c # cs) @ drop n (c # cs)" by simp
    ultimately show ?thesis using w(2) by (metis same_append_eq same_prefix_prefix)
  qed
qed auto

text \<open>A write ends when the interruptions do: the other outcomes are at most one per byte.\<close>

lemma write_all_fd_ends:
  "length cs \<le> length (filter (\<lambda>x. x \<noteq> Interrupted) os) \<Longrightarrow> write_all_fd os cs \<noteq> None"
proof (induction os cs rule: write_all_fd.induct)
  case (3 n os c cs)
  then show ?case by (cases "n = 0") auto
qed auto

definition received :: "stream_turn list \<Rightarrow> char list" where
  "received ts = concat (map (\<lambda>t. case st_read t of None \<Rightarrow> [] | Some b \<Rightarrow> b) ts)"

lemma stream_reader_prefix:
  "list_all st_fd_open ts \<Longrightarrow> \<exists>w. fst (stream_reader_thread ts out) = out @ w \<and> prefix w (received ts)"
proof (induction ts arbitrary: out)
  case (Cons t ts)
  show ?case
  proof (cases "st_closing t \<or> \<not> st_future t \<or> st_read t = None")
    case True
    then show ?thesis by auto
  next
    case False
    then obtain buf where buf: "st_read t = Some buf" by blast
    show ?thesis
    proof (cases "buf = []")
      case True
      with Cons False buf show ?thesis by (simp add: received_def)
    next
      case ne: False
      show ?thesis
      proof (cases "write_all_fd (st_writes t) buf")
        case None
        with ne False buf Cons.prems show ?thesis by simp
      next
        case (Some r)
        obtain w ok os where r: "r = (w, ok, os)" by (cases r)
        have w: "prefix w buf" "ok \<longleftrightarrow> w = buf" using write_all_fd_result Some r by auto
        show ?thesis
        proof (cases ok)
          case True
          from Cons.IH [of "out @ w"] Cons.prems obtain v
            where "fst (stream_reader_thread ts (out @ w)) = out @ w @ v" "prefix v (received ts)" by auto
          with Some r True ne False buf Cons.prems w(2) show ?thesis
            by (intro exI [of _ "w @ v"]) (simp add: received_def)
        next
          case False
          with Some r ne \<open>\<not> (st_closing t \<or> \<not> st_future t \<or> st_read t = None)\<close> buf Cons.prems w(1) show ?thesis
            by (intro exI [of _ w]) (simp add: received_def prefix_prefix)
        qed
      qed
    qed
  qed
qed (simp add: received_def)

text \<open>When every read succeeds and every write can end well, everything arrives.\<close>

definition turn_fine :: "stream_turn \<Rightarrow> bool" where
  "turn_fine t \<longleftrightarrow> \<not> st_closing t \<and> st_future t \<and> st_fd_open t \<and>
     (\<exists>buf os'. st_read t = Some buf \<and> write_all_fd (st_writes t) buf = Some (buf, True, os'))"

lemma stream_reader_all:
  "list_all turn_fine ts \<Longrightarrow> stream_reader_thread ts out = (out @ received ts, False)"
  by (induction ts arbitrary: out) (auto simp: turn_fine_def received_def)

text \<open>The turns whose bytes were handled.\<close>

fun relayed :: "pty_turn list \<Rightarrow> pty_turn list" where
  "relayed [] = []"
| "relayed (t # ts) =
     (if pt_closing t \<or> pt_read t = None then []
      else t # (if pt_future t \<and> pt_written t then relayed ts else []))"

abbreviation chunk :: "pty_turn \<Rightarrow> char list" where
  "chunk t \<equiv> the (pt_read t)"

definition feeds :: "pty_turn list \<Rightarrow> detector_op list" where
  "feeds ts = map (\<lambda>t. DFeed (pt_al t) (chunk t)) ts"

text \<open>What the turns leave behind, without the loop.\<close>

definition relay_result :: "'re pcre2 \<Rightarrow> pty_turn list \<Rightarrow> 're pty_side \<Rightarrow> 're pty_side \<Rightarrow> bool" where
  "relay_result api ts p p' \<longleftrightarrow>
     py_record p' = map_option (\<lambda>f. f @ concat (map (\<lambda>t. record_frame (chunk t)) ts)) (py_record p) \<and>
     py_sent p' = py_sent p @ map chunk (filter pt_future ts) \<and>
     (case py_detector p of
        None \<Rightarrow> py_detector p' = None \<and> py_events p' = py_events p
      | Some d \<Rightarrow> \<exists>d'. fold_opt (detector_trace api) (d, py_events p) (feeds ts) = Some (d', py_events p') \<and>
          py_detector p' = Some d')"

definition side_ok :: "'re pcre2 \<Rightarrow> 're pty_side \<Rightarrow> bool" where
  "side_ok api p \<longleftrightarrow> pcre2_ok api \<and> (\<forall>d. py_detector p = Some d \<longrightarrow> wf_detector d)"

lemma relay_chunk_ok:
  assumes "side_ok api p" and t: "pt_read t = Some buf"
  obtains p' where "relay_chunk api (pt_al t) (pt_future t) buf p = Some p'" "side_ok api p'" "relay_result api [t] p p'"
proof (cases "py_detector p")
  case None
  then have "\<exists>p'. relay_chunk api (pt_al t) (pt_future t) buf p = Some p' \<and> side_ok api p' \<and> relay_result api [t] p p'"
    using assms by (cases "pt_future t") (auto simp: relay_chunk_def side_ok_def relay_result_def Let_def)
  with that show thesis by blast
next
  case (Some d)
  then have d: "pcre2_ok api" "wf_detector d" using assms(1) by (auto simp: side_ok_def)
  obtain d' es where "tmuxremote_prompt_detector_feed api (pt_al t) d buf = Some (d', es)" "wf_detector d'"
    using detector_step_safe [OF d, of "DFeed (pt_al t) buf"] by auto
  with Some d t have "\<exists>p'. relay_chunk api (pt_al t) (pt_future t) buf p = Some p' \<and> side_ok api p' \<and>
      relay_result api [t] p p'"
    by (cases "pt_future t")
       (auto simp: relay_chunk_def side_ok_def relay_result_def Let_def feeds_def detector_trace_def)
  with that show thesis by blast
qed

lemma relay_result_append:
  "relay_result api ts p p' \<Longrightarrow> relay_result api us p' p'' \<Longrightarrow> relay_result api (ts @ us) p p''"
  by (cases "py_record p"; cases "py_detector p") (auto simp: relay_result_def feeds_def fold_opt_append)

lemma pty_reader_result:
  "side_ok api p \<Longrightarrow> \<exists>p' ended. pty_reader_thread api ts p = Some (p', ended) \<and> relay_result api (relayed ts) p p'"
proof (induction ts arbitrary: p)
  case Nil
  then show ?case by (cases "py_record p"; cases "py_detector p") (auto simp: relay_result_def feeds_def)
next
  case (Cons t ts)
  show ?case
  proof (cases "pt_closing t \<or> pt_read t = None")
    case True
    then show ?thesis
      by (cases "py_record p"; cases "py_detector p") (auto simp: relay_result_def feeds_def)
  next
    case False
    then obtain buf where buf: "pt_read t = Some buf" by blast
    from relay_chunk_ok [OF Cons.prems buf] obtain p'
      where p': "relay_chunk api (pt_al t) (pt_future t) buf p = Some p'" "side_ok api p'" "relay_result api [t] p p'" .
    show ?thesis
    proof (cases "pt_future t \<and> pt_written t")
      case True
      from Cons.IH [OF p'(2)] obtain p'' ended
        where "pty_reader_thread api ts p' = Some (p'', ended)" "relay_result api (relayed ts) p' p''" by blast
      with relay_result_append [OF p'(3), of "relayed ts" p''] True False buf p'(1) show ?thesis by auto
    next
      case False
      with p' buf \<open>\<not> (pt_closing t \<or> pt_read t = None)\<close> show ?thesis by auto
    qed
  qed
qed

lemma read_frame:
  assumes "buf \<noteq> []" and "length buf \<le> 65536"
  shows "read_frames (record_frame buf @ rest) = map_option (Cons (map byte_of_char buf)) (read_frames rest)"
proof -
  have n: "unat (word_of_nat (length buf) :: 32 word) = length buf"
    using assms(2) by (simp add: unsigned_of_nat take_bit_nat_eq_self_iff)
  show ?thesis
    using assms n by (subst read_frames.simps) (simp add: record_frame_def Let_def)
qed

lemma read_frames_all:
  "list_all (\<lambda>b. b \<noteq> [] \<and> length b \<le> 65536) bs \<Longrightarrow>
     read_frames (concat (map record_frame bs)) = Some (map (map byte_of_char) bs)"
proof (induction bs)
  case Nil
  then show ?case by (simp add: read_frames.simps)
qed (simp add: read_frame)

text \<open>The slices before the future is resolved.\<close>

definition unresolved :: "('e option \<times> bool) list \<Rightarrow> nat" where
  "unresolved ws = length (takeWhile (\<lambda>w. fst w = None) ws)"

lemma wait_returns:
  "wait_stream_future waited aborted te ws \<noteq> None \<longleftrightarrow> unresolved ws < length ws"
  by (induction waited aborted te ws rule: wait_stream_future.induct) (auto simp: unresolved_def Let_def)

lemma wait_value:
  "wait_stream_future waited aborted te ws = Some (ec, n, c) \<Longrightarrow> fst (ws ! unresolved ws) = Some ec"
  by (induction waited aborted te ws arbitrary: n c rule: wait_stream_future.induct)
     (auto simp: unresolved_def Let_def split: if_splits)

lemma wait_aborted: "wait_stream_future waited True False ws = Some (ec, n, c) \<Longrightarrow> n = 0 \<and> \<not> c"
  by (induction waited True False ws arbitrary: n c rule: wait_stream_future.induct) auto

lemma wait_timeout:
  "wait_stream_future (250 * k) False True ws = Some (ec, n, c) \<Longrightarrow> k < 60 \<Longrightarrow>
     n \<le> 1 \<and> (n = 0 \<longrightarrow> k + unresolved ws < 60) \<and>
     (list_all (\<lambda>w. \<not> snd w) ws \<longrightarrow> (n = 1 \<longleftrightarrow> k + unresolved ws \<ge> 60) \<and> (c \<longleftrightarrow> n = 1))"
proof (induction ws arbitrary: k n c)
  case (Cons w ws)
  obtain r closing where w: "w = (r, closing)" by force
  show ?case
  proof (cases r)
    case (Some e)
    with Cons.prems w show ?thesis by (simp add: unresolved_def)
  next
    case None
    note aborts = wait_aborted [of _ ws ec]
    consider (closing) closing | (timeout) "\<not> closing" "k = 59" | (on) "\<not> closing" "k < 59"
      using Cons.prems(2) by linarith
    then show ?thesis
    proof cases
      case closing
      with Cons.prems w None show ?thesis by (auto simp: unresolved_def dest: aborts)
    next
      case timeout
      with Cons.prems(1) w None show ?thesis
        by (auto simp: unresolved_def Let_def TMUXREMOTE_STREAM_WAIT_SLICE_MS_def
            TMUXREMOTE_STREAM_WRITE_TIMEOUT_MS_def dest: aborts)
    next
      case on
      then have "wait_stream_future (250 * (k + 1)) False True ws = Some (ec, n, c)"
        using Cons.prems(1) w None
        by (auto simp: Let_def TMUXREMOTE_STREAM_WAIT_SLICE_MS_def TMUXREMOTE_STREAM_WRITE_TIMEOUT_MS_def algebra_simps
            split: if_splits)
      from Cons.IH [OF this] on w None show ?thesis by (simp add: unresolved_def)
    qed
  qed
qed simp

section \<open>Properties\<close>

text \<open>
  C12: the terminal output is relayed faithfully.  Whatever the terminal prints and whenever the
  stream fails, the PTY reader runs without a fault: the client is sent the chunks that were
  read, unchanged and in order; the prompt detector sees exactly the same chunks; and the
  recording, read back, gives exactly these chunks.
\<close>

theorem pty_output_is_relayed:
  assumes "side_ok api p" and "py_record p = Some record_header"
    and "list_all (\<lambda>t. \<forall>b. pt_read t = Some b \<longrightarrow> b \<noteq> [] \<and> length b \<le> TMUXREMOTE_STREAM_BUFFER_SIZE) ts"
  shows "\<exists>p' ended rec. pty_reader_thread api ts p = Some (p', ended) \<and>
     py_sent p' = py_sent p @ map chunk (filter pt_future (relayed ts)) \<and>
     (\<forall>d. py_detector p = Some d \<longrightarrow> (\<exists>d'. py_detector p' = Some d' \<and>
        fold_opt (detector_trace api) (d, py_events p) (feeds (relayed ts)) = Some (d', py_events p'))) \<and>
     py_record p' = Some rec \<and> load_recording rec = Some (map (\<lambda>t. map byte_of_char (chunk t)) (relayed ts))"
proof -
  from pty_reader_result [OF assms(1), of ts] obtain p' ended
    where p': "pty_reader_thread api ts p = Some (p', ended)" "relay_result api (relayed ts) p p'" by blast
  let ?rec = "record_header @ concat (map record_frame (map chunk (relayed ts)))"
  have rec: "py_record p' = Some ?rec" using p'(2) assms(2) by (simp add: relay_result_def comp_def)
  have "list_all (\<lambda>b. b \<noteq> [] \<and> length b \<le> 65536) (map chunk (relayed ts))"
    using assms(3) by (induction ts rule: relayed.induct) (auto simp: TMUXREMOTE_STREAM_BUFFER_SIZE_def)
  from read_frames_all [OF this] have "load_recording ?rec = Some (map (\<lambda>t. map byte_of_char (chunk t)) (relayed ts))"
    by (simp add: load_recording_def record_header_def be32_def comp_def)
  with p' rec show ?thesis
    by (intro exI [of _ p'] exI [of _ ended] exI [of _ ?rec]) (auto simp: relay_result_def)
qed

definition two_turns :: "pty_turn list" where
  "two_turns = [\<lparr>pt_closing = False, pt_read = Some ''ls'', pt_future = True, pt_written = True, pt_al = mem_ok\<rparr>,
     \<lparr>pt_closing = False, pt_read = Some ''ok'', pt_future = True, pt_written = False, pt_al = mem_ok\<rparr>]"

definition recording_side :: "'re pty_side" where
  "recording_side = \<lparr>py_record = Some record_header, py_detector = None, py_sent = [], py_events = []\<rparr>"

theorem pty_output_is_relayed_witness:
  "\<exists>p' ended. pty_reader_thread sample_pcre2 two_turns recording_side = Some (p', ended) \<and>
     py_sent p' = [''ls'', ''ok'']"
proof -
  have side: "side_ok sample_pcre2 recording_side" by (simp add: side_ok_def sample_pcre2_ok recording_side_def)
  have "list_all (\<lambda>t. \<forall>b. pt_read t = Some b \<longrightarrow> b \<noteq> [] \<and> length b \<le> TMUXREMOTE_STREAM_BUFFER_SIZE) two_turns"
    by (simp add: two_turns_def TMUXREMOTE_STREAM_BUFFER_SIZE_def)
  from pty_output_is_relayed [OF side _ this] show ?thesis by (auto simp: two_turns_def recording_side_def)
qed

text \<open>
  The client's input reaches the terminal.  While the terminal is open, what has been written
  to it is always a prefix of what the client sent, in order, also when writes are partial,
  interrupted or fail; and it is everything when the writes end well.
\<close>

theorem client_input_reaches_terminal:
  assumes "list_all st_fd_open ts"
  shows "prefix (fst (stream_reader_thread ts [])) (received ts) \<and>
    (list_all turn_fine ts \<longrightarrow> stream_reader_thread ts [] = (received ts, False))"
  using stream_reader_prefix [OF assms, of "[]"] stream_reader_all [of ts "[]"] by auto

definition two_inputs :: "stream_turn list" where
  "two_inputs =
     [\<lparr>st_closing = False, st_future = True, st_read = Some ''echo'', st_fd_open = True,
       st_writes = [Wrote 1, Interrupted, Wrote 3]\<rparr>,
      \<lparr>st_closing = False, st_future = True, st_read = Some '' hi'', st_fd_open = True, st_writes = [Wrote 3]\<rparr>]"

theorem client_input_reaches_terminal_witness:
  "stream_reader_thread two_inputs [] = (''echo hi'', False)"
proof -
  have "list_all turn_fine two_inputs" by (simp add: two_inputs_def turn_fine_def)
  moreover have "list_all st_fd_open two_inputs" by (simp add: two_inputs_def)
  ultimately show ?thesis
    using client_input_reaches_terminal [of two_inputs] by (simp add: two_inputs_def received_def)
qed



end
