(* ===== verification/Pty_Streams.thy ===== *)
theory Pty_Streams
  imports Pty_Relay Control_Threads Iam
begin

text \<open>
  The streams that carry terminals (\<open>agent/src/tmuxremote_stream.c\<close>): the callbacks that accept
  them, the set-up of the PTY, the lookups by connection, and the life of a stream from the
  callback to the cleanup thread and the shutdown.

  A stream is named by its address; the heap has the allocated streams, addresses are not
  reused, and an access to a stream that is not allocated is the outer \<^const>\<open>None\<close>.  Sections
  under \<open>activeStreamsMutex\<close> are atomic.  The SDK runs its callbacks one after the other;
  \<open>ps_sdk\<close> is the stream whose \<open>stream_accepted\<close> has created the set-up thread and not yet noted
  so.  A join is a step that waits until the thread is gone.  After \<open>nabto_device_stop\<close> there are
  no callbacks.
\<close>

section \<open>State\<close>

record 're active_stream =
  pa_streamRef :: connection_ref
  pa_connectionRef :: connection_ref
  pa_ptyFd :: int
  pa_childPid :: int
  pa_closing :: bool
  pa_closeStarted :: bool
  pa_detector :: "'re prompt_detector option"
  pa_recording :: bool
  pa_sessionName :: string
  pa_sessionCols :: "16 word"
  pa_sessionRows :: "16 word"
  pa_setupThreadStarted :: bool
  pa_ptyReaderThreadStarted :: bool
  pa_streamReaderThreadStarted :: bool

text \<open>Where a set-up thread is: before the test of \<open>closing\<close>, before the fork, before and after each thread it creates.\<close>

datatype setup_pc = SetupStart | SetupFork | SetupPty | SetupPtyFlag | SetupStreamFlag

text \<open>Which join a cleanup thread does next.\<close>

datatype cleanup_pc = CleanSetup | CleanPty | CleanStream

text \<open>
  \<open>ps_closes\<close> are the pending close futures, \<open>ps_closed\<close> every call of \<open>nabto_device_stream_close\<close>;
  \<open>ps_deinit\<close> are the streams the shutdown has taken, with whether the first one has been closed.
\<close>

record 're pty_streams =
  ps_heap :: "nat \<rightharpoonup> 're active_stream"
  ps_next :: nat
  ps_activeStreams :: "nat list"
  ps_accepting :: "nat list"
  ps_sdk :: "nat option"
  ps_setup :: "nat \<rightharpoonup> setup_pc"
  ps_ptyReaders :: "nat set"
  ps_streamReaders :: "nat set"
  ps_closes :: "nat list"
  ps_closed :: "nat list"
  ps_cleanup :: "nat \<rightharpoonup> cleanup_pc"
  ps_stopped :: bool
  ps_deinit :: "(bool \<times> nat list) option"
  ps_sessions :: session_map
  ps_children :: "int set"
  ps_signalled :: "int set"

definition tmuxremote_stream_listener_init :: "session_map \<Rightarrow> 're pty_streams" where
  "tmuxremote_stream_listener_init m =
     \<lparr>ps_heap = (\<lambda>_. None), ps_next = 0, ps_activeStreams = [], ps_accepting = [], ps_sdk = None,
      ps_setup = (\<lambda>_. None), ps_ptyReaders = {}, ps_streamReaders = {}, ps_closes = [], ps_closed = [],
      ps_cleanup = (\<lambda>_. None), ps_stopped = False, ps_deinit = None, ps_sessions = m, ps_children = {},
      ps_signalled = {}\<rparr>"

text \<open>What the surroundings of a step supply: which calls succeed, and the result of \<open>forkpty\<close>.\<close>

record 're pty_env =
  pe_alloc :: bool
  pe_future :: bool
  pe_thread :: bool
  pe_accepted :: bool
  pe_check :: "connection_ref \<Rightarrow> string \<Rightarrow> bool"
  pe_setup_thread :: bool
  pe_fork :: "(int \<times> int) option"
  pe_pty_thread :: bool
  pe_stream_thread :: bool
  pe_api :: "'re pcre2"
  pe_al :: alloc
  pe_config :: "pattern_config option"
  pe_record :: bool

section \<open>Lookups\<close>

text \<open>The loops over the list: the first stream that passes a test.\<close>

fun first_stream ::
  "(nat \<rightharpoonup> 're active_stream) \<Rightarrow> ('re active_stream \<Rightarrow> bool) \<Rightarrow> nat list \<Rightarrow> (nat \<times> 're active_stream) option option" where
  "first_stream h test [] = Some None"
| "first_stream h test (s # ss) =
     (case h s of
        None \<Rightarrow> None
      | Some a \<Rightarrow> if test a then Some (Some (s, a)) else first_stream h test ss)"

definition detector_of_ref :: "connection_ref \<Rightarrow> 're active_stream \<Rightarrow> bool" where
  "detector_of_ref ref a \<longleftrightarrow> \<not> pa_closing a \<and> pa_detector a \<noteq> None \<and> pa_connectionRef a = ref"

definition tmuxremote_stream_copy_active_prompt_for_ref ::
  "alloc \<Rightarrow> 're pty_streams \<Rightarrow> connection_ref \<Rightarrow> prompt_instance option option" where
  "tmuxremote_stream_copy_active_prompt_for_ref al st ref =
     map_option (\<lambda>r. case r of None \<Rightarrow> None
                      | Some (s, a) \<Rightarrow> tmuxremote_prompt_detector_copy_active al (the (pa_detector a)))
       (first_stream (ps_heap st) (detector_of_ref ref) (ps_activeStreams st))"

text \<open>The callback of a detector, and the control messages it sends.\<close>

fun prompt_stream_callback :: "env \<Rightarrow> connection_ref \<Rightarrow> prompt_event \<Rightarrow> call option" where
  "prompt_stream_callback e ref (Event PRESENT (Some i) _) =
     tmuxremote_control_stream_send_prompt_present_for_ref e ref (Some i)"
| "prompt_stream_callback e ref (Event UPDATE (Some i) _) =
     tmuxremote_control_stream_send_prompt_update_for_ref e ref (Some i)"
| "prompt_stream_callback e ref (Event GONE _ gone_id) =
     tmuxremote_control_stream_send_prompt_gone_for_ref e ref (Some gone_id)"
| "prompt_stream_callback e ref _ = None"

definition tmuxremote_stream_resolve_prompt_for_ref ::
  "env \<Rightarrow> 're pty_streams \<Rightarrow> connection_ref \<Rightarrow> string option \<Rightarrow> ('re pty_streams \<times> call option list) option" where
  "tmuxremote_stream_resolve_prompt_for_ref e st ref instance_id =
     map_option (\<lambda>r. case r of
         None \<Rightarrow> (st, [])
       | Some (s, a) \<Rightarrow>
           let (d, es) = tmuxremote_prompt_detector_resolve (the (pa_detector a)) instance_id
           in (st\<lparr>ps_heap := (ps_heap st)(s \<mapsto> a\<lparr>pa_detector := Some d\<rparr>)\<rparr>,
               map (prompt_stream_callback e (pa_connectionRef a)) es))
       (first_stream (ps_heap st) (detector_of_ref ref) (ps_activeStreams st))"

definition tmuxremote_stream_get_pty_fd :: "'re pty_streams \<Rightarrow> connection_ref \<Rightarrow> int option" where
  "tmuxremote_stream_get_pty_fd st ref =
     map_option (\<lambda>r. case r of None \<Rightarrow> -1 | Some (s, a) \<Rightarrow> pa_ptyFd a)
       (first_stream (ps_heap st) (\<lambda>a. \<not> pa_closing a \<and> pa_connectionRef a = ref \<and> pa_ptyFd a \<ge> 0)
          (ps_activeStreams st))"

text \<open>The sizes come from a resize request and fit into 16 bits; \<^const>\<open>None\<close> is also a fault of the resize.\<close>

definition tmuxremote_stream_resize_prompt_detector_for_ref ::
  "alloc \<Rightarrow> 're pty_streams \<Rightarrow> connection_ref \<Rightarrow> int \<Rightarrow> int \<Rightarrow> 're pty_streams option" where
  "tmuxremote_stream_resize_prompt_detector_for_ref al st ref cols rows =
     (case first_stream (ps_heap st) (detector_of_ref ref) (ps_activeStreams st) of
        None \<Rightarrow> None
      | Some None \<Rightarrow> Some st
      | Some (Some (s, a)) \<Rightarrow>
          map_option (\<lambda>d. st\<lparr>ps_heap := (ps_heap st)(s \<mapsto>
              a\<lparr>pa_sessionCols := word_of_int cols, pa_sessionRows := word_of_int rows, pa_detector := Some d\<rparr>)\<rparr>)
            (tmuxremote_prompt_detector_resize al (the (pa_detector a)) rows cols))"

section \<open>Closing\<close>

text \<open>When the cleanup thread cannot be created the stream is left allocated.\<close>

definition cleanup_active_stream :: "bool \<Rightarrow> nat \<Rightarrow> 're pty_streams \<Rightarrow> 're pty_streams option" where
  "cleanup_active_stream thread_ok s st =
     (case ps_heap st s of
        None \<Rightarrow> None
      | Some a \<Rightarrow>
          let st = st\<lparr>ps_heap := (ps_heap st)(s \<mapsto> a\<lparr>pa_closing := True\<rparr>),
                      ps_sessions := tmuxremote_session_remove (ps_sessions st) (pa_streamRef a),
                      ps_activeStreams := remove1 s (ps_activeStreams st)\<rparr>
          in if thread_ok then Some (st\<lparr>ps_cleanup := (ps_cleanup st)(s \<mapsto> CleanSetup)\<rparr>)
             else Some (if pa_childPid a > 0 then st\<lparr>ps_signalled := insert (pa_childPid a) (ps_signalled st)\<rparr>
                        else st))"

definition start_stream_close :: "bool \<Rightarrow> bool \<Rightarrow> nat \<Rightarrow> 're pty_streams \<Rightarrow> 're pty_streams option" where
  "start_stream_close future_ok thread_ok s st =
     (if \<not> future_ok then cleanup_active_stream thread_ok s st
      else case ps_heap st s of
             None \<Rightarrow> None
           | Some _ \<Rightarrow> Some (st\<lparr>ps_closes := s # ps_closes st, ps_closed := s # ps_closed st\<rparr>))"

definition start_stream_close_once :: "bool \<Rightarrow> bool \<Rightarrow> nat \<Rightarrow> 're pty_streams \<Rightarrow> 're pty_streams option" where
  "start_stream_close_once future_ok thread_ok s st =
     (case ps_heap st s of
        None \<Rightarrow> None
      | Some a \<Rightarrow>
          if pa_closeStarted a then Some st
          else start_stream_close future_ok thread_ok s
                 (st\<lparr>ps_heap := (ps_heap st)(s \<mapsto> a\<lparr>pa_closeStarted := True\<rparr>)\<rparr>))"

definition stream_closed :: "bool \<Rightarrow> nat \<Rightarrow> 're pty_streams \<Rightarrow> 're pty_streams option" where
  "stream_closed thread_ok s st =
     cleanup_active_stream thread_ok s (st\<lparr>ps_closes := remove1 s (ps_closes st)\<rparr>)"

section \<open>Accepting and setting up\<close>

definition fresh_stream :: "connection_ref \<Rightarrow> 're active_stream" where
  "fresh_stream ref = \<lparr>pa_streamRef = ref, pa_connectionRef = 0, pa_ptyFd = -1, pa_childPid = -1,
     pa_closing = False, pa_closeStarted = False, pa_detector = None, pa_recording = False, pa_sessionName = [],
     pa_sessionCols = 0, pa_sessionRows = 0, pa_setupThreadStarted = False, pa_ptyReaderThreadStarted = False,
     pa_streamReaderThreadStarted = False\<rparr>"

text \<open>\<open>stream_callback\<close> for a new stream of the connection \<open>ref\<close>.\<close>

definition pty_stream_callback :: "'re pty_env \<Rightarrow> connection_ref \<Rightarrow> 're pty_streams \<Rightarrow> 're pty_streams option" where
  "pty_stream_callback e ref st =
     (if \<not> pe_alloc e then Some st
      else
        let s = ps_next st;
            st = st\<lparr>ps_heap := (ps_heap st)(s \<mapsto> fresh_stream ref), ps_next := s + 1,
                    ps_activeStreams := s # ps_activeStreams st\<rparr>
        in if \<not> pe_future e then cleanup_active_stream (pe_thread e) s st
           else Some (st\<lparr>ps_accepting := s # ps_accepting st\<rparr>))"

definition pty_stream_accepted :: "'re pty_env \<Rightarrow> nat \<Rightarrow> 're pty_streams \<Rightarrow> 're pty_streams option" where
  "pty_stream_accepted e s st0 =
     (let st = st0\<lparr>ps_accepting := remove1 s (ps_accepting st0)\<rparr>
      in case ps_heap st s of
           None \<Rightarrow> None
         | Some a \<Rightarrow>
             if \<not> pe_accepted e then cleanup_active_stream (pe_thread e) s st
             else
               let ref = pa_streamRef a;
                   a = a\<lparr>pa_connectionRef := ref\<rparr>;
                   st = st\<lparr>ps_heap := (ps_heap st)(s \<mapsto> a)\<rparr>
               in if \<not> tmuxremote_iam_check_access_ref (pe_check e) ref ''Terminal:Connect''
                  then start_stream_close_once (pe_future e) (pe_thread e) s st
                  else case tmuxremote_session_get (ps_sessions st) ref of
                    None \<Rightarrow> start_stream_close_once (pe_future e) (pe_thread e) s st
                  | Some entry \<Rightarrow>
                      let a = a\<lparr>pa_sessionName := strncpy_term TMUXREMOTE_SESSION_NAME_MAX (se_sessionName entry),
                                pa_sessionCols := se_cols entry, pa_sessionRows := se_rows entry\<rparr>;
                          st = st\<lparr>ps_heap := (ps_heap st)(s \<mapsto> a)\<rparr>
                      in if \<not> pe_setup_thread e
                         then start_stream_close_once (pe_future e) (pe_thread e) s st
                         else Some (st\<lparr>ps_setup := (ps_setup st)(s \<mapsto> SetupStart), ps_sdk := Some s\<rparr>))"

text \<open>The last statement of \<open>stream_accepted\<close>.\<close>

definition accepted_note :: "nat \<Rightarrow> 're pty_streams \<Rightarrow> 're pty_streams option" where
  "accepted_note s st =
     (case ps_heap st s of
        None \<Rightarrow> None
      | Some a \<Rightarrow> Some (st\<lparr>ps_heap := (ps_heap st)(s \<mapsto> a\<lparr>pa_setupThreadStarted := True\<rparr>), ps_sdk := None\<rparr>))"

definition setup_detector :: "'re pty_env \<Rightarrow> 16 word \<Rightarrow> 16 word \<Rightarrow> 're prompt_detector" where
  "setup_detector e rows cols =
     (let d = tmuxremote_prompt_detector_init (pe_al e)
                (if rows > 0 then int (unat rows) else 48) (if cols > 0 then int (unat cols) else 160);
          d = (if pe_config e = None then d
               else tmuxremote_prompt_detector_load_config (pe_api e) (pe_al e) d (pe_config e))
      in tmuxremote_prompt_detector_set_callback d True)"

definition end_setup :: "nat \<Rightarrow> 're pty_streams \<Rightarrow> 're pty_streams" where
  "end_setup s st = st\<lparr>ps_setup := (ps_setup st)(s := None)\<rparr>"

text \<open>
  The steps of \<open>stream_setup_thread\<close>; the thread is gone when it returns.  Storing
  \<open>ptyReaderThreadStarted\<close> and creating the second thread are one step.
\<close>

definition stream_setup_thread :: "'re pty_env \<Rightarrow> nat \<Rightarrow> setup_pc \<Rightarrow> 're pty_streams \<Rightarrow> 're pty_streams option" where
  "stream_setup_thread e s pc st =
     (case ps_heap st s of
        None \<Rightarrow> None
      | Some a \<Rightarrow>
          (case pc of
             SetupStart \<Rightarrow>
               if pa_closing a then Some (end_setup s st)
               else Some (st\<lparr>ps_setup := (ps_setup st)(s \<mapsto> SetupFork)\<rparr>)
           | SetupFork \<Rightarrow>
               (case pe_fork e of
                  None \<Rightarrow> map_option (end_setup s) (start_stream_close_once (pe_future e) (pe_thread e) s st)
                | Some (fd, pid) \<Rightarrow>
                    Some (st\<lparr>ps_heap := (ps_heap st)(s \<mapsto> a\<lparr>pa_ptyFd := fd, pa_childPid := pid,
                               pa_detector := Some (setup_detector e (pa_sessionRows a) (pa_sessionCols a)),
                               pa_recording := pe_record e\<rparr>),
                             ps_children := insert pid (ps_children st),
                             ps_setup := (ps_setup st)(s \<mapsto> SetupPty)\<rparr>))
           | SetupPty \<Rightarrow>
               if pe_pty_thread e
               then Some (st\<lparr>ps_ptyReaders := insert s (ps_ptyReaders st),
                             ps_setup := (ps_setup st)(s \<mapsto> SetupPtyFlag)\<rparr>)
               else map_option (end_setup s)
                      (start_stream_close_once (pe_future e) (pe_thread e) s
                        (st\<lparr>ps_heap := (ps_heap st)(s \<mapsto> a\<lparr>pa_ptyFd := -1\<rparr>),
                            ps_signalled := insert (pa_childPid a) (ps_signalled st)\<rparr>))
           | SetupPtyFlag \<Rightarrow>
               let a = a\<lparr>pa_ptyReaderThreadStarted := True\<rparr>
               in if pe_stream_thread e
                  then Some (st\<lparr>ps_heap := (ps_heap st)(s \<mapsto> a),
                                ps_streamReaders := insert s (ps_streamReaders st),
                                ps_setup := (ps_setup st)(s \<mapsto> SetupStreamFlag)\<rparr>)
                  else map_option (end_setup s)
                         (start_stream_close_once (pe_future e) (pe_thread e) s
                           (st\<lparr>ps_heap := (ps_heap st)(s \<mapsto> a\<lparr>pa_closing := True, pa_ptyFd := -1\<rparr>)\<rparr>))
           | SetupStreamFlag \<Rightarrow>
               Some (end_setup s (st\<lparr>ps_heap := (ps_heap st)(s \<mapsto> a\<lparr>pa_streamReaderThreadStarted := True\<rparr>)\<rparr>))))"

text \<open>The ends of the two relay threads.\<close>

definition set_closing :: "nat \<Rightarrow> 're pty_streams \<Rightarrow> 're pty_streams option" where
  "set_closing s st =
     (case ps_heap st s of
        None \<Rightarrow> None | Some a \<Rightarrow> Some (st\<lparr>ps_heap := (ps_heap st)(s \<mapsto> a\<lparr>pa_closing := True\<rparr>)\<rparr>))"

definition pty_reader_end :: "'re pty_env \<Rightarrow> nat \<Rightarrow> 're pty_streams \<Rightarrow> 're pty_streams option" where
  "pty_reader_end e s st =
     map_option (\<lambda>st. st\<lparr>ps_ptyReaders := ps_ptyReaders st - {s}\<rparr>)
       (set_closing s st \<bind> start_stream_close_once (pe_future e) (pe_thread e) s)"

definition stream_reader_end :: "'re pty_env \<Rightarrow> nat \<Rightarrow> 're pty_streams \<Rightarrow> 're pty_streams option" where
  "stream_reader_end e s st =
     map_option (\<lambda>st. st\<lparr>ps_streamReaders := ps_streamReaders st - {s}\<rparr>)
       (set_closing s st \<bind> start_stream_close_once (pe_future e) (pe_thread e) s)"

section \<open>The cleanup thread and the shutdown\<close>

definition signal_child :: "'re active_stream \<Rightarrow> int set \<Rightarrow> int set" where
  "signal_child a sig = (if pa_childPid a > 0 then insert (pa_childPid a) sig else sig)"

text \<open>Each step ends with the next join; the inner \<^const>\<open>None\<close> is waiting for a thread.\<close>

definition cleanup_thread_func :: "nat \<Rightarrow> cleanup_pc \<Rightarrow> 're pty_streams \<Rightarrow> 're pty_streams option option" where
  "cleanup_thread_func s pc st =
     (case ps_heap st s of
        None \<Rightarrow> None
      | Some a \<Rightarrow>
          (case pc of
             CleanSetup \<Rightarrow>
               if pa_setupThreadStarted a \<and> ps_setup st s \<noteq> None then Some None
               else Some (Some (st\<lparr>ps_heap := (ps_heap st)(s \<mapsto> a\<lparr>pa_setupThreadStarted := False, pa_ptyFd := -1\<rparr>),
                                   ps_signalled := signal_child a (ps_signalled st),
                                   ps_cleanup := (ps_cleanup st)(s \<mapsto> CleanPty)\<rparr>))
           | CleanPty \<Rightarrow>
               if pa_ptyReaderThreadStarted a \<and> s \<in> ps_ptyReaders st then Some None
               else Some (Some (st\<lparr>ps_heap := (ps_heap st)(s \<mapsto> a\<lparr>pa_ptyReaderThreadStarted := False\<rparr>),
                                   ps_cleanup := (ps_cleanup st)(s \<mapsto> CleanStream)\<rparr>))
           | CleanStream \<Rightarrow>
               if pa_streamReaderThreadStarted a \<and> s \<in> ps_streamReaders st then Some None
               else Some (Some (st\<lparr>ps_heap := (ps_heap st)(s := None),
                                   ps_children := ps_children st - {pa_childPid a},
                                   ps_cleanup := (ps_cleanup st)(s := None)\<rparr>))))"

fun close_listed :: "nat list \<Rightarrow> 're pty_streams \<Rightarrow> 're pty_streams option" where
  "close_listed [] st = Some st"
| "close_listed (s # ss) st =
     (case ps_heap st s of
        None \<Rightarrow> None
      | Some a \<Rightarrow>
          close_listed ss (st\<lparr>ps_heap := (ps_heap st)(s \<mapsto> a\<lparr>pa_closing := True\<rparr>),
                              ps_signalled := signal_child a (ps_signalled st)\<rparr>))"

definition tmuxremote_stream_listener_stop :: "'re pty_streams \<Rightarrow> 're pty_streams option" where
  "tmuxremote_stream_listener_stop st = close_listed (ps_activeStreams st) st"

text \<open>\<open>tmuxremote_stream_listener_deinit\<close>: taking the list, closing a stream, joining and freeing it.\<close>

definition deinit_take :: "'re pty_streams \<Rightarrow> 're pty_streams" where
  "deinit_take st = st\<lparr>ps_deinit := Some (False, ps_activeStreams st), ps_activeStreams := []\<rparr>"

definition deinit_close :: "nat \<Rightarrow> nat list \<Rightarrow> 're pty_streams \<Rightarrow> 're pty_streams option" where
  "deinit_close s ss st =
     (case ps_heap st s of
        None \<Rightarrow> None
      | Some a \<Rightarrow>
          Some (st\<lparr>ps_heap := (ps_heap st)(s \<mapsto> a\<lparr>pa_closing := True, pa_ptyFd := -1\<rparr>),
                   ps_signalled := signal_child a (ps_signalled st), ps_deinit := Some (True, s # ss)\<rparr>))"

definition joined :: "nat \<Rightarrow> 're active_stream \<Rightarrow> 're pty_streams \<Rightarrow> bool" where
  "joined s a st \<longleftrightarrow> \<not> (pa_setupThreadStarted a \<and> ps_setup st s \<noteq> None) \<and>
     \<not> (pa_ptyReaderThreadStarted a \<and> s \<in> ps_ptyReaders st) \<and>
     \<not> (pa_streamReaderThreadStarted a \<and> s \<in> ps_streamReaders st)"

definition deinit_free :: "nat \<Rightarrow> nat list \<Rightarrow> 're pty_streams \<Rightarrow> 're pty_streams option option" where
  "deinit_free s ss st =
     (case ps_heap st s of
        None \<Rightarrow> None
      | Some a \<Rightarrow>
          if \<not> joined s a st then Some None
          else Some (Some (st\<lparr>ps_heap := (ps_heap st)(s := None), ps_children := ps_children st - {pa_childPid a},
                              ps_deinit := Some (False, ss)\<rparr>)))"

text \<open>A turn of the PTY reader, as far as the stream is concerned.\<close>

definition pty_reader_feed :: "'re pcre2 \<Rightarrow> alloc \<Rightarrow> char list \<Rightarrow> nat \<Rightarrow> 're pty_streams \<Rightarrow> 're pty_streams option" where
  "pty_reader_feed api al data s st =
     (case ps_heap st s of
        None \<Rightarrow> None
      | Some a \<Rightarrow>
          (case pa_detector a of
             None \<Rightarrow> Some st
           | Some d \<Rightarrow>
               map_option (\<lambda>(d', es). st\<lparr>ps_heap := (ps_heap st)(s \<mapsto> a\<lparr>pa_detector := Some d'\<rparr>)\<rparr>)
                 (tmuxremote_prompt_detector_feed api al d data)))"

section \<open>Interleavings\<close>

text \<open>
  The threads of the agent.  With \<open>reliable\<close> the SDK always has a future for a close; a process
  id is not used again before its process was waited for; \<open>sessions\<close> stands for the requests that
  change the session map.
\<close>

inductive pstep :: "bool \<Rightarrow> 're pty_streams \<Rightarrow> 're pty_streams \<Rightarrow> bool" for reliable where
  new: "ps_sdk st = None \<Longrightarrow> \<not> ps_stopped st \<Longrightarrow> pty_stream_callback e ref st = Some st' \<Longrightarrow> pstep reliable st st'"
| accepted: "s \<in> set (ps_accepting st) \<Longrightarrow> ps_sdk st = None \<Longrightarrow> \<not> ps_stopped st \<Longrightarrow> (reliable \<longrightarrow> pe_future e) \<Longrightarrow>
    pty_stream_accepted e s st = Some st' \<Longrightarrow> pstep reliable st st'"
| noted: "ps_sdk st = Some s \<Longrightarrow> accepted_note s st = Some st' \<Longrightarrow> pstep reliable st st'"
| setting_up: "ps_setup st s = Some pc \<Longrightarrow> (reliable \<longrightarrow> pe_future e) \<Longrightarrow>
    (\<forall>fd pid. pe_fork e = Some (fd, pid) \<longrightarrow> 0 \<le> fd \<and> 0 < pid \<and> pid \<notin> ps_children st) \<Longrightarrow>
    stream_setup_thread e s pc st = Some st' \<Longrightarrow> pstep reliable st st'"
| feed: "s \<in> ps_ptyReaders st \<Longrightarrow> pty_reader_feed api al data s st = Some st' \<Longrightarrow> pstep reliable st st'"
| pty_end: "s \<in> ps_ptyReaders st \<Longrightarrow> (reliable \<longrightarrow> pe_future e) \<Longrightarrow> pty_reader_end e s st = Some st' \<Longrightarrow>
    pstep reliable st st'"
| stream_end: "s \<in> ps_streamReaders st \<Longrightarrow> (reliable \<longrightarrow> pe_future e) \<Longrightarrow> stream_reader_end e s st = Some st' \<Longrightarrow>
    pstep reliable st st'"
| closed: "s \<in> set (ps_closes st) \<Longrightarrow> ps_sdk st = None \<Longrightarrow> \<not> ps_stopped st \<Longrightarrow>
    stream_closed thread_ok s st = Some st' \<Longrightarrow> pstep reliable st st'"
| cleanup: "ps_cleanup st s = Some pc \<Longrightarrow> cleanup_thread_func s pc st = Some (Some st') \<Longrightarrow> pstep reliable st st'"
| resolve: "tmuxremote_stream_resolve_prompt_for_ref ctl st ref i = Some (st', calls) \<Longrightarrow> pstep reliable st st'"
| resize: "tmuxremote_stream_resize_prompt_detector_for_ref al st ref cols rows = Some st' \<Longrightarrow> pstep reliable st st'"
| sessions: "pstep reliable st (st\<lparr>ps_sessions := m\<rparr>)"
| stop: "tmuxremote_stream_listener_stop st = Some st' \<Longrightarrow> pstep reliable st st'"
| device_stop: "ps_accepting st = [] \<Longrightarrow> ps_closes st = [] \<Longrightarrow> ps_sdk st = None \<Longrightarrow>
    pstep reliable st (st\<lparr>ps_stopped := True\<rparr>)"
| deinit_take: "ps_stopped st \<Longrightarrow> ps_deinit st = None \<Longrightarrow> pstep reliable st (deinit_take st)"
| deinit_close: "ps_deinit st = Some (False, s # ss) \<Longrightarrow> deinit_close s ss st = Some st' \<Longrightarrow> pstep reliable st st'"
| deinit_free: "ps_deinit st = Some (True, s # ss) \<Longrightarrow> deinit_free s ss st = Some (Some st') \<Longrightarrow> pstep reliable st st'"

inductive preachable :: "bool \<Rightarrow> session_map \<Rightarrow> 're pty_streams \<Rightarrow> bool" for reliable m where
  init: "preachable reliable m (tmuxremote_stream_listener_init m)"
| step: "preachable reliable m st \<Longrightarrow> pstep reliable st st' \<Longrightarrow> preachable reliable m st'"

section \<open>Invariant\<close>

text \<open>The streams the shutdown has taken.\<close>

definition taken_of :: "(bool \<times> nat list) option \<Rightarrow> nat list" where
  "taken_of d = (case d of None \<Rightarrow> [] | Some (_, ss) \<Rightarrow> ss)"

definition taken :: "'re pty_streams \<Rightarrow> nat list" where
  "taken st = taken_of (ps_deinit st)"

definition idle :: "'re pty_streams \<Rightarrow> nat \<Rightarrow> bool" where
  "idle st s \<longleftrightarrow> ps_setup st s = None \<and> s \<notin> ps_ptyReaders st \<and> s \<notin> ps_streamReaders st"

definition gone :: "'re pty_streams \<Rightarrow> nat \<Rightarrow> bool" where
  "gone st s \<longleftrightarrow> s \<notin> set (ps_activeStreams st) \<and> s \<notin> set (taken st) \<and> s \<notin> set (ps_accepting st) \<and>
     (ps_stopped st \<or> s \<notin> set (ps_closes st)) \<and> ps_sdk st \<noteq> Some s \<and> idle st s \<and> ps_cleanup st s = None"

definition stream_ok :: "'re pty_streams \<Rightarrow> nat \<Rightarrow> 're active_stream \<Rightarrow> bool" where
  "stream_ok st s a \<longleftrightarrow>
     (s \<in> set (ps_accepting st) \<longrightarrow> \<not> pa_closeStarted a \<and> idle st s \<and> pa_childPid a \<le> 0 \<and> ps_sdk st \<noteq> Some s) \<and>
     (ps_setup st s = Some SetupStart \<or> ps_setup st s = Some SetupFork \<longrightarrow> pa_childPid a \<le> 0) \<and>
     (ps_setup st s \<noteq> None \<longrightarrow> pa_setupThreadStarted a \<or> ps_sdk st = Some s) \<and>
     (s \<in> ps_ptyReaders st \<longrightarrow> pa_ptyReaderThreadStarted a \<or> ps_setup st s = Some SetupPtyFlag) \<and>
     (s \<in> ps_streamReaders st \<longrightarrow> pa_streamReaderThreadStarted a \<or> ps_setup st s = Some SetupStreamFlag) \<and>
     (s \<in> set (ps_closes st) \<longrightarrow> pa_closeStarted a \<and> s \<notin> set (ps_accepting st)) \<and>
     (s \<in> set (ps_closed st) \<longrightarrow> pa_closeStarted a) \<and>
     (ps_cleanup st s \<noteq> None \<longrightarrow> (pa_closeStarted a \<or> idle st s) \<and> s \<notin> set (ps_activeStreams st) \<and>
        s \<notin> set (taken st) \<and> s \<notin> set (ps_accepting st) \<and> s \<notin> set (ps_closes st) \<and> ps_sdk st \<noteq> Some s) \<and>
     (ps_cleanup st s = Some CleanPty \<longrightarrow> ps_setup st s = None) \<and>
     (ps_cleanup st s = Some CleanStream \<longrightarrow> ps_setup st s = None \<and> s \<notin> ps_ptyReaders st)"

definition at_ok :: "'re pty_streams \<Rightarrow> nat \<Rightarrow> bool" where
  "at_ok st s = (case ps_heap st s of
     None \<Rightarrow> gone st s | Some a \<Rightarrow> s < ps_next st \<and> stream_ok st s a)"

definition lists_ok :: "'re pty_streams \<Rightarrow> bool" where
  "lists_ok st \<longleftrightarrow> distinct (ps_activeStreams st) \<and> distinct (taken st) \<and>
     set (ps_activeStreams st) \<inter> set (taken st) = {} \<and>
     distinct (ps_accepting st) \<and> distinct (ps_closes st) \<and> distinct (ps_closed st) \<and>
     (\<forall>s \<in> set (ps_closed st). s < ps_next st) \<and>
     (ps_stopped st \<longrightarrow> ps_accepting st = [] \<and> ps_sdk st = None) \<and> (ps_deinit st \<noteq> None \<longrightarrow> ps_stopped st)"

text \<open>The processes that were not waited for are those of the allocated streams, one each.\<close>

definition pids :: "(nat \<rightharpoonup> 're active_stream) \<Rightarrow> nat \<rightharpoonup> int" where
  "pids h s = map_option pa_childPid (h s)"

definition children_ok :: "(nat \<rightharpoonup> int) \<Rightarrow> int set \<Rightarrow> bool" where
  "children_ok pid children \<longleftrightarrow>
     (\<forall>p. p \<in> children \<longleftrightarrow> 0 < p \<and> (\<exists>s. pid s = Some p)) \<and>
     (\<forall>s s' p. pid s = Some p \<longrightarrow> pid s' = Some p \<longrightarrow> 0 < p \<longrightarrow> s = s')"

definition wf_streams :: "'re pty_streams \<Rightarrow> bool" where
  "wf_streams st \<longleftrightarrow> (\<forall>s. at_ok st s) \<and> lists_ok st \<and> children_ok (pids (ps_heap st)) (ps_children st)"

text \<open>A step that does not concern a stream.\<close>

definition same_at :: "'re pty_streams \<Rightarrow> 're pty_streams \<Rightarrow> nat \<Rightarrow> bool" where
  "same_at st st' x \<longleftrightarrow> ps_heap st' x = ps_heap st x \<and> ps_next st \<le> ps_next st' \<and>
     (x \<in> set (ps_activeStreams st') \<longleftrightarrow> x \<in> set (ps_activeStreams st)) \<and>
     (x \<in> set (taken st') \<longleftrightarrow> x \<in> set (taken st)) \<and>
     (x \<in> set (ps_accepting st') \<longleftrightarrow> x \<in> set (ps_accepting st)) \<and>
     (x \<in> set (ps_closes st') \<longleftrightarrow> x \<in> set (ps_closes st)) \<and>
     (x \<in> set (ps_closed st') \<longleftrightarrow> x \<in> set (ps_closed st)) \<and>
     (ps_sdk st' = Some x \<longleftrightarrow> ps_sdk st = Some x) \<and> ps_setup st' x = ps_setup st x \<and>
     (x \<in> ps_ptyReaders st' \<longleftrightarrow> x \<in> ps_ptyReaders st) \<and> (x \<in> ps_streamReaders st' \<longleftrightarrow> x \<in> ps_streamReaders st) \<and>
     ps_cleanup st' x = ps_cleanup st x \<and> ps_stopped st' = ps_stopped st"

lemma same_at_ok: "same_at st st' x \<Longrightarrow> at_ok st x \<Longrightarrow> at_ok st' x"
  by (auto simp: same_at_def at_ok_def gone_def idle_def stream_ok_def split: option.splits)

lemma wf_one:
  assumes "wf_streams st" and "\<And>x. x \<noteq> s \<Longrightarrow> same_at st st' x" and "at_ok st' s" and "lists_ok st'"
    and "children_ok (pids (ps_heap st')) (ps_children st')"
  shows "wf_streams st'"
proof -
  have "at_ok st' x" for x
    using assms(1-3) same_at_ok [of st st' x] by (cases "x = s") (auto simp: wf_streams_def)
  with assms(4,5) show ?thesis by (simp add: wf_streams_def)
qed

lemma wf_at: "wf_streams st \<Longrightarrow> ps_heap st s = Some a \<Longrightarrow> s < ps_next st \<and> stream_ok st s a"
  unfolding wf_streams_def at_ok_def by (metis option.simps(5))

lemma wf_gone: "wf_streams st \<Longrightarrow> ps_heap st s = None \<Longrightarrow> gone st s"
  unfolding wf_streams_def at_ok_def by (metis option.simps(4))

lemma wf_lists: "wf_streams st \<Longrightarrow> lists_ok st" and wf_children: "wf_streams st \<Longrightarrow> children_ok (pids (ps_heap st)) (ps_children st)"
  by (simp_all add: wf_streams_def)

text \<open>Every stream that a list, a thread or a callback refers to is allocated.\<close>

lemma wf_allocated:
  assumes "wf_streams st" and "s \<in> set (ps_activeStreams st) \<or> s \<in> set (taken st) \<or> s \<in> set (ps_accepting st) \<or>
    (\<not> ps_stopped st \<and> s \<in> set (ps_closes st)) \<or> ps_sdk st = Some s \<or> \<not> idle st s \<or> ps_cleanup st s \<noteq> None"
  obtains a where "ps_heap st s = Some a" "s < ps_next st" "stream_ok st s a"
  using wf_gone [OF assms(1), of s] wf_at [OF assms(1), of s] assms(2) by (cases "ps_heap st s") (auto simp: gone_def)

text \<open>Updates that matter for no list and no thread.\<close>

lemma wf_same:
  assumes "wf_streams st" and "\<And>x. same_at st st' x" and "lists_ok st'" and "ps_children st' = ps_children st"
  shows "wf_streams st'"
proof (rule wf_one [OF assms(1), where s = 0])
  have "pids (ps_heap st') = pids (ps_heap st)" using assms(2) by (simp add: pids_def fun_eq_iff same_at_def)
  then show "children_ok (pids (ps_heap st')) (ps_children st')" using wf_children [OF assms(1)] assms(4) by simp
  show "at_ok st' 0" using same_at_ok [OF assms(2)] assms(1) by (simp add: wf_streams_def)
qed (use assms in auto)

lemma wf_sessions: "wf_streams st \<Longrightarrow> wf_streams (st\<lparr>ps_sessions := m\<rparr>)"
  and wf_signalled: "wf_streams st \<Longrightarrow> wf_streams (st\<lparr>ps_signalled := sig\<rparr>)"
  using wf_lists [of st] by (auto intro!: wf_same [of st] simp: same_at_def taken_def lists_ok_def)

definition same_flags :: "'re active_stream \<Rightarrow> 're active_stream \<Rightarrow> bool" where
  "same_flags a b \<longleftrightarrow> pa_childPid b = pa_childPid a \<and> pa_closeStarted b = pa_closeStarted a \<and>
     pa_setupThreadStarted b = pa_setupThreadStarted a \<and> pa_ptyReaderThreadStarted b = pa_ptyReaderThreadStarted a \<and>
     pa_streamReaderThreadStarted b = pa_streamReaderThreadStarted a"

lemma pids_same: "h s = Some a \<Longrightarrow> pa_childPid b = pa_childPid a \<Longrightarrow> pids (h(s \<mapsto> b)) = pids h"
  by (auto simp: pids_def fun_eq_iff)

lemma wf_store:
  assumes wf: "wf_streams st" and a: "ps_heap st s = Some a" and b: "pa_childPid b = pa_childPid a"
    and ok: "stream_ok st s b"
  shows "wf_streams (st\<lparr>ps_heap := (ps_heap st)(s \<mapsto> b)\<rparr>)"
proof (rule wf_one [OF wf, where s = s])
  show "lists_ok (st\<lparr>ps_heap := (ps_heap st)(s \<mapsto> b)\<rparr>)"
    using wf_lists [OF wf] by (simp add: lists_ok_def taken_def)
  show "children_ok (pids (ps_heap (st\<lparr>ps_heap := (ps_heap st)(s \<mapsto> b)\<rparr>)))
      (ps_children (st\<lparr>ps_heap := (ps_heap st)(s \<mapsto> b)\<rparr>))"
    using wf_children [OF wf] pids_same [of "ps_heap st", OF a b] by simp
  show "at_ok (st\<lparr>ps_heap := (ps_heap st)(s \<mapsto> b)\<rparr>) s"
    using ok wf_at [OF wf a] by (simp add: at_ok_def stream_ok_def idle_def taken_def)
qed (simp add: same_at_def taken_def)

lemma wf_store_flags:
  assumes "wf_streams st" and "ps_heap st s = Some a" and "same_flags a b"
  shows "wf_streams (st\<lparr>ps_heap := (ps_heap st)(s \<mapsto> b)\<rparr>)"
proof (rule wf_store [OF assms(1,2)])
  show "stream_ok st s b" using wf_at [OF assms(1,2)] assms(3) by (simp add: stream_ok_def same_flags_def)
qed (use assms(3) in \<open>simp add: same_flags_def\<close>)

text \<open>The frame of a step on one stream: its threads stay.\<close>

definition keeps_threads :: "'re pty_streams \<Rightarrow> 're pty_streams \<Rightarrow> nat \<Rightarrow> bool" where
  "keeps_threads st st' s \<longleftrightarrow> ps_setup st' = ps_setup st \<and> ps_ptyReaders st' = ps_ptyReaders st \<and>
     ps_streamReaders st' = ps_streamReaders st \<and> ps_children st' = ps_children st \<and>
     (\<exists>a b. ps_heap st s = Some a \<and> ps_heap st' s = Some b \<and> same_flags (a\<lparr>pa_closeStarted := pa_closeStarted b\<rparr>) b)"

lemma close_once_wf:
  assumes wf: "wf_streams st" and a: "ps_heap st s = Some a" and acc: "s \<notin> set (ps_accepting st)"
    and live: "ps_cleanup st s = None \<or> \<not> idle st s"
    and close: "start_stream_close_once True t s st = Some st'"
  shows "wf_streams st' \<and> keeps_threads st st' s"
proof (cases "pa_closeStarted a")
  case True
  with a close have "st' = st" by (simp add: start_stream_close_once_def)
  with wf a True show ?thesis by (simp add: keeps_threads_def same_flags_def)
next
  case False
  let ?b = "a\<lparr>pa_closeStarted := True\<rparr>"
  have st': "st' = st\<lparr>ps_heap := (ps_heap st)(s \<mapsto> ?b), ps_closes := s # ps_closes st, ps_closed := s # ps_closed st\<rparr>"
    using a close False by (simp add: start_stream_close_once_def start_stream_close_def)
  note ok = wf_at [OF wf a]
  have clean: "ps_cleanup st s = None" using ok live False by (auto simp: stream_ok_def)
  have new: "s \<notin> set (ps_closes st)" "s \<notin> set (ps_closed st)" using ok False by (auto simp: stream_ok_def)
  have "wf_streams st'"
  proof (rule wf_one [OF wf, where s = s])
    show "lists_ok st'" using wf_lists [OF wf] new ok by (auto simp: st' lists_ok_def taken_def)
    show "children_ok (pids (ps_heap st')) (ps_children st')"
      using wf_children [OF wf] pids_same [of "ps_heap st", OF a, of ?b] by (simp add: st')
    show "at_ok st' s" using ok clean acc by (simp add: st' at_ok_def stream_ok_def idle_def taken_def)
  qed (simp add: st' same_at_def taken_def)
  with a show ?thesis by (simp add: st' keeps_threads_def same_flags_def)
qed

lemma wf_end_setup:
  assumes wf: "wf_streams st" and a: "ps_heap st s = Some a"
    and flags: "ps_setup st s = Some SetupPtyFlag \<longrightarrow> pa_ptyReaderThreadStarted a"
      "ps_setup st s = Some SetupStreamFlag \<longrightarrow> pa_streamReaderThreadStarted a"
  shows "wf_streams (end_setup s st)"
proof (rule wf_one [OF wf, where s = s])
  show "lists_ok (end_setup s st)" using wf_lists [OF wf] by (simp add: end_setup_def lists_ok_def taken_def)
  show "children_ok (pids (ps_heap (end_setup s st))) (ps_children (end_setup s st))"
    using wf_children [OF wf] by (simp add: end_setup_def)
  show "at_ok (end_setup s st) s"
    using wf_at [OF wf a] a flags by (auto simp: end_setup_def at_ok_def stream_ok_def idle_def taken_def)
qed (simp add: end_setup_def same_at_def taken_def)

lemma cleanup_wf:
  assumes wf: "wf_streams st" and a: "ps_heap st s = Some a"
    and out: "s \<notin> set (ps_accepting st)" "s \<notin> set (ps_closes st)" "s \<notin> set (taken st)" "ps_sdk st \<noteq> Some s"
    and live: "pa_closeStarted a \<or> idle st s"
    and clean: "cleanup_active_stream t s st = Some st'"
  shows "wf_streams st'"
proof -
  let ?b = "a\<lparr>pa_closing := True\<rparr>"
  let ?st = "st\<lparr>ps_heap := (ps_heap st)(s \<mapsto> ?b), ps_activeStreams := remove1 s (ps_activeStreams st)\<rparr>"
  note ok = wf_at [OF wf a] and lists = wf_lists [OF wf]
  have act: "s \<notin> set (remove1 s (ps_activeStreams st))" using lists by (simp add: lists_ok_def)
  have kids: "children_ok (pids (ps_heap ?st)) (ps_children ?st)"
    using wf_children [OF wf] pids_same [of "ps_heap st", OF a, of ?b] by simp
  have removed: "wf_streams ?st"
  proof (rule wf_one [OF wf, where s = s])
    show "lists_ok ?st" using lists by (auto simp: lists_ok_def taken_def dest: notin_set_remove1)
    show "at_ok ?st s" using ok act by (simp add: at_ok_def stream_ok_def idle_def taken_def)
  qed (use kids in \<open>simp_all add: same_at_def taken_def\<close>)
  have started: "wf_streams (?st\<lparr>ps_cleanup := (ps_cleanup st)(s \<mapsto> CleanSetup)\<rparr>)"
  proof (rule wf_one [OF removed, where s = s])
    show "at_ok (?st\<lparr>ps_cleanup := (ps_cleanup st)(s \<mapsto> CleanSetup)\<rparr>) s"
      using ok act out live by (simp add: at_ok_def stream_ok_def idle_def taken_def)
    show "lists_ok (?st\<lparr>ps_cleanup := (ps_cleanup st)(s \<mapsto> CleanSetup)\<rparr>)"
      using wf_lists [OF removed] by (simp add: lists_ok_def taken_def)
    show "children_ok (pids (ps_heap (?st\<lparr>ps_cleanup := (ps_cleanup st)(s \<mapsto> CleanSetup)\<rparr>)))
        (ps_children (?st\<lparr>ps_cleanup := (ps_cleanup st)(s \<mapsto> CleanSetup)\<rparr>))"
      using kids by simp
  qed (simp add: same_at_def taken_def)
  show ?thesis
  proof (cases t)
    case True
    have "lists_ok st'" using wf_lists [OF started] a clean True
      by (auto simp: cleanup_active_stream_def Let_def lists_ok_def taken_def)
    with True show ?thesis
      using a clean by (intro wf_same [OF started]) (auto simp: cleanup_active_stream_def Let_def same_at_def taken_def)
  next
    case False
    have "lists_ok st'" using wf_lists [OF removed] a clean False
      by (auto simp: cleanup_active_stream_def Let_def lists_ok_def taken_def split: if_splits)
    with False show ?thesis
      using a clean
      by (intro wf_same [OF removed])
         (auto simp: cleanup_active_stream_def Let_def same_at_def taken_def split: if_splits)
  qed
qed

lemma ex_upd: "(\<exists>y. (f(s := v)) y = w) \<longleftrightarrow> v = w \<or> (\<exists>y. y \<noteq> s \<and> f y = w)"
  by (metis fun_upd_apply)

lemma children_okI:
  assumes "\<And>p. p \<in> kids \<longleftrightarrow> 0 < p \<and> (\<exists>s. pid s = Some p)"
    and "\<And>x y p. pid x = Some p \<Longrightarrow> pid y = Some p \<Longrightarrow> 0 < p \<Longrightarrow> x = y"
  shows "children_ok pid kids"
  unfolding children_ok_def using assms by blast

lemma children_okD:
  assumes "children_ok pid kids"
  shows "p \<in> kids \<longleftrightarrow> 0 < p \<and> (\<exists>s. pid s = Some p)"
    and "pid x = Some p \<Longrightarrow> pid y = Some p \<Longrightarrow> 0 < p \<Longrightarrow> x = y"
  using assms unfolding children_ok_def by blast+

lemma children_ok_none:
  assumes ok: "children_ok pid kids" and s: "pid s = None" "p \<le> 0"
  shows "children_ok (pid(s \<mapsto> p)) kids"
proof (rule children_okI)
  fix q
  have "(\<exists>y. y \<noteq> s \<and> pid y = Some q) \<longleftrightarrow> (\<exists>y. pid y = Some q)" using s by (metis option.distinct(1))
  then show "q \<in> kids \<longleftrightarrow> 0 < q \<and> (\<exists>x. (pid(s \<mapsto> p)) x = Some q)"
    unfolding ex_upd using children_okD(1) [OF ok] s by auto
next
  fix x y q assume "(pid(s \<mapsto> p)) x = Some q" "(pid(s \<mapsto> p)) y = Some q" "0 < q"
  then show "x = y" using s children_okD(2) [OF ok] by (auto split: if_splits)
qed

lemma children_ok_fork:
  assumes ok: "children_ok pid kids" and s: "pid s = Some q" "q \<le> 0" and p: "0 < p" "p \<notin> kids"
  shows "children_ok (pid(s \<mapsto> p)) (insert p kids)"
proof (rule children_okI)
  fix r
  have "(\<exists>y. y \<noteq> s \<and> pid y = Some r) \<longleftrightarrow> (\<exists>y. pid y = Some r)" if "0 < r"
    using s that by (metis not_less option.inject)
  then show "r \<in> insert p kids \<longleftrightarrow> 0 < r \<and> (\<exists>x. (pid(s \<mapsto> p)) x = Some r)"
    unfolding ex_upd using children_okD(1) [OF ok, of r] p by auto
next
  have free: "pid x \<noteq> Some p" for x using children_okD(1) [OF ok, of p] p by auto
  fix x y r assume "(pid(s \<mapsto> p)) x = Some r" "(pid(s \<mapsto> p)) y = Some r" "0 < r"
  then show "x = y" using children_okD(2) [OF ok] free by (auto split: if_splits)
qed

lemma children_ok_wait:
  assumes ok: "children_ok pid kids" and s: "pid s = Some p"
  shows "children_ok (pid(s := None)) (kids - {p})"
proof (rule children_okI)
  fix r
  have "(\<exists>y. y \<noteq> s \<and> pid y = Some r) \<longleftrightarrow> r \<noteq> p \<and> (\<exists>y. pid y = Some r)" if "0 < r"
    using s that children_okD(2) [OF ok] by (metis option.inject)
  then show "r \<in> kids - {p} \<longleftrightarrow> 0 < r \<and> (\<exists>x. (pid(s := None)) x = Some r)"
    unfolding ex_upd using children_okD(1) [OF ok, of r] by auto
next
  fix x y r assume "(pid(s := None)) x = Some r" "(pid(s := None)) y = Some r" "0 < r"
  then show "x = y" using children_okD(2) [OF ok] by (auto split: if_splits)
qed

lemma pids_upd: "pids (h(s \<mapsto> a)) = (pids h)(s \<mapsto> pa_childPid a)" "pids (h(s := None)) = (pids h)(s := None)"
  by (auto simp: pids_def fun_eq_iff)

text \<open>The callbacks.\<close>

lemma new_stream_ok:
  assumes wf: "wf_streams st" and run: "\<not> ps_stopped st" and s: "s = ps_next st"
  shows "wf_streams (st\<lparr>ps_heap := (ps_heap st)(s \<mapsto> fresh_stream ref), ps_next := s + 1,
    ps_activeStreams := s # ps_activeStreams st\<rparr>)" (is "wf_streams ?st")
proof (rule wf_one [OF wf, where s = s])
  have none: "ps_heap st s = None" using wf_at [OF wf, of s] s by (cases "ps_heap st s") auto
  then have gone: "gone st s" by (rule wf_gone [OF wf])
  have closed: "s \<notin> set (ps_closed st)" using wf_lists [OF wf] s by (auto simp: lists_ok_def)
  show "at_ok ?st s" using gone run closed
    by (simp add: at_ok_def stream_ok_def gone_def idle_def taken_def fresh_stream_def s)
  show "lists_ok ?st" using wf_lists [OF wf] gone by (auto simp: lists_ok_def taken_def gone_def s)
  show "children_ok (pids (ps_heap ?st)) (ps_children ?st)"
    using children_ok_none [OF wf_children [OF wf], of s "-1"] none by (simp add: pids_upd pids_def fresh_stream_def)
qed (auto simp: same_at_def taken_def s)

lemma not_stopped_taken: "wf_streams st \<Longrightarrow> \<not> ps_stopped st \<Longrightarrow> taken st = []"
  using wf_lists [of st] by (cases "ps_deinit st") (auto simp: lists_ok_def taken_def taken_of_def)

lemma pty_callback_wf:
  assumes wf: "wf_streams st" and run: "\<not> ps_stopped st" "ps_sdk st = None" and cb: "pty_stream_callback e ref st = Some st'"
  shows "wf_streams st'"
proof (cases "pe_alloc e")
  case False
  with wf cb show ?thesis by (simp add: pty_stream_callback_def)
next
  case True
  let ?s = "ps_next st"
  let ?st = "st\<lparr>ps_heap := (ps_heap st)(?s \<mapsto> fresh_stream ref), ps_next := ?s + 1,
    ps_activeStreams := ?s # ps_activeStreams st\<rparr>"
  note new = new_stream_ok [OF wf run(1) refl, of ref]
  have none: "ps_heap st ?s = None" using wf_at [OF wf, of ?s] by (cases "ps_heap st ?s") auto
  note gone = wf_gone [OF wf none]
  show ?thesis
  proof (cases "pe_future e")
    case False
    with True cb have "cleanup_active_stream (pe_thread e) ?s ?st = Some st'"
      by (simp add: pty_stream_callback_def Let_def)
    then show ?thesis
      using gone run by (intro cleanup_wf [OF new, of ?s "fresh_stream ref"]) (auto simp: gone_def idle_def taken_def)
  next
    case fut: True
    with True cb have st': "st' = ?st\<lparr>ps_accepting := ?s # ps_accepting st\<rparr>"
      by (auto simp: pty_stream_callback_def Let_def)
    show ?thesis
    proof (rule wf_one [OF new, where s = ?s])
      show "at_ok st' ?s" using gone run wf_at [OF new, of ?s]
        by (auto simp: st' at_ok_def stream_ok_def gone_def idle_def taken_def fresh_stream_def)
      show "lists_ok st'" using wf_lists [OF new] gone run by (simp add: st' lists_ok_def taken_def gone_def)
      show "children_ok (pids (ps_heap st')) (ps_children st')" using wf_children [OF new] by (simp add: st')
    qed (simp add: st' same_at_def taken_def)
  qed
qed

lemma drop_accepting_wf:
  assumes wf: "wf_streams st" and s: "s \<in> set (ps_accepting st)" and a: "ps_heap st s = Some a"
  shows "wf_streams (st\<lparr>ps_accepting := remove1 s (ps_accepting st)\<rparr>)" (is "wf_streams ?st")
proof (rule wf_one [OF wf, where s = s])
  show "at_ok ?st s" using wf_at [OF wf a] wf_lists [OF wf] a
    by (simp add: at_ok_def stream_ok_def idle_def taken_def lists_ok_def)
  show "lists_ok ?st" using wf_lists [OF wf] by (auto simp: lists_ok_def taken_def)
qed (use wf_children [OF wf] in \<open>simp_all add: same_at_def taken_def\<close>)

lemma pty_accepted_wf:
  assumes wf: "wf_streams st" and s: "s \<in> set (ps_accepting st)" and run: "\<not> ps_stopped st" "ps_sdk st = None"
    and fut: "pe_future e" and acc: "pty_stream_accepted e s st = Some st'"
  shows "wf_streams st'"
proof -
  from wf_allocated [OF wf, of s] s obtain a where a: "ps_heap st s = Some a" "stream_ok st s a" by blast
  let ?st = "st\<lparr>ps_accepting := remove1 s (ps_accepting st)\<rparr>"
  have wf1: "wf_streams ?st" by (rule drop_accepting_wf [OF wf s a(1)])
  have out: "s \<notin> set (ps_accepting ?st)" using wf_lists [OF wf] by (simp add: lists_ok_def)
  have facts: "\<not> pa_closeStarted a" "idle st s" "pa_childPid a \<le> 0" "s \<notin> set (ps_closes st)" "ps_cleanup st s = None"
    using a(2) s by (auto simp: stream_ok_def)
  have store: "wf_streams (?st\<lparr>ps_heap := (ps_heap ?st)(s \<mapsto> b)\<rparr>)" if "same_flags a b" for b
    using wf_store_flags [OF wf1, of s a b] a(1) that by simp
  have close: "wf_streams st'" if "same_flags a b"
      "start_stream_close_once (pe_future e) t s (?st\<lparr>ps_heap := (ps_heap ?st)(s \<mapsto> b)\<rparr>) = Some st'" for b t
    using close_once_wf [OF store [OF that(1)], of s b t st'] that(2) out facts fut by simp
  let ?a1 = "a\<lparr>pa_connectionRef := pa_streamRef a\<rparr>"
  show ?thesis
  proof (cases "pe_accepted e")
    case False
    then have "cleanup_active_stream (pe_thread e) s ?st = Some st'"
      using acc a by (simp add: pty_stream_accepted_def)
    then show ?thesis
      using cleanup_wf [OF wf1, of s a "pe_thread e" st'] a out facts run not_stopped_taken [OF wf run(1)]
      by (simp add: idle_def taken_def)
  next
    case acc_ok: True
    consider (closing) b where "same_flags a b"
        "start_stream_close_once (pe_future e) (pe_thread e) s (?st\<lparr>ps_heap := (ps_heap ?st)(s \<mapsto> b)\<rparr>) = Some st'"
      | (setting) b where "same_flags a b"
        "st' = ?st\<lparr>ps_heap := (ps_heap ?st)(s \<mapsto> b), ps_setup := (ps_setup st)(s \<mapsto> SetupStart), ps_sdk := Some s\<rparr>"
    proof -
      have f1: "same_flags a ?a1" and f2: "same_flags a (?a1\<lparr>pa_sessionName := n, pa_sessionCols := c, pa_sessionRows := r\<rparr>)"
        for n c r by (simp_all add: same_flags_def)
      show thesis
        using acc a(1) acc_ok that(1) [OF f1] that(1) [OF f2] that(2) [OF f2]
        by (auto simp: pty_stream_accepted_def Let_def split: if_splits option.splits)
    qed
    then show ?thesis
    proof cases
      case closing
      then show ?thesis by (rule close)
    next
      case setting
      note wf2 = store [OF setting(1)]
      show ?thesis
      proof (rule wf_one [OF wf2, where s = s])
        show "at_ok st' s" using wf_at [OF wf2, of s b] setting facts out
          by (simp add: at_ok_def stream_ok_def idle_def taken_def same_flags_def)
        show "lists_ok st'" using wf_lists [OF wf2] setting run by (simp add: lists_ok_def taken_def)
        show "children_ok (pids (ps_heap st')) (ps_children st')" using wf_children [OF wf2] setting by simp
      qed (use setting run in \<open>simp add: same_at_def taken_def\<close>)
    qed
  qed
qed

lemma noted_wf:
  assumes wf: "wf_streams st" and s: "ps_sdk st = Some s" and step: "accepted_note s st = Some st'"
  shows "wf_streams st'"
proof -
  from wf_allocated [OF wf, of s] s obtain a where a: "ps_heap st s = Some a" "s < ps_next st" "stream_ok st s a" by blast
  let ?b = "a\<lparr>pa_setupThreadStarted := True\<rparr>"
  have st': "st' = st\<lparr>ps_heap := (ps_heap st)(s \<mapsto> ?b), ps_sdk := None\<rparr>"
    using step a(1) by (simp add: accepted_note_def)
  show ?thesis
  proof (rule wf_one [OF wf, where s = s])
    show "at_ok st' s" using a s by (simp add: st' at_ok_def stream_ok_def idle_def taken_def)
    show "lists_ok st'" using wf_lists [OF wf] s by (auto simp: st' lists_ok_def taken_def)
    show "children_ok (pids (ps_heap st')) (ps_children st')"
      using wf_children [OF wf] pids_same [of "ps_heap st", OF a(1), of ?b] by (simp add: st')
  qed (use s in \<open>simp add: st' same_at_def taken_def\<close>)
qed

text \<open>The set-up thread.\<close>

lemma setup_not_accepting:
  "wf_streams st \<Longrightarrow> ps_heap st s = Some a \<Longrightarrow> \<not> idle st s \<Longrightarrow> s \<notin> set (ps_accepting st)"
  using wf_at [of st s a] by (auto simp: stream_ok_def)

lemma end_setup_after_close:
  assumes wf: "wf_streams st" and a: "ps_heap st s = Some a" and pc: "ps_setup st s = Some pc" "pc \<noteq> SetupStreamFlag"
    "pc = SetupPtyFlag \<Longrightarrow> pa_ptyReaderThreadStarted a"
    and close: "start_stream_close_once True t s st = Some st1"
  shows "wf_streams (end_setup s st1)"
proof -
  have live: "\<not> idle st s" using pc by (simp add: idle_def)
  have "wf_streams st1 \<and> keeps_threads st st1 s"
    using close_once_wf [OF wf a setup_not_accepting [OF wf a live] _ close] live by blast
  then obtain b where st1: "wf_streams st1" "ps_setup st1 = ps_setup st" "ps_heap st1 s = Some b"
    "pa_ptyReaderThreadStarted b = pa_ptyReaderThreadStarted a"
    using a by (auto simp: keeps_threads_def same_flags_def)
  show ?thesis by (rule wf_end_setup [OF st1(1,3)]) (use pc st1 in auto)
qed

lemma setup_start_wf:
  assumes wf: "wf_streams st" and a: "ps_heap st s = Some a" "ps_setup st s = Some SetupStart"
  shows "wf_streams (st\<lparr>ps_setup := (ps_setup st)(s \<mapsto> SetupFork)\<rparr>)" (is "wf_streams ?st")
proof (rule wf_one [OF wf, where s = s])
  show "at_ok ?st s" using wf_at [OF wf a(1)] a by (auto simp: at_ok_def stream_ok_def idle_def taken_def)
  show "lists_ok ?st" using wf_lists [OF wf] by (simp add: lists_ok_def taken_def)
qed (use wf_children [OF wf] in \<open>simp_all add: same_at_def taken_def\<close>)

lemma setup_fork_wf:
  assumes wf: "wf_streams st" and a: "ps_heap st s = Some a" "ps_setup st s = Some SetupFork"
    and pid: "0 < pid" "pid \<notin> ps_children st" and b: "pa_childPid b = pid" "same_flags a (b\<lparr>pa_childPid := pa_childPid a\<rparr>)"
  shows "wf_streams (st\<lparr>ps_heap := (ps_heap st)(s \<mapsto> b), ps_children := insert pid (ps_children st),
     ps_setup := (ps_setup st)(s \<mapsto> SetupPty)\<rparr>)" (is "wf_streams ?st")
proof (rule wf_one [OF wf, where s = s])
  have old: "pids (ps_heap st) s = Some (pa_childPid a)" "pa_childPid a \<le> 0"
    using a wf_at [OF wf a(1)] by (simp_all add: pids_def stream_ok_def)
  show "at_ok ?st s" using wf_at [OF wf a(1)] a(2) b(2)
    by (auto simp: at_ok_def stream_ok_def idle_def taken_def same_flags_def)
  show "lists_ok ?st" using wf_lists [OF wf] by (simp add: lists_ok_def taken_def)
  show "children_ok (pids (ps_heap ?st)) (ps_children ?st)"
    using children_ok_fork [OF wf_children [OF wf] old pid] b(1) by (simp add: pids_upd)
qed (simp add: same_at_def taken_def)

lemma setup_pty_wf:
  assumes wf: "wf_streams st" and a: "ps_heap st s = Some a" "ps_setup st s = Some SetupPty"
  shows "wf_streams (st\<lparr>ps_ptyReaders := insert s (ps_ptyReaders st), ps_setup := (ps_setup st)(s \<mapsto> SetupPtyFlag)\<rparr>)"
    (is "wf_streams ?st")
proof (rule wf_one [OF wf, where s = s])
  show "at_ok ?st s" using wf_at [OF wf a(1)] a by (auto simp: at_ok_def stream_ok_def idle_def taken_def)
  show "lists_ok ?st" using wf_lists [OF wf] by (simp add: lists_ok_def taken_def)
qed (use wf_children [OF wf] in \<open>simp_all add: same_at_def taken_def\<close>)

lemma setup_stream_wf:
  assumes wf: "wf_streams st" and a: "ps_heap st s = Some a" "ps_setup st s = Some SetupPtyFlag"
  shows "wf_streams (st\<lparr>ps_heap := (ps_heap st)(s \<mapsto> a\<lparr>pa_ptyReaderThreadStarted := True\<rparr>),
    ps_streamReaders := insert s (ps_streamReaders st), ps_setup := (ps_setup st)(s \<mapsto> SetupStreamFlag)\<rparr>)"
    (is "wf_streams ?st")
proof (rule wf_one [OF wf, where s = s])
  show "at_ok ?st s" using wf_at [OF wf a(1)] a by (auto simp: at_ok_def stream_ok_def idle_def taken_def)
  show "lists_ok ?st" using wf_lists [OF wf] by (simp add: lists_ok_def taken_def)
  show "children_ok (pids (ps_heap ?st)) (ps_children ?st)"
    using wf_children [OF wf] pids_same [of "ps_heap st", OF a(1), of "a\<lparr>pa_ptyReaderThreadStarted := True\<rparr>"] by simp
qed (simp add: same_at_def taken_def)

lemma wf_set_started:
  assumes wf: "wf_streams st" and a: "ps_heap st s = Some a" and b: "pa_childPid b = pa_childPid a"
    "pa_closeStarted b = pa_closeStarted a" "pa_setupThreadStarted b = pa_setupThreadStarted a"
    "pa_ptyReaderThreadStarted a \<Longrightarrow> pa_ptyReaderThreadStarted b"
    "pa_streamReaderThreadStarted a \<Longrightarrow> pa_streamReaderThreadStarted b"
  shows "wf_streams (st\<lparr>ps_heap := (ps_heap st)(s \<mapsto> b)\<rparr>)"
proof (rule wf_store [OF wf a b(1)])
  have "stream_ok st s a" using wf_at [OF wf a] by simp
  then show "stream_ok st s b" unfolding stream_ok_def b(1-3) using b(4,5) by blast
qed

lemma setup_fork_step_wf:
  assumes wf: "wf_streams st" and a: "ps_heap st s = Some a" and pc: "ps_setup st s = Some SetupFork" and fut: "pe_future e"
    and fork: "\<forall>fd pid. pe_fork e = Some (fd, pid) \<longrightarrow> 0 \<le> fd \<and> 0 < pid \<and> pid \<notin> ps_children st"
    and step: "stream_setup_thread e s SetupFork st = Some st'"
  shows "wf_streams st'"
proof -
  consider (failed) st1 where "start_stream_close_once True (pe_thread e) s st = Some st1" "st' = end_setup s st1"
    | (forked) fd pid where "pe_fork e = Some (fd, pid)" "st' = st\<lparr>ps_heap := (ps_heap st)(s \<mapsto> a\<lparr>pa_ptyFd := fd, pa_childPid := pid,
          pa_detector := Some (setup_detector e (pa_sessionRows a) (pa_sessionCols a)), pa_recording := pe_record e\<rparr>),
        ps_children := insert pid (ps_children st), ps_setup := (ps_setup st)(s \<mapsto> SetupPty)\<rparr>"
    using step a fut by (auto simp: stream_setup_thread_def split: option.splits)
  then show ?thesis
  proof cases
    case failed
    with end_setup_after_close [OF wf a pc _ _ failed(1)] show ?thesis by simp
  next
    case forked
    then show ?thesis using setup_fork_wf [OF wf a] pc fork by (simp add: same_flags_def)
  qed
qed

lemma setup_pty_step_wf:
  assumes wf: "wf_streams st" and a: "ps_heap st s = Some a" and pc: "ps_setup st s = Some SetupPty" and fut: "pe_future e"
    and step: "stream_setup_thread e s SetupPty st = Some st'"
  shows "wf_streams st'"
proof -
  let ?st = "st\<lparr>ps_heap := (ps_heap st)(s \<mapsto> a\<lparr>pa_ptyFd := -1\<rparr>)\<rparr>"
  let ?sg = "?st\<lparr>ps_signalled := insert (pa_childPid a) (ps_signalled st)\<rparr>"
  have "wf_streams ?st" by (rule wf_store_flags [OF wf a]) (simp add: same_flags_def)
  then have wf1: "wf_streams ?sg" by (rule wf_signalled)
  consider "st' = st\<lparr>ps_ptyReaders := insert s (ps_ptyReaders st), ps_setup := (ps_setup st)(s \<mapsto> SetupPtyFlag)\<rparr>"
    | st1 where "start_stream_close_once True (pe_thread e) s ?sg = Some st1" "st' = end_setup s st1"
    using step a fut by (auto simp: stream_setup_thread_def split: if_splits)
  then show ?thesis
  proof cases
    case 1
    with setup_pty_wf [OF wf a] pc show ?thesis by simp
  next
    case 2
    with end_setup_after_close [OF wf1 _ _ _ _ 2(1), of "a\<lparr>pa_ptyFd := -1\<rparr>" SetupPty] pc show ?thesis by simp
  qed
qed

lemma setup_pty_flag_step_wf:
  assumes wf: "wf_streams st" and a: "ps_heap st s = Some a" and pc: "ps_setup st s = Some SetupPtyFlag" and fut: "pe_future e"
    and step: "stream_setup_thread e s SetupPtyFlag st = Some st'"
  shows "wf_streams st'"
proof -
  let ?b = "a\<lparr>pa_ptyReaderThreadStarted := True, pa_closing := True, pa_ptyFd := -1\<rparr>"
  let ?st = "st\<lparr>ps_heap := (ps_heap st)(s \<mapsto> ?b)\<rparr>"
  have wf1: "wf_streams ?st" by (rule wf_set_started [OF wf a]) simp_all
  consider "st' = st\<lparr>ps_heap := (ps_heap st)(s \<mapsto> a\<lparr>pa_ptyReaderThreadStarted := True\<rparr>),
        ps_streamReaders := insert s (ps_streamReaders st), ps_setup := (ps_setup st)(s \<mapsto> SetupStreamFlag)\<rparr>"
    | st1 where "start_stream_close_once True (pe_thread e) s ?st = Some st1" "st' = end_setup s st1"
    using step a fut by (auto simp: stream_setup_thread_def Let_def split: if_splits)
  then show ?thesis
  proof cases
    case 1
    with setup_stream_wf [OF wf a] pc show ?thesis by simp
  next
    case 2
    with end_setup_after_close [OF wf1 _ _ _ _ 2(1), of ?b SetupPtyFlag] pc show ?thesis by simp
  qed
qed

lemma setting_up_wf:
  assumes wf: "wf_streams st" and pc: "ps_setup st s = Some pc" and fut: "pe_future e"
    and fork: "\<forall>fd pid. pe_fork e = Some (fd, pid) \<longrightarrow> 0 \<le> fd \<and> 0 < pid \<and> pid \<notin> ps_children st"
    and step: "stream_setup_thread e s pc st = Some st'"
  shows "wf_streams st'"
proof -
  from wf_allocated [OF wf, of s] pc obtain a where a: "ps_heap st s = Some a" by (auto simp: idle_def)
  show ?thesis
  proof (cases pc)
    case SetupStart
    then have "st' = end_setup s st \<or> st' = st\<lparr>ps_setup := (ps_setup st)(s \<mapsto> SetupFork)\<rparr>"
      using step a by (auto simp: stream_setup_thread_def split: if_splits)
    with wf_end_setup [OF wf a] setup_start_wf [OF wf a] pc SetupStart show ?thesis by auto
  next
    case SetupFork
    from setup_fork_step_wf [OF wf a _ fut fork] pc step SetupFork show ?thesis by simp
  next
    case SetupPty
    from setup_pty_step_wf [OF wf a _ fut] pc step SetupPty show ?thesis by simp
  next
    case SetupPtyFlag
    from setup_pty_flag_step_wf [OF wf a _ fut] pc step SetupPtyFlag show ?thesis by simp
  next
    case SetupStreamFlag
    let ?b = "a\<lparr>pa_streamReaderThreadStarted := True\<rparr>"
    let ?st = "st\<lparr>ps_heap := (ps_heap st)(s \<mapsto> ?b)\<rparr>"
    have wf1: "wf_streams ?st" by (rule wf_set_started [OF wf a]) simp_all
    have "st' = end_setup s ?st" using step a SetupStreamFlag by (simp add: stream_setup_thread_def)
    with wf_end_setup [OF wf1, of s ?b] pc SetupStreamFlag show ?thesis by simp
  qed
qed

text \<open>The relay threads.\<close>

lemma drop_readers_wf:
  assumes wf: "wf_streams st"
  shows "wf_streams (st\<lparr>ps_ptyReaders := ps_ptyReaders st - {s}\<rparr>)" (is "wf_streams ?p")
    and "wf_streams (st\<lparr>ps_streamReaders := ps_streamReaders st - {s}\<rparr>)" (is "wf_streams ?t")
proof -
  have at: "at_ok st s" using wf by (simp add: wf_streams_def)
  show "wf_streams ?p"
  proof (rule wf_one [OF wf, where s = s])
    show "at_ok ?p s" using at by (auto simp: at_ok_def stream_ok_def gone_def idle_def taken_def split: option.splits)
    show "lists_ok ?p" using wf_lists [OF wf] by (simp add: lists_ok_def taken_def)
  qed (use wf_children [OF wf] in \<open>simp_all add: same_at_def taken_def\<close>)
  show "wf_streams ?t"
  proof (rule wf_one [OF wf, where s = s])
    show "at_ok ?t s" using at by (auto simp: at_ok_def stream_ok_def gone_def idle_def taken_def split: option.splits)
    show "lists_ok ?t" using wf_lists [OF wf] by (simp add: lists_ok_def taken_def)
  qed (use wf_children [OF wf] in \<open>simp_all add: same_at_def taken_def\<close>)
qed

lemma closing_close_wf:
  assumes wf: "wf_streams st" and live: "\<not> idle st s"
    and step: "set_closing s st \<bind> start_stream_close_once True t s = Some st'"
  shows "wf_streams st'"
proof -
  from wf_allocated [OF wf, of s] live obtain a where a: "ps_heap st s = Some a" by blast
  let ?st = "st\<lparr>ps_heap := (ps_heap st)(s \<mapsto> a\<lparr>pa_closing := True\<rparr>)\<rparr>"
  have wf1: "wf_streams ?st" by (rule wf_store_flags [OF wf a]) (simp add: same_flags_def)
  have close: "start_stream_close_once True t s ?st = Some st'" using step a by (simp add: set_closing_def)
  have live1: "\<not> idle ?st s" using live by (simp add: idle_def)
  have a1: "ps_heap ?st s = Some (a\<lparr>pa_closing := True\<rparr>)" by simp
  from close_once_wf [OF wf1 a1 setup_not_accepting [OF wf1 a1 live1] _ close] live1 show ?thesis by blast
qed

lemma feed_wf:
  assumes wf: "wf_streams st" and step: "pty_reader_feed api al data s st = Some st'"
  shows "wf_streams st'"
proof (cases "ps_heap st s")
  case None
  with step show ?thesis by (simp add: pty_reader_feed_def)
next
  case (Some a)
  then have "st' = st \<or> (\<exists>d. st' = st\<lparr>ps_heap := (ps_heap st)(s \<mapsto> a\<lparr>pa_detector := Some d\<rparr>)\<rparr>)"
    using step by (auto simp: pty_reader_feed_def split: option.splits)
  then show ?thesis using wf wf_store_flags [OF wf Some] by (auto simp: same_flags_def)
qed

text \<open>The lookups find allocated streams.\<close>

lemma first_stream_some:
  "(\<And>s. s \<in> set ss \<Longrightarrow> h s \<noteq> None) \<Longrightarrow> \<exists>r. first_stream h test ss = Some r"
  by (induction ss) (auto split: option.splits)

lemma first_stream_found: "first_stream h test ss = Some (Some (s, a)) \<Longrightarrow> h s = Some a \<and> test a \<and> s \<in> set ss"
  by (induction ss) (auto split: option.splits if_splits)

lemma lookup_some:
  assumes "wf_streams st"
  shows "\<exists>r. first_stream (ps_heap st) test (ps_activeStreams st) = Some r"
proof (rule first_stream_some)
  fix s assume "s \<in> set (ps_activeStreams st)"
  with wf_allocated [OF assms, of s] show "ps_heap st s \<noteq> None" by auto
qed

lemma resolve_wf:
  assumes wf: "wf_streams st" and step: "tmuxremote_stream_resolve_prompt_for_ref ctl st ref i = Some (st', calls)"
  shows "wf_streams st'"
proof -
  from step obtain r where r: "first_stream (ps_heap st) (detector_of_ref ref) (ps_activeStreams st) = Some r"
    by (auto simp: tmuxremote_stream_resolve_prompt_for_ref_def)
  show ?thesis
  proof (cases r)
    case None
    with r step wf show ?thesis by (simp add: tmuxremote_stream_resolve_prompt_for_ref_def)
  next
    case (Some sa)
    obtain s a where sa: "sa = (s, a)" by force
    with r Some have a: "ps_heap st s = Some a" using first_stream_found by blast
    from r Some sa step obtain d where "st' = st\<lparr>ps_heap := (ps_heap st)(s \<mapsto> a\<lparr>pa_detector := Some d\<rparr>)\<rparr>"
      by (auto simp: tmuxremote_stream_resolve_prompt_for_ref_def Let_def split: prod.splits)
    then show ?thesis using wf_store_flags [OF wf a] by (simp add: same_flags_def)
  qed
qed

lemma resize_wf:
  assumes wf: "wf_streams st" and step: "tmuxremote_stream_resize_prompt_detector_for_ref al st ref cols rows = Some st'"
  shows "wf_streams st'"
proof -
  from step obtain r where r: "first_stream (ps_heap st) (detector_of_ref ref) (ps_activeStreams st) = Some r"
    by (auto simp: tmuxremote_stream_resize_prompt_detector_for_ref_def split: option.splits)
  show ?thesis
  proof (cases r)
    case None
    with r step wf show ?thesis by (simp add: tmuxremote_stream_resize_prompt_detector_for_ref_def)
  next
    case (Some sa)
    obtain s a where sa: "sa = (s, a)" by force
    with r Some have a: "ps_heap st s = Some a" using first_stream_found by blast
    from r Some sa step obtain d where "st' = st\<lparr>ps_heap := (ps_heap st)(s \<mapsto>
        a\<lparr>pa_sessionCols := word_of_int cols, pa_sessionRows := word_of_int rows, pa_detector := Some d\<rparr>)\<rparr>"
      by (auto simp: tmuxremote_stream_resize_prompt_detector_for_ref_def)
    then show ?thesis using wf_store_flags [OF wf a] by (simp add: same_flags_def)
  qed
qed

lemma closed_wf:
  assumes wf: "wf_streams st" and s: "s \<in> set (ps_closes st)" and run: "\<not> ps_stopped st" "ps_sdk st = None"
    and step: "stream_closed t s st = Some st'"
  shows "wf_streams st'"
proof -
  from wf_allocated [OF wf, of s] s run obtain a where a: "ps_heap st s = Some a" "s < ps_next st" "stream_ok st s a" by blast
  let ?st = "st\<lparr>ps_closes := remove1 s (ps_closes st)\<rparr>"
  have out: "s \<notin> set (ps_closes ?st)" using wf_lists [OF wf] by (simp add: lists_ok_def)
  have wf1: "wf_streams ?st"
  proof (rule wf_one [OF wf, where s = s])
    show "at_ok ?st s" using a out by (simp add: at_ok_def stream_ok_def idle_def taken_def)
    show "lists_ok ?st" using wf_lists [OF wf] by (simp add: lists_ok_def taken_def)
  qed (use wf_children [OF wf] in \<open>simp_all add: same_at_def taken_def\<close>)
  have "pa_closeStarted a" "s \<notin> set (ps_accepting st)" using a(3) s by (auto simp: stream_ok_def)
  then show ?thesis
    using cleanup_wf [OF wf1, of s a t st'] a(1) out run not_stopped_taken [OF wf run(1)] step
    by (simp add: stream_closed_def taken_def)
qed

lemma free_wf:
  assumes wf: "wf_streams st" and a: "ps_heap st s = Some a"
    and st': "ps_heap st' = (ps_heap st)(s := None)" "ps_children st' = ps_children st - {pa_childPid a}"
    and gone: "gone st' s" and others: "\<And>x. x \<noteq> s \<Longrightarrow> same_at st st' x" and lists: "lists_ok st'"
  shows "wf_streams st'"
proof (rule wf_one [OF wf others _ lists])
  show "at_ok st' s" using gone st' by (simp add: at_ok_def)
  have "pids (ps_heap st) s = Some (pa_childPid a)" using a by (simp add: pids_def)
  from children_ok_wait [OF wf_children [OF wf] this] show "children_ok (pids (ps_heap st')) (ps_children st')"
    using st' by (simp add: pids_upd)
qed

lemma cleanup_thread_wf:
  assumes wf: "wf_streams st" and pc: "ps_cleanup st s = Some pc" and step: "cleanup_thread_func s pc st = Some (Some st')"
  shows "wf_streams st'"
proof -
  from wf_allocated [OF wf, of s] pc obtain a where a: "ps_heap st s = Some a" "s < ps_next st" "stream_ok st s a" by auto
  note lists = wf_lists [OF wf]
  show ?thesis
  proof (cases pc)
    case CleanSetup
    let ?b = "a\<lparr>pa_setupThreadStarted := False, pa_ptyFd := -1\<rparr>"
    have st': "st' = st\<lparr>ps_heap := (ps_heap st)(s \<mapsto> ?b), ps_signalled := signal_child a (ps_signalled st),
        ps_cleanup := (ps_cleanup st)(s \<mapsto> CleanPty)\<rparr>" and "\<not> (pa_setupThreadStarted a \<and> ps_setup st s \<noteq> None)"
      using step a(1) CleanSetup by (auto simp: cleanup_thread_func_def split: if_splits)
    then have none: "ps_setup st s = None" using a(3) pc by (auto simp: stream_ok_def)
    show ?thesis
    proof (rule wf_one [OF wf, where s = s])
      show "at_ok st' s" using a none pc by (auto simp: st' at_ok_def stream_ok_def idle_def taken_def)
      show "lists_ok st'" using lists by (simp add: st' lists_ok_def taken_def)
      show "children_ok (pids (ps_heap st')) (ps_children st')"
        using wf_children [OF wf] pids_same [of "ps_heap st", OF a(1), of ?b] by (simp add: st')
    qed (simp add: st' same_at_def taken_def)
  next
    case CleanPty
    let ?b = "a\<lparr>pa_ptyReaderThreadStarted := False\<rparr>"
    have st': "st' = st\<lparr>ps_heap := (ps_heap st)(s \<mapsto> ?b), ps_cleanup := (ps_cleanup st)(s \<mapsto> CleanStream)\<rparr>"
      and "\<not> (pa_ptyReaderThreadStarted a \<and> s \<in> ps_ptyReaders st)"
      using step a(1) CleanPty by (auto simp: cleanup_thread_func_def split: if_splits)
    then have none: "ps_setup st s = None" "s \<notin> ps_ptyReaders st" using a(3) pc CleanPty by (auto simp: stream_ok_def)
    show ?thesis
    proof (rule wf_one [OF wf, where s = s])
      show "at_ok st' s" using a none pc by (auto simp: st' at_ok_def stream_ok_def idle_def taken_def)
      show "lists_ok st'" using lists by (simp add: st' lists_ok_def taken_def)
      show "children_ok (pids (ps_heap st')) (ps_children st')"
        using wf_children [OF wf] pids_same [of "ps_heap st", OF a(1), of ?b] by (simp add: st')
    qed (simp add: st' same_at_def taken_def)
  next
    case CleanStream
    have st': "st' = st\<lparr>ps_heap := (ps_heap st)(s := None), ps_children := ps_children st - {pa_childPid a},
        ps_cleanup := (ps_cleanup st)(s := None)\<rparr>" and "\<not> (pa_streamReaderThreadStarted a \<and> s \<in> ps_streamReaders st)"
      using step a(1) CleanStream by (auto simp: cleanup_thread_func_def split: if_splits)
    then have "idle st s" using a(3) pc CleanStream by (auto simp: stream_ok_def idle_def)
    moreover have "s \<notin> set (ps_activeStreams st)" "s \<notin> set (taken st)" "s \<notin> set (ps_accepting st)"
      "s \<notin> set (ps_closes st)" "ps_sdk st \<noteq> Some s" using a(3) pc by (auto simp: stream_ok_def)
    ultimately have "gone st' s" by (simp add: st' gone_def idle_def taken_def)
    then show ?thesis
      using lists by (intro free_wf [OF wf a(1)]) (simp_all add: st' same_at_def taken_def lists_ok_def)
  qed
qed

lemma close_listed_wf:
  "wf_streams st \<Longrightarrow> close_listed ss st = Some st' \<Longrightarrow> wf_streams st'"
proof (induction ss arbitrary: st)
  case (Cons s ss)
  then obtain a where a: "ps_heap st s = Some a" by (auto split: option.splits)
  let ?st = "st\<lparr>ps_heap := (ps_heap st)(s \<mapsto> a\<lparr>pa_closing := True\<rparr>)\<rparr>"
  have "wf_streams ?st" by (rule wf_store_flags [OF Cons.prems(1) a]) (simp add: same_flags_def)
  then have "wf_streams (?st\<lparr>ps_signalled := signal_child a (ps_signalled st)\<rparr>)" by (rule wf_signalled)
  then show ?case using Cons.IH Cons.prems(2) a by simp
qed simp

lemma deinit_wf:
  assumes wf: "wf_streams st" and stopped: "ps_stopped st" "ps_deinit st = None"
  shows "wf_streams (deinit_take st)"
proof -
  have taken: "taken st = []" "taken (deinit_take st) = ps_activeStreams st"
    using stopped by (simp_all add: taken_def taken_of_def deinit_take_def)
  have "at_ok (deinit_take st) x" for x
  proof -
    have "at_ok st x" using wf by (simp add: wf_streams_def)
    then show ?thesis
      using taken by (auto simp: at_ok_def gone_def idle_def stream_ok_def deinit_take_def split: option.splits)
  qed
  moreover have "lists_ok (deinit_take st)"
    using wf_lists [OF wf] taken stopped by (simp add: lists_ok_def deinit_take_def)
  ultimately show ?thesis using wf_children [OF wf] by (simp add: wf_streams_def deinit_take_def)
qed

lemma deinit_close_wf:
  assumes wf: "wf_streams st" and d: "ps_deinit st = Some (False, s # ss)" and step: "deinit_close s ss st = Some st'"
  shows "wf_streams st'"
proof -
  from wf_allocated [OF wf, of s] d obtain a where a: "ps_heap st s = Some a" by (auto simp: taken_def taken_of_def)
  let ?st = "st\<lparr>ps_heap := (ps_heap st)(s \<mapsto> a\<lparr>pa_closing := True, pa_ptyFd := -1\<rparr>)\<rparr>"
  have wf1: "wf_streams ?st" by (rule wf_store_flags [OF wf a]) (simp add: same_flags_def)
  have st': "st' = ?st\<lparr>ps_signalled := signal_child a (ps_signalled st), ps_deinit := Some (True, s # ss)\<rparr>"
    using step a by (simp add: deinit_close_def)
  show ?thesis
    by (rule wf_same [OF wf1]) (use wf_lists [OF wf1] d in \<open>simp_all add: st' same_at_def taken_def taken_of_def lists_ok_def\<close>)
qed

lemma joined_idle:
  assumes "stream_ok st s a" and "ps_sdk st = None" and "joined s a st"
  shows "idle st s"
proof -
  have "ps_setup st s \<noteq> None \<longrightarrow> pa_setupThreadStarted a"
    "s \<in> ps_ptyReaders st \<longrightarrow> pa_ptyReaderThreadStarted a \<or> ps_setup st s = Some SetupPtyFlag"
    "s \<in> ps_streamReaders st \<longrightarrow> pa_streamReaderThreadStarted a \<or> ps_setup st s = Some SetupStreamFlag"
    using assms(1,2) by (simp_all add: stream_ok_def)
  with assms(3) show ?thesis unfolding joined_def idle_def by fastforce
qed

lemma deinit_free_wf:
  assumes wf: "wf_streams st" and d: "ps_deinit st = Some (True, s # ss)" and step: "deinit_free s ss st = Some (Some st')"
  shows "wf_streams st'"
proof -
  from wf_allocated [OF wf, of s] d obtain a where a: "ps_heap st s = Some a" "stream_ok st s a"
    by (auto simp: taken_def taken_of_def)
  have lists: "lists_ok st" by (rule wf_lists [OF wf])
  have st': "st' = st\<lparr>ps_heap := (ps_heap st)(s := None), ps_children := ps_children st - {pa_childPid a},
      ps_deinit := Some (False, ss)\<rparr>" and j: "joined s a st"
    using step a(1) by (auto simp: deinit_free_def split: if_splits)
  have stopped: "ps_stopped st" "ps_accepting st = []" "ps_sdk st = None" using lists d by (auto simp: lists_ok_def)
  have idle: "idle st s" by (rule joined_idle [OF a(2) stopped(3) j])
  have taken: "taken st = s # ss" "taken st' = ss" using d by (simp_all add: taken_def taken_of_def st')
  have "gone st' s" using lists a(2) idle stopped taken
    by (auto simp: gone_def lists_ok_def stream_ok_def idle_def st' taken_def)
  moreover have "lists_ok st'" using lists taken stopped by (auto simp: lists_ok_def st')
  moreover have "same_at st st' x" if "x \<noteq> s" for x using that taken by (simp add: same_at_def st' taken_def taken_of_def)
  ultimately show ?thesis by (intro free_wf [OF wf a(1)]) (simp_all add: st')
qed

lemma device_stop_wf:
  assumes wf: "wf_streams st" and "ps_accepting st = []" "ps_sdk st = None"
  shows "wf_streams (st\<lparr>ps_stopped := True\<rparr>)"
proof -
  have "at_ok (st\<lparr>ps_stopped := True\<rparr>) x" for x
  proof -
    have "at_ok st x" using wf by (simp add: wf_streams_def)
    then show ?thesis
      by (auto simp: at_ok_def gone_def idle_def stream_ok_def taken_def split: option.splits)
  qed
  moreover have "lists_ok (st\<lparr>ps_stopped := True\<rparr>)" using wf_lists [OF wf] assms by (simp add: lists_ok_def taken_def)
  ultimately show ?thesis using wf_children [OF wf] by (simp add: wf_streams_def)
qed

lemma pstep_wf: "pstep True st st' \<Longrightarrow> wf_streams st \<Longrightarrow> wf_streams st'"
proof (induction rule: pstep.induct)
  case (new st e ref st')
  then show ?case by (blast intro: pty_callback_wf)
next
  case (accepted s st e st')
  then show ?case by (blast intro: pty_accepted_wf)
next
  case (noted st s st')
  then show ?case by (blast intro: noted_wf)
next
  case (setting_up st s pc e st')
  then show ?case by (blast intro: setting_up_wf)
next
  case (feed s st api al data st')
  then show ?case by (blast intro: feed_wf)
next
  case (pty_end s st e st')
  then obtain st1 where "set_closing s st \<bind> start_stream_close_once True (pe_thread e) s = Some st1"
    "st' = st1\<lparr>ps_ptyReaders := ps_ptyReaders st1 - {s}\<rparr>" by (auto simp: pty_reader_end_def)
  with pty_end closing_close_wf [of st s "pe_thread e" st1] show ?case by (simp add: idle_def drop_readers_wf)
next
  case (stream_end s st e st')
  then obtain st1 where "set_closing s st \<bind> start_stream_close_once True (pe_thread e) s = Some st1"
    "st' = st1\<lparr>ps_streamReaders := ps_streamReaders st1 - {s}\<rparr>" by (auto simp: stream_reader_end_def)
  with stream_end closing_close_wf [of st s "pe_thread e" st1] show ?case by (simp add: idle_def drop_readers_wf)
next
  case (closed s st t st')
  then show ?case by (blast intro: closed_wf)
next
  case (cleanup st s pc st')
  then show ?case by (blast intro: cleanup_thread_wf)
next
  case (resolve ctl st ref i st' calls)
  then show ?case by (blast intro: resolve_wf)
next
  case (resize al st ref cols rows st')
  then show ?case by (blast intro: resize_wf)
next
  case (sessions st m)
  then show ?case by (rule wf_sessions)
next
  case (stop st st')
  then show ?case by (auto simp: tmuxremote_stream_listener_stop_def intro: close_listed_wf)
next
  case (device_stop st)
  then show ?case by (blast intro: device_stop_wf)
next
  case (deinit_take st)
  then show ?case by (blast intro: deinit_wf)
next
  case (deinit_close st s ss st')
  then show ?case by (blast intro: deinit_close_wf)
next
  case (deinit_free st s ss st')
  then show ?case by (blast intro: deinit_free_wf)
qed

lemma preachable_wf: "preachable True m st \<Longrightarrow> wf_streams st"
proof (induction rule: preachable.induct)
  case init
  show ?case
    by (simp add: wf_streams_def at_ok_def gone_def idle_def lists_ok_def taken_def taken_of_def children_ok_def pids_def
        tmuxremote_stream_listener_init_def)
next
  case (step st st')
  then show ?case by (blast intro: pstep_wf)
qed

section \<open>Properties\<close>

text \<open>
  C8: terminal streams are not used after they were freed.  Under every interleaving of the SDK's
  callbacks, the set-up, relay and cleanup threads, the requests and the shutdown, as long as the
  SDK has a future for every close: each stream that is listed, being accepted or closed, or used
  by a running thread is allocated, so no lookup faults; every stream is closed at most once; and
  the terminal processes that were not waited for are exactly those of the allocated streams.
\<close>

theorem terminal_streams_are_not_freed_early:
  assumes "preachable True m st"
  shows "list_all (\<lambda>s. ps_heap st s \<noteq> None) (ps_activeStreams st @ taken st @ ps_accepting st) \<and>
    (\<forall>s. \<not> idle st s \<or> ps_sdk st = Some s \<or> ps_cleanup st s \<noteq> None \<or> (\<not> ps_stopped st \<and> s \<in> set (ps_closes st)) \<longrightarrow>
       ps_heap st s \<noteq> None) \<and>
    (\<forall>ref. tmuxremote_stream_get_pty_fd st ref \<noteq> None) \<and> distinct (ps_closed st) \<and>
    ps_children st = {p. 0 < p \<and> (\<exists>s a. ps_heap st s = Some a \<and> pa_childPid a = p)}"
proof -
  have wf: "wf_streams st" by (rule preachable_wf [OF assms])
  have alloc: "ps_heap st s \<noteq> None" if "s \<in> set (ps_activeStreams st) \<or> s \<in> set (taken st) \<or> s \<in> set (ps_accepting st) \<or>
      (\<not> ps_stopped st \<and> s \<in> set (ps_closes st)) \<or> ps_sdk st = Some s \<or> \<not> idle st s \<or> ps_cleanup st s \<noteq> None" for s
    using wf_allocated [OF wf that] by (metis option.distinct(1))
  then have "list_all (\<lambda>s. ps_heap st s \<noteq> None) (ps_activeStreams st @ taken st @ ps_accepting st)"
    by (auto simp: list_all_iff)
  moreover have "tmuxremote_stream_get_pty_fd st ref \<noteq> None" for ref
    using lookup_some [OF wf, of "\<lambda>a. \<not> pa_closing a \<and> pa_connectionRef a = ref \<and> pa_ptyFd a \<ge> 0"]
    unfolding tmuxremote_stream_get_pty_fd_def by (metis option.distinct(1) option.map_disc_iff)
  moreover have "ps_children st = {p. 0 < p \<and> (\<exists>s a. ps_heap st s = Some a \<and> pa_childPid a = p)}"
    using children_okD(1) [OF wf_children [OF wf]] by (auto simp: pids_def)
  ultimately show ?thesis using alloc wf_lists [OF wf] by (auto simp: lists_ok_def)
qed

text \<open>An agent with one attached connection, and calls that succeed.\<close>

definition one_session :: session_map where
  "one_session = snd (tmuxremote_session_set tmuxremote_session_map_init 7 ''main'' 80 24)"

definition all_well :: "'re pcre2 \<Rightarrow> 're pty_env" where
  "all_well api = \<lparr>pe_alloc = True, pe_future = True, pe_thread = True, pe_accepted = True, pe_check = (\<lambda>_ _. True),
     pe_setup_thread = True, pe_fork = Some (3, 5), pe_pty_thread = True, pe_stream_thread = True, pe_api = api,
     pe_al = mem_ok, pe_config = None, pe_record = False\<rparr>"

definition attached :: "'re active_stream" where
  "attached = (fresh_stream 7)\<lparr>pa_connectionRef := 7, pa_sessionName := ''main'', pa_sessionCols := 80, pa_sessionRows := 24\<rparr>"

text \<open>The stream of that connection has been accepted, its set-up thread runs.\<close>

definition scene :: "'re active_stream \<Rightarrow> nat option \<Rightarrow> setup_pc \<Rightarrow> 're pty_streams" where
  "scene a sdk pc = (tmuxremote_stream_listener_init one_session)\<lparr>ps_heap := [0 \<mapsto> a], ps_next := 1,
     ps_activeStreams := [0], ps_setup := [0 \<mapsto> pc], ps_sdk := sdk\<rparr>"

lemma one_session_get:
  "tmuxremote_session_get one_session 7 = Some \<lparr>se_connectionRef = 7, se_sessionName = ''main'', se_cols = 80,
     se_rows = 24, se_valid = True\<rparr>"
  by (simp add: one_session_def tmuxremote_session_get_def tmuxremote_session_set_def tmuxremote_session_map_init_def
      TMUXREMOTE_MAX_SESSIONS_def zero_entry_def is_entry_of_def fill_entry_def strncpy_term_def
      TMUXREMOTE_SESSION_NAME_MAX_def numeral_eq_Suc)

lemma scene_accepted: "preachable r one_session (scene attached (Some 0) SetupStart)"
proof -
  let ?e = "all_well (undefined :: 'a pcre2)"
  let ?st0 = "tmuxremote_stream_listener_init one_session :: 'a pty_streams"
  let ?st1 = "?st0\<lparr>ps_heap := [0 \<mapsto> fresh_stream 7], ps_next := 1, ps_activeStreams := [0], ps_accepting := [0]\<rparr>"
  have "pty_stream_callback ?e 7 ?st0 = Some ?st1"
    by (simp add: pty_stream_callback_def all_well_def tmuxremote_stream_listener_init_def)
  then have 1: "preachable r one_session ?st1"
    by (intro preachable.step [OF preachable.init] pstep.new [of _ ?e 7])
       (simp_all add: tmuxremote_stream_listener_init_def)
  have "pty_stream_accepted ?e 0 ?st1 = Some (scene attached (Some 0) SetupStart)"
    using one_session_get
    by (simp add: pty_stream_accepted_def all_well_def tmuxremote_iam_check_access_ref_def scene_def attached_def
        fresh_stream_def tmuxremote_stream_listener_init_def strncpy_term_def TMUXREMOTE_SESSION_NAME_MAX_def)
  then show ?thesis
    by (intro preachable.step [OF 1] pstep.accepted [of 0 _ _ ?e])
       (simp_all add: tmuxremote_stream_listener_init_def all_well_def)
qed

lemma scene_setup:
  assumes "preachable r one_session st" and "ps_setup st 0 = Some pc" and "stream_setup_thread e 0 pc st = Some st'"
    and "r \<longrightarrow> pe_future e" and "\<forall>fd pid. pe_fork e = Some (fd, pid) \<longrightarrow> 0 \<le> fd \<and> 0 < pid \<and> pid \<notin> ps_children st"
  shows "preachable r one_session st'"
  using assms by (blast intro: preachable.step pstep.setting_up)

theorem terminal_streams_are_not_freed_early_witness:
  "\<exists>st :: 're pty_streams. preachable True one_session st \<and> ps_activeStreams st = [0] \<and> ps_heap st 0 \<noteq> None \<and>
     tmuxremote_stream_get_pty_fd st 7 \<noteq> None"
proof -
  have r: "preachable True one_session (scene attached (Some 0) SetupStart :: 're pty_streams)" by (rule scene_accepted)
  have "ps_activeStreams (scene attached (Some 0) SetupStart :: 're pty_streams) = [0]" by (simp add: scene_def)
  with r terminal_streams_are_not_freed_early [OF r] show ?thesis
    by (intro exI [of _ "scene attached (Some 0) SetupStart"]) simp
qed

text \<open>The shut-down closed the stream before its set-up thread started the child.\<close>

definition late_stream :: "'re active_stream" where
  "late_stream = attached\<lparr>pa_setupThreadStarted := True, pa_closing := True, pa_ptyFd := 3, pa_childPid := 5,
     pa_detector := Some (setup_detector (all_well undefined) 24 80)\<rparr>"

definition late_scene :: "'re pty_streams" where
  "late_scene = (deinit_take ((scene (attached\<lparr>pa_setupThreadStarted := True\<rparr>) None SetupFork)\<lparr>ps_stopped := True\<rparr>))
     \<lparr>ps_heap := [0 \<mapsto> late_stream], ps_deinit := Some (True, [0]), ps_children := {5}, ps_setup := [0 \<mapsto> SetupPty]\<rparr>"

lemmas scene_defs = scene_def tmuxremote_stream_listener_init_def stream_setup_thread_def all_well_def end_setup_def
  attached_def fresh_stream_def deinit_take_def

lemma late_scene_reachable: "preachable True one_session (late_scene :: 're pty_streams)"
proof -
  let ?e = "all_well undefined :: 're pty_env"
  let ?r = "preachable True one_session :: 're pty_streams \<Rightarrow> bool"
  let ?a1 = "attached\<lparr>pa_setupThreadStarted := True\<rparr> :: 're active_stream"
  let ?st2 = "scene ?a1 None SetupFork"
  let ?st3 = "?st2\<lparr>ps_stopped := True\<rparr>"
  let ?st5 = "(deinit_take ?st3)\<lparr>ps_heap := [0 \<mapsto> ?a1\<lparr>pa_closing := True\<rparr>], ps_deinit := Some (True, [0])\<rparr>"
  have 1: "?r (scene ?a1 None SetupStart)"
    by (rule preachable.step [OF scene_accepted], rule pstep.noted [of _ 0])
       (simp_all add: accepted_note_def scene_defs)
  have 2: "?r ?st2"
    by (rule scene_setup [OF 1, of SetupStart ?e]) (simp_all add: scene_defs)
  have 3: "?r ?st3" by (rule preachable.step [OF 2], rule pstep.device_stop) (simp_all add: scene_defs)
  have 4: "?r (deinit_take ?st3)" by (rule preachable.step [OF 3], rule pstep.deinit_take) (simp_all add: scene_defs)
  have 5: "?r ?st5"
    by (rule preachable.step [OF 4], rule pstep.deinit_close [of _ 0 "[]"])
       (simp_all add: deinit_close_def signal_child_def scene_defs)
  show ?thesis
    by (rule scene_setup [OF 5, of SetupFork ?e]) (simp_all add: scene_defs late_scene_def late_stream_def)
qed

text \<open>
  C39: shutting down can hang.  The shutdown closes the terminal and signals the process before it
  waits for the set-up thread: when that thread forks in between, the shutdown goes on to wait
  for a process that nobody has signalled and whose terminal is still open.
\<close>

theorem shutdown_can_wait_for_unsignalled_child:
  "\<exists>(st :: 're pty_streams) s ss a. preachable True one_session st \<and> ps_deinit st = Some (True, s # ss) \<and>
     ps_heap st s = Some a \<and> joined s a st \<and> 0 < pa_childPid a \<and> pa_childPid a \<in> ps_children st \<and>
     pa_childPid a \<notin> ps_signalled st \<and> 0 \<le> pa_ptyFd a"
proof -
  let ?f = "(all_well undefined)\<lparr>pe_fork := None\<rparr> :: 're pty_env"
  let ?r = "preachable True one_session :: 're pty_streams \<Rightarrow> bool"
  let ?st7 = "late_scene\<lparr>ps_ptyReaders := {0}, ps_setup := [0 \<mapsto> SetupPtyFlag]\<rparr>"
  let ?a4 = "late_stream\<lparr>pa_ptyReaderThreadStarted := True\<rparr>"
  let ?st8 = "?st7\<lparr>ps_heap := [0 \<mapsto> ?a4], ps_streamReaders := {0}, ps_setup := [0 \<mapsto> SetupStreamFlag]\<rparr>"
  let ?a5 = "?a4\<lparr>pa_streamReaderThreadStarted := True\<rparr>"
  let ?st9 = "?st8\<lparr>ps_heap := [0 \<mapsto> ?a5], ps_setup := Map.empty\<rparr>"
  let ?a6 = "?a5\<lparr>pa_closeStarted := True\<rparr>"
  let ?st10 = "?st9\<lparr>ps_heap := [0 \<mapsto> ?a6], ps_closes := [0], ps_closed := [0], ps_ptyReaders := {}\<rparr>"
  let ?st11 = "?st10\<lparr>ps_streamReaders := {}\<rparr>"
  note defs = scene_defs late_scene_def late_stream_def
  note ends = pty_reader_end_def stream_reader_end_def set_closing_def start_stream_close_once_def start_stream_close_def
  have 7: "?r ?st7" by (rule scene_setup [OF late_scene_reachable, of SetupPty ?f]) (simp_all add: defs)
  have 8: "?r ?st8" by (rule scene_setup [OF 7, of SetupPtyFlag ?f]) (simp_all add: defs)
  have 9: "?r ?st9" by (rule scene_setup [OF 8, of SetupStreamFlag ?f]) (simp_all add: defs)
  have 10: "?r ?st10"
    by (rule preachable.step [OF 9], rule pstep.pty_end [of 0 _ _ ?f]) (simp_all add: ends defs)
  have 11: "?r ?st11"
    by (rule preachable.step [OF 10], rule pstep.stream_end [of 0 _ _ ?f]) (simp_all add: ends defs)
  show ?thesis
    by (rule exI [of _ ?st11], rule exI [of _ 0], rule exI [of _ "[]"], rule exI [of _ ?a6])
       (use 11 in \<open>simp add: joined_def defs\<close>)
qed

text \<open>
  Without a future for a close, a stream is freed while it is being set up.  When the SDK has no
  future for the close of a set-up that failed, the set-up thread starts the cleanup itself, and the
  cleanup frees the stream before \<open>stream_accepted\<close> stores into it that the thread was started.
\<close>

theorem failed_set_up_frees_stream_in_use:
  "\<exists>(st :: 're pty_streams) s. preachable False one_session st \<and> ps_sdk st = Some s \<and> accepted_note s st = None"
proof -
  let ?e = "(all_well undefined)\<lparr>pe_fork := None, pe_future := False\<rparr> :: 're pty_env"
  let ?r = "preachable False one_session :: 're pty_streams \<Rightarrow> bool"
  let ?st1 = "scene attached (Some 0) SetupFork"
  let ?a2 = "attached\<lparr>pa_closeStarted := True, pa_closing := True\<rparr> :: 're active_stream"
  let ?st2 = "?st1\<lparr>ps_heap := [0 \<mapsto> ?a2], ps_activeStreams := [], ps_setup := Map.empty,
      ps_sessions := tmuxremote_session_remove one_session 7, ps_cleanup := [0 \<mapsto> CleanSetup]\<rparr>"
  let ?st3 = "?st2\<lparr>ps_cleanup := [0 \<mapsto> CleanPty]\<rparr>"
  let ?st4 = "?st2\<lparr>ps_cleanup := [0 \<mapsto> CleanStream]\<rparr>"
  let ?st5 = "?st2\<lparr>ps_heap := Map.empty, ps_cleanup := Map.empty\<rparr>"
  note defs = scene_def tmuxremote_stream_listener_init_def stream_setup_thread_def all_well_def end_setup_def
    attached_def fresh_stream_def start_stream_close_once_def start_stream_close_def cleanup_active_stream_def
    cleanup_thread_func_def signal_child_def
  have 1: "?r ?st1" by (rule scene_setup [OF scene_accepted, of SetupStart ?e]) (simp_all add: defs)
  have 2: "?r ?st2" by (rule scene_setup [OF 1, of SetupFork ?e]) (simp_all add: defs)
  have 3: "?r ?st3" by (rule preachable.step [OF 2], rule pstep.cleanup [of _ 0 CleanSetup]) (simp_all add: defs)
  have 4: "?r ?st4" by (rule preachable.step [OF 3], rule pstep.cleanup [of _ 0 CleanPty]) (simp_all add: defs)
  have 5: "?r ?st5" by (rule preachable.step [OF 4], rule pstep.cleanup [of _ 0 CleanStream]) (simp_all add: defs)
  have "ps_sdk ?st5 = Some 0" "accepted_note 0 ?st5 = None" by (simp_all add: scene_def accepted_note_def)
  with 5 show ?thesis by blast
qed

end
