(* ===== verification/Client_Coap.thy ===== *)
theory Client_Coap
  imports Coap_Endpoints
begin

text \<open>
  The CoAP requests of the CLI client (\<open>clients/cli/src/tmuxremote_client_coap.c\<close>), and what they
  mean to the agent's endpoints.

  The client SDK is a parameter: a method and a path give \<^const>\<open>None\<close> when no request object can
  be made, and otherwise the execution of the request with a payload, which gives the reply, or
  \<^const>\<open>None\<close> when it does not end with \<open>NABTO_CLIENT_EC_OK\<close>.  TinyCBOR is a parameter too: the
  encoder gives the bytes of a map, the parser a root as in the endpoints.
\<close>

section \<open>Sending\<close>

record coap_reply =
  cr_status :: "16 word"
  cr_payload :: "byte list option"

type_synonym coap_api = "string \<Rightarrow> string \<Rightarrow> (byte list option \<Rightarrow> coap_reply option) option"

type_synonym members = "(string \<times> cval) list"

text \<open>
  The results of the encoder calls are not checked.  When the message does not fit the buffer
  \<open>cbor_encoder_get_buffer_size\<close> is not the size of anything in the buffer, and the SDK is told to
  read that many bytes from it: the value \<^const>\<open>None\<close>.
\<close>

definition encode_request :: "(members \<Rightarrow> byte list) \<Rightarrow> nat \<Rightarrow> members \<Rightarrow> byte list option" where
  "encode_request enc capacity ms = (if length (enc ms) > capacity then None else Some (enc ms))"

definition post_request ::
  "(members \<Rightarrow> byte list) \<Rightarrow> coap_api \<Rightarrow> nat \<Rightarrow> string \<Rightarrow> members \<Rightarrow> coap_reply option option" where
  "post_request enc coap capacity path ms =
     (case coap ''POST'' path of
        None \<Rightarrow> Some None
      | Some execute \<Rightarrow> map_option (\<lambda>payload. execute (Some payload)) (encode_request enc capacity ms))"

definition attach_members :: "string \<Rightarrow> 16 word \<Rightarrow> 16 word \<Rightarrow> bool \<Rightarrow> members" where
  "attach_members session cols rows create =
     [(''session'', CvText session), (''cols'', CvUint (ucast cols)), (''rows'', CvUint (ucast rows))] @
     (if create then [(''create'', CvBool True)] else [])"

definition tmuxremote_coap_attach ::
  "(members \<Rightarrow> byte list) \<Rightarrow> coap_api \<Rightarrow> string \<Rightarrow> 16 word \<Rightarrow> 16 word \<Rightarrow> bool \<Rightarrow> bool option" where
  "tmuxremote_coap_attach enc coap session cols rows create =
     map_option (\<lambda>r. case r of None \<Rightarrow> False | Some reply \<Rightarrow> cr_status reply = 201)
       (post_request enc coap 256 ''/terminal/attach'' (attach_members session cols rows create))"

definition create_members :: "string \<Rightarrow> 16 word \<Rightarrow> 16 word \<Rightarrow> string option \<Rightarrow> members" where
  "create_members session cols rows command =
     [(''session'', CvText session), (''cols'', CvUint (ucast cols)), (''rows'', CvUint (ucast rows))] @
     (case command of None \<Rightarrow> [] | Some c \<Rightarrow> [(''command'', CvText c)])"

definition tmuxremote_coap_create_session ::
  "(members \<Rightarrow> byte list) \<Rightarrow> coap_api \<Rightarrow> string \<Rightarrow> 16 word \<Rightarrow> 16 word \<Rightarrow> string option \<Rightarrow> bool option" where
  "tmuxremote_coap_create_session enc coap session cols rows command =
     map_option (\<lambda>r. case r of None \<Rightarrow> False | Some reply \<Rightarrow> cr_status reply = 201)
       (post_request enc coap 512 ''/terminal/create'' (create_members session cols rows command))"

definition resize_members :: "16 word \<Rightarrow> 16 word \<Rightarrow> members" where
  "resize_members cols rows = [(''cols'', CvUint (ucast cols)), (''rows'', CvUint (ucast rows))]"

text \<open>The status of the answer to a resize is not read.\<close>

definition tmuxremote_coap_resize ::
  "(members \<Rightarrow> byte list) \<Rightarrow> coap_api \<Rightarrow> 16 word \<Rightarrow> 16 word \<Rightarrow> bool option" where
  "tmuxremote_coap_resize enc coap cols rows =
     map_option (\<lambda>r. r \<noteq> None) (post_request enc coap 64 ''/terminal/resize'' (resize_members cols rows))"

definition tmuxremote_coap_pair_password_invite ::
  "(members \<Rightarrow> byte list) \<Rightarrow> coap_api \<Rightarrow> string \<Rightarrow> bool option" where
  "tmuxremote_coap_pair_password_invite enc coap username =
     map_option (\<lambda>r. case r of None \<Rightarrow> False | Some reply \<Rightarrow> \<not> (cr_status reply < 200 \<or> cr_status reply \<ge> 300))
       (post_request enc coap 128 ''/iam/pairing/password-invite'' [(''Username'', CvText username)])"

section \<open>Reading the session list\<close>

definition TMUXREMOTE_CLIENT_MAX_SESSIONS :: nat where "TMUXREMOTE_CLIENT_MAX_SESSIONS = 32"

record client_session_info =
  ci_name :: string
  ci_cols :: "16 word"
  ci_rows :: "16 word"
  ci_attached :: int

text \<open>
  An iterator over an array: at its end, on an item that is no map with the result of advancing
  past it, or on a map with the result of entering and that of leaving it.
\<close>

datatype acursor = ArrayEnd | NoMap "acursor option" | OnMap "cursor option" "acursor option"

datatype array_root = NoParser | NoArray | NotEntered | EnteredArray acursor

definition session_field :: "string \<Rightarrow> cval \<Rightarrow> client_session_info \<Rightarrow> string + client_session_info" where
  "session_field key v info =
     (if key = ''name'' \<and> is_text v
      then (case copy_text 63 v of None \<Rightarrow> Inl [] | Some s \<Rightarrow> Inr (info\<lparr>ci_name := s\<rparr>))
      else case v of
             CvUint n \<Rightarrow>
               if key = ''cols'' then (if n > 0xFFFF then Inl [] else Inr (info\<lparr>ci_cols := ucast n\<rparr>))
               else if key = ''rows'' then (if n > 0xFFFF then Inl [] else Inr (info\<lparr>ci_rows := ucast n\<rparr>))
               else if key = ''attached'' then (if n > 0x7FFFFFFF then Inl [] else Inr (info\<lparr>ci_attached := uint n\<rparr>))
               else Inr info
           | _ \<Rightarrow> Inr info)"

definition no_session_info :: client_session_info where
  "no_session_info = \<lparr>ci_name = [], ci_cols = 0, ci_rows = 0, ci_attached = 0\<rparr>"

text \<open>The loop over a map has the same form as in the endpoints; only its success matters here.\<close>

function list_entries :: "acursor \<Rightarrow> client_session_info list \<Rightarrow> bool \<times> client_session_info list" where
  "list_entries arr xs =
     (if arr = ArrayEnd \<or> length xs \<ge> TMUXREMOTE_CLIENT_MAX_SESSIONS then (True, xs)
      else case arr of
             NoMap (Some r) \<Rightarrow> list_entries r xs
           | OnMap (Some m) leave \<Rightarrow>
               (case parse_members session_field m no_session_info of
                  Inl _ \<Rightarrow> (False, xs)
                | Inr info \<Rightarrow>
                    (case leave of None \<Rightarrow> (False, xs) | Some r \<Rightarrow> list_entries r (xs @ [info])))
           | _ \<Rightarrow> (False, xs))"
  by pat_completeness auto
termination
  by (relation "measure (\<lambda>(arr, _). size arr)") auto

declare list_entries.simps [simp del]

definition tmuxremote_coap_list_sessions ::
  "(byte list \<Rightarrow> array_root) \<Rightarrow> coap_api \<Rightarrow> bool \<times> client_session_info list" where
  "tmuxremote_coap_list_sessions parse coap =
     (case coap ''GET'' ''/terminal/sessions'' of
        None \<Rightarrow> (False, [])
      | Some execute \<Rightarrow>
          (case execute None of
             None \<Rightarrow> (False, [])
           | Some reply \<Rightarrow>
               if cr_status reply \<noteq> 205 then (False, [])
               else case cr_payload reply of
                      None \<Rightarrow> (True, [])
                    | Some payload \<Rightarrow>
                        if payload = [] then (True, [])
                        else case parse payload of
                               NoParser \<Rightarrow> (False, [])
                             | NoArray \<Rightarrow> (True, [])
                             | NotEntered \<Rightarrow> (False, [])
                             | EnteredArray arr \<Rightarrow> list_entries arr []))"

section \<open>Reading the status\<close>

record client_status_info =
  ct_version :: string
  ct_activeSessions :: int
  ct_uptimeSeconds :: "64 word"

definition status_field :: "string \<Rightarrow> cval \<Rightarrow> client_status_info \<Rightarrow> string + client_status_info" where
  "status_field key v info =
     (if key = ''version'' \<and> is_text v
      then (case copy_text 31 v of None \<Rightarrow> Inl [] | Some s \<Rightarrow> Inr (info\<lparr>ct_version := s\<rparr>))
      else case v of
             CvUint n \<Rightarrow>
               if key = ''active_sessions''
               then (if n > 0x7FFFFFFF then Inl [] else Inr (info\<lparr>ct_activeSessions := uint n\<rparr>))
               else if key = ''uptime_seconds'' then Inr (info\<lparr>ct_uptimeSeconds := n\<rparr>)
               else Inr info
           | _ \<Rightarrow> Inr info)"

definition no_status_info :: client_status_info where
  "no_status_info = \<lparr>ct_version = [], ct_activeSessions = 0, ct_uptimeSeconds = 0\<rparr>"

text \<open>
  The parser gives \<^const>\<open>None\<close> when it cannot be initialised, and with the root whether leaving the
  map succeeds.  The value is the status, \<^const>\<open>None\<close> for a result of \<open>false\<close>, after which the
  caller does not read the structure.
\<close>

definition tmuxremote_coap_get_status ::
  "(byte list \<Rightarrow> (cbor_root \<times> bool) option) \<Rightarrow> coap_api \<Rightarrow> client_status_info option" where
  "tmuxremote_coap_get_status parse coap =
     (case coap ''GET'' ''/terminal/status'' of
        None \<Rightarrow> None
      | Some execute \<Rightarrow>
          (case execute None of
             None \<Rightarrow> None
           | Some reply \<Rightarrow>
               if cr_status reply \<noteq> 205 then None
               else case cr_payload reply of
                      None \<Rightarrow> Some no_status_info
                    | Some payload \<Rightarrow>
                        if payload = [] then Some no_status_info
                        else case parse payload of
                               None \<Rightarrow> None
                             | Some (NotMap, _) \<Rightarrow> Some no_status_info
                             | Some (EnterFailed _, _) \<Rightarrow> None
                             | Some (Entered m, leave) \<Rightarrow>
                                 (case parse_members status_field m no_status_info of
                                    Inl _ \<Rightarrow> None
                                  | Inr info \<Rightarrow> if leave then Some info else None)))"

section \<open>Lemmas\<close>

text \<open>
  Documented behaviour of TinyCBOR: an encoded map is read back member by member, an encoded
  array of maps item by item.
\<close>

fun cursor_of :: "members \<Rightarrow> cursor" where
  "cursor_of [] = AtEnd"
| "cursor_of ((k, v) # ms) = Item (CvText k) (Some (Item v (Some (cursor_of ms))))"

fun cval_of :: "cbor \<Rightarrow> cval" where
  "cval_of (CText s) = CvText s"
| "cval_of (CUint n) = CvUint n"
| "cval_of _ = CvOther"

fun acursor_of :: "cbor list \<Rightarrow> acursor" where
  "acursor_of [] = ArrayEnd"
| "acursor_of (CMap ms # vs) = OnMap (Some (cursor_of (map (map_prod id cval_of) ms))) (Some (acursor_of vs))"
| "acursor_of (_ # vs) = NoMap (Some (acursor_of vs))"

fun fold_fields :: "(string \<Rightarrow> cval \<Rightarrow> 's \<Rightarrow> string + 's) \<Rightarrow> members \<Rightarrow> 's \<Rightarrow> string + 's" where
  "fold_fields field [] st = Inr st"
| "fold_fields field ((k, v) # ms) st = (case field k v st of Inl e \<Rightarrow> Inl e | Inr st' \<Rightarrow> fold_fields field ms st')"

definition short_key :: "string \<Rightarrow> bool" where
  "short_key k \<longleftrightarrow> length k \<le> 31 \<and> NUL \<notin> set k"

text \<open>Reading a map with short keys applies the field function to its members in order.\<close>

lemma parse_members_cursor_of:
  assumes "\<forall>(k, v) \<in> set ms. short_key k"
  shows "parse_members field (cursor_of ms) st = fold_fields field ms st"
  using assms
proof (induction ms arbitrary: st)
  case Nil
  show ?case by (simp add: parse_members.simps)
next
  case (Cons kv ms)
  obtain k v where kv: "kv = (k, v)" by (cases kv)
  have "copy_text 31 (CvText k) = Some k"
    using Cons.prems by (simp add: kv short_key_def copy_text_def c_string_id)
  with Cons show ?case
    by (subst parse_members.simps)
      (auto simp: kv is_text_def current_def cbor_value_advance_def split: sum.splits)
qed

text \<open>The size of an encoded map (RFC 8949): a head of 1 to 9 bytes and the content of every item.\<close>

definition head_size :: "nat \<Rightarrow> nat" where
  "head_size n = (if n < 24 then 1 else if n < 256 then 2 else if n < 65536 then 3 else if n < 2 ^ 32 then 5 else 9)"

fun cval_size :: "cval \<Rightarrow> nat" where
  "cval_size (CvText s) = head_size (length s) + length s"
| "cval_size (CvUint n) = head_size (unat n)"
| "cval_size _ = 1"

definition cbor_size :: "members \<Rightarrow> nat" where
  "cbor_size ms = head_size (length ms) + (\<Sum>(k, v)\<leftarrow>ms. cval_size (CvText k) + cval_size v)"

definition cbor_ok :: "(members \<Rightarrow> byte list) \<Rightarrow> (byte list \<Rightarrow> cbor_root) \<Rightarrow> members \<Rightarrow> bool" where
  "cbor_ok enc parse ms \<longleftrightarrow> length (enc ms) = cbor_size ms \<and> parse (enc ms) = Entered (cursor_of ms)"

lemma head_size_16: "head_size (unat (ucast (w :: 16 word) :: 64 word)) \<le> 3"
proof -
  have "unat w < 65536" using unsigned_less [of w] by simp
  then have "unat (ucast w :: 64 word) < 65536" by (simp add: unsigned_ucast_eq take_bit_nat_eq_self)
  then show ?thesis by (simp add: head_size_def)
qed

lemma head_size_le: "n < 65536 \<Longrightarrow> head_size n \<le> 3"
  by (simp add: head_size_def)

text \<open>The three requests fit their buffers.\<close>

lemma attach_members_fit: "length s \<le> 63 \<Longrightarrow> cbor_size (attach_members s cols rows create) \<le> 256"
  using head_size_16 [of cols] head_size_16 [of rows] head_size_le [of "length s"]
  by (simp add: cbor_size_def attach_members_def head_size_def [of "Suc _"] head_size_def [of 0])

lemma create_members_fit:
  assumes "length s \<le> 63" and "\<forall>c. command = Some c \<longrightarrow> length c \<le> 255"
  shows "cbor_size (create_members s cols rows command) \<le> 512"
proof (cases command)
  case None
  with assms(1) show ?thesis
    using head_size_16 [of cols] head_size_16 [of rows] head_size_le [of "length s"]
    by (simp add: cbor_size_def create_members_def head_size_def [of "Suc _"] head_size_def [of 0])
next
  case (Some c)
  with assms show ?thesis
    using head_size_16 [of cols] head_size_16 [of rows] head_size_le [of "length s"] head_size_le [of "length c"]
    by (simp add: cbor_size_def create_members_def head_size_def [of "Suc _"] head_size_def [of 0])
qed

lemma resize_members_fit: "cbor_size (resize_members cols rows) \<le> 64"
  using head_size_16 [of cols] head_size_16 [of rows]
  by (simp add: cbor_size_def resize_members_def head_size_def [of "Suc _"] head_size_def [of 0])

text \<open>What the endpoints read from them.\<close>

lemma short_keys:
  "\<forall>(k, v) \<in> set (attach_members s cols rows create). short_key k"
  "\<forall>(k, v) \<in> set (create_members s cols rows command). short_key k"
  "\<forall>(k, v) \<in> set (resize_members cols rows). short_key k"
  by (auto simp: attach_members_def create_members_def resize_members_def short_key_def split: option.splits)

lemma attach_members_read:
  assumes "NUL \<notin> set s" and "length s \<le> 63"
  shows "parse_members attach_field (cursor_of (attach_members s cols rows create))
      \<lparr>at_session = [], at_cols = 80, at_rows = 24, at_create = False\<rparr> =
    Inr \<lparr>at_session = s, at_cols = ucast cols, at_rows = ucast rows, at_create = create\<rparr>"
  unfolding parse_members_cursor_of [OF short_keys(1)]
  using assms by (simp add: attach_members_def attach_field_def copy_text_def is_text_def c_string_id)

lemma create_members_read:
  assumes "NUL \<notin> set s" and "length s \<le> 63"
    and "\<forall>c. command = Some c \<longrightarrow> NUL \<notin> set c \<and> length c \<le> 255"
  shows "parse_members create_field (cursor_of (create_members s cols rows command))
      \<lparr>cq_session = [], cq_command = [], cq_cols = 80, cq_rows = 24\<rparr> =
    Inr \<lparr>cq_session = s, cq_command = (case command of None \<Rightarrow> [] | Some c \<Rightarrow> c), cq_cols = ucast cols,
         cq_rows = ucast rows\<rparr>"
  unfolding parse_members_cursor_of [OF short_keys(2)]
  using assms
  by (cases command) (simp_all add: create_members_def create_field_def copy_text_def is_text_def c_string_id)

lemma resize_members_read:
  "parse_members resize_field (cursor_of (resize_members cols rows)) (None, None) =
    Inr (Some (ucast cols), Some (ucast rows))"
  unfolding parse_members_cursor_of [OF short_keys(3)]
  by (simp add: resize_members_def resize_field_def)

text \<open>
  The agent at the other end of the connection: a request to \<open>path\<close> with a CBOR payload is handed
  to the endpoint and its response comes back.
\<close>

fun reply_of :: "response \<Rightarrow> coap_reply" where
  "reply_of (ErrorResponse n _) = \<lparr>cr_status = word_of_nat n, cr_payload = None\<rparr>"
| "reply_of (Response n) = \<lparr>cr_status = word_of_nat n, cr_payload = None\<rparr>"
| "reply_of (ResponsePayload n bs) = \<lparr>cr_status = word_of_nat n, cr_payload = Some bs\<rparr>"

definition served :: "string \<Rightarrow> (coap_request \<Rightarrow> response) \<Rightarrow> coap_request \<Rightarrow> coap_api" where
  "served path handler q =
     (\<lambda>_ p. if p = path then Some (\<lambda>payload. Some (reply_of (handler (q\<lparr>rq_payload := payload\<rparr>)))) else None)"

lemma post_served:
  assumes "cbor_ok enc parse ms" and "cbor_size ms \<le> capacity"
  shows "post_request enc (served path handler q) capacity path ms =
    Some (Some (reply_of (handler (q\<lparr>rq_payload := Some (enc ms)\<rparr>))))"
  using assms by (simp add: post_request_def served_def encode_request_def cbor_ok_def)

text \<open>
  A session name of 256 bytes or more does not fit: the client then hands the SDK a length that
  has nothing to do with the buffer.
\<close>

lemma long_session_name_overruns:
  assumes "length (enc (attach_members s cols rows create)) = cbor_size (attach_members s cols rows create)"
    and "256 \<le> length s" and "coap ''POST'' ''/terminal/attach'' \<noteq> None"
  shows "tmuxremote_coap_attach enc coap s cols rows create = None"
proof -
  have "256 < cbor_size (attach_members s cols rows create)"
    using assms(2) by (simp add: cbor_size_def attach_members_def)
  then show ?thesis
    using assms(1,3) by (auto simp: tmuxremote_coap_attach_def post_request_def encode_request_def)
qed

lemma attach_session_status:
  "cr_status (reply_of (fst (attach_session tmux m ref a))) = 201 \<longleftrightarrow> fst (attach_session tmux m ref a) = Response 201"
  by (auto simp: attach_session_def case_prod_unfold Let_def)

text \<open>The entry the client makes of a session.\<close>

definition client_info :: "tmux_session \<Rightarrow> client_session_info" where
  "client_info s = \<lparr>ci_name = tx_name s, ci_cols = tx_cols s, ci_rows = tx_rows s, ci_attached = tx_attached s\<rparr>"

lemma ucast_16_64:
  fixes w :: "16 word"
  shows "(ucast w :: 64 word) \<le> 0xFFFF" "ucast (ucast w :: 64 word) = w"
proof -
  have "uint w < 2 ^ 16" using uint_range_size [of w] by (simp add: word_size)
  have u: "uint (ucast w :: 64 word) = uint w" by (rule uint_up_ucast) (simp add: is_up)
  with \<open>uint w < 2 ^ 16\<close> show "(ucast w :: 64 word) \<le> 0xFFFF" by (simp add: word_le_def)
  show "ucast (ucast w :: 64 word) = w"
    by (simp add: ucast_up_ucast_id is_up)
qed

lemma session_map_read:
  assumes "printable_session s" and "session_cbor s = CMap ms"
  shows "parse_members session_field (cursor_of (map (map_prod id cval_of) ms)) no_session_info = Inr (client_info s)"
proof -
  have name: "length (tx_name s) \<le> 63" "NUL \<notin> set (tx_name s)"
    using assms(1) valid_name [of "tx_name s"] session_name_char_not by (auto simp: printable_session_def)
  have att: "uint (word_of_int (tx_attached s) :: 64 word) = tx_attached s"
    "\<not> (0x7FFFFFFF :: 64 word) < word_of_int (tx_attached s)"
    using assms(1) by (simp_all add: printable_session_def unsigned_of_int take_bit_int_eq_self word_less_def)
  have keys: "\<forall>(k, v) \<in> set (map (map_prod id cval_of) ms). short_key k"
    using assms(2) by (auto simp: session_cbor_def short_key_def)
  show ?thesis
    unfolding parse_members_cursor_of [OF keys]
    using assms(2) name att ucast_16_64 [of "tx_cols s"] ucast_16_64 [of "tx_rows s"]
    by (auto simp: session_cbor_def session_field_def is_text_def copy_text_def c_string_id no_session_info_def
        client_info_def linorder_not_less)
qed

lemma list_entries_sessions:
  "\<forall>s \<in> set xs. printable_session s \<Longrightarrow> length acc + length xs \<le> 32 \<Longrightarrow>
    list_entries (acursor_of (map session_cbor xs)) acc = (True, acc @ map client_info xs)"
proof (induction xs arbitrary: acc)
  case Nil
  show ?case by (simp add: list_entries.simps)
next
  case (Cons s xs)
  obtain ms where ms: "session_cbor s = CMap ms" by (simp add: session_cbor_def)
  with Cons session_map_read [OF _ ms] show ?case
    by (subst list_entries.simps) (simp add: TMUXREMOTE_CLIENT_MAX_SESSIONS_def)
qed

lemma attach_reaches_agent:
  fixes a :: attach_request and s :: string and cols rows :: "16 word" and create :: bool
  defines "a \<equiv> \<lparr>at_session = s, at_cols = ucast cols, at_rows = ucast rows, at_create = create\<rparr>"
  assumes name: "NUL \<notin> set s" "length s \<le> 63"
    and cbor: "cbor_ok enc parse (attach_members s cols rows create)"
    and q: "rq_content_format_cbor q" "\<And>a. rq_allowed q a"
  shows "attach_handle_request tmux parse m (q\<lparr>rq_payload := Some (enc (attach_members s cols rows create))\<rparr>) =
      attach_session tmux m (rq_ref q) a"
    "tmuxremote_coap_attach enc (served ''/terminal/attach'' (\<lambda>q. fst (attach_handle_request tmux parse m q)) q)
      s cols rows create = Some (fst (attach_session tmux m (rq_ref q) a) = Response 201)"
proof -
  show h: "attach_handle_request tmux parse m (q\<lparr>rq_payload := Some (enc (attach_members s cols rows create))\<rparr>) =
      attach_session tmux m (rq_ref q) a"
    using cbor q attach_members_read [OF name]
    by (simp add: attach_handle_request_def tmuxremote_init_cbor_parser_def cbor_ok_def entered_def a_def)
  show "tmuxremote_coap_attach enc (served ''/terminal/attach'' (\<lambda>q. fst (attach_handle_request tmux parse m q)) q)
      s cols rows create = Some (fst (attach_session tmux m (rq_ref q) a) = Response 201)"
    using post_served [OF cbor attach_members_fit [OF name(2)]] h
    by (simp add: tmuxremote_coap_attach_def attach_session_status)
qed

lemma create_reaches_agent:
  assumes name: "NUL \<notin> set s" "length s \<le> 63"
    and command: "\<forall>c. command = Some c \<longrightarrow> NUL \<notin> set c \<and> length c \<le> 255"
    and cbor: "cbor_ok enc parse (create_members s cols rows command)"
    and q: "rq_content_format_cbor q" "\<And>a. rq_allowed q a"
  shows "tmuxremote_coap_create_session enc
      (served ''/terminal/create'' (\<lambda>q. fst (create_handle_request tmux parse q)) q) s cols rows command =
    Some (s \<noteq> [] \<and> valid_terminal_size (ucast cols) (ucast rows) \<and> tmuxremote_tmux_validate_session_name (Some s) \<and>
      fst (tmuxremote_tmux_create_session tmux (Some s) cols rows (if command = Some [] then None else command)))"
proof -
  have fit: "cbor_size (create_members s cols rows command) \<le> 512"
    using name(2) command by (intro create_members_fit) auto
  show ?thesis
    using post_served [OF cbor fit] cbor q create_members_read [OF name command]
    by (cases command) (auto simp: tmuxremote_coap_create_session_def create_handle_request_def
        tmuxremote_init_cbor_parser_def cbor_ok_def entered_def ucast_16_64 case_prod_unfold Let_def)
qed

lemma resize_reaches_agent:
  assumes cbor: "cbor_ok enc parse (resize_members cols rows)"
    and q: "rq_content_format_cbor q" "\<And>a. rq_allowed q a"
  shows "tmuxremote_coap_resize enc
      (served ''/terminal/resize'' (\<lambda>q. fst (resize_handle_request fd parse m q)) q) cols rows = Some True"
    "fst (resize_handle_request fd parse m (q\<lparr>rq_payload := Some (enc (resize_members cols rows))\<rparr>)) = Response 204
      \<longleftrightarrow> valid_terminal_size (ucast cols) (ucast rows)"
  using post_served [OF cbor resize_members_fit] cbor q resize_members_read [of cols rows]
  by (simp_all add: tmuxremote_coap_resize_def resize_handle_request_def tmuxremote_init_cbor_parser_def cbor_ok_def
      Let_def split: prod.splits)

section \<open>Properties\<close>



text \<open>A connection of a client with all rights, and a CBOR library that knows one message.\<close>

definition paired_client :: coap_request where
  "paired_client = \<lparr>rq_ref = 5, rq_allowed = (\<lambda>_. True), rq_content_format_cbor = True, rq_payload = None\<rparr>"

definition size_only :: "members \<Rightarrow> byte list" where
  "size_only ms = replicate (cbor_size ms) 0"

text \<open>The three messages below differ in size.\<close>

definition by_size :: "byte list \<Rightarrow> cbor_root" where
  "by_size bs = (if length bs = cbor_size (resize_members 80 24) then Entered (cursor_of (resize_members 80 24))
     else if length bs = cbor_size (attach_members ''main'' 80 24 False)
     then Entered (cursor_of (attach_members ''main'' 80 24 False))
     else Entered (cursor_of (create_members ''main'' 80 24 (Some ''top''))))"


text \<open>
  C18: the client shows the sessions tmux has.  What tmux prints for at most 32 sessions with
  names the agent accepts is read by the agent, sent to the client and read there as exactly these
  sessions, in order, with their sizes and attach counts.
\<close>

theorem client_lists_tmux_sessions:
  assumes xs: "\<forall>s \<in> set xs. printable_session s" "length xs \<le> 32" "length (print_sessions xs) \<le> 4095"
    and cbor: "enc (CArray (map session_cbor xs)) \<noteq> []" "length (enc (CArray (map session_cbor xs))) \<le> 8192"
      "parse (enc (CArray (map session_cbor xs))) = EnteredArray (acursor_of (map session_cbor xs))"
    and q: "rq_allowed q ''Terminal:ListSessions''"
  shows "tmuxremote_coap_list_sessions parse (served ''/terminal/sessions'' (\<lambda>q. fst (sessions_handle_request
      (\<lambda>_. \<lparr>tr_started = True, tr_output = print_sessions xs, tr_status = Some (Exited 0)\<rparr>) enc q)) q) =
    (True, map client_info xs)"
  using cbor q list_entries_sessions [OF xs(1), of "[]"] xs(2)
  by (simp add: tmuxremote_coap_list_sessions_def served_def sessions_handle_request_def tmux_list_roundtrip [OF xs])

theorem client_lists_tmux_sessions_witness:
  "tmuxremote_coap_list_sessions (\<lambda>_. EnteredArray (acursor_of (map session_cbor
       [\<lparr>tx_name = ''main'', tx_cols = 80, tx_rows = 24, tx_attached = 1\<rparr>])))
     (served ''/terminal/sessions'' (\<lambda>q. fst (sessions_handle_request (\<lambda>_. \<lparr>tr_started = True, tr_output =
        print_sessions [\<lparr>tx_name = ''main'', tx_cols = 80, tx_rows = 24, tx_attached = 1\<rparr>], tr_status = Some (Exited 0)\<rparr>)
        (\<lambda>_. [0]) q)) paired_client) =
   (True, [\<lparr>ci_name = ''main'', ci_cols = 80, ci_rows = 24, ci_attached = 1\<rparr>])"
proof -
  let ?xs = "[\<lparr>tx_name = ''main'', tx_cols = 80, tx_rows = 24, tx_attached = 1\<rparr>]"
  have "\<forall>s \<in> set ?xs. printable_session s" "length (print_sessions ?xs) \<le> 4095"
    by (simp_all add: printable_session_def tmuxremote_tmux_validate_session_name_def session_name_char_def
       isalnum_def isdigit_def print_sessions_def print_session_def decimal.simps)
  with client_lists_tmux_sessions [of ?xs "\<lambda>_. [0]" "\<lambda>_. EnteredArray (acursor_of (map session_cbor ?xs))" paired_client]
  show ?thesis by (simp add: paired_client_def client_info_def)
qed

end
