(* ===== verification/Client_Commands.thy ===== *)
theory Client_Commands
  imports Client_Config Client_Coap Pty_Relay
begin

text \<open>
  The commands of the CLI client: \<open>clients/cli/src/main.c\<close>, \<open>tmuxremote_pair.c\<close>,
  \<open>tmuxremote_attach.c\<close>, \<open>tmuxremote_sessions.c\<close>, \<open>tmuxremote_devices.c\<close> and the connection options
  and terminal size of \<open>tmuxremote_client_util.c\<close>.

  What the SDK, the terminal and the operating system answer is the record \<open>client_env\<close>; the peer of
  a connection depends on its options.  A command gives its exit code, the files it leaves and
  what it did with the connection, in order.  The outer \<^const>\<open>None\<close> is undefined behaviour: a request
  that does not fit its buffer, or the null pointer of \<open>tmuxremote_cmd_sessions\<close>.
\<close>

datatype client_act =
    Connected string
  | Authenticated string string
  | Requested string bool
  | Listed "client_session_info list"
  | OpenedStream
  | SentInput string
  | Resized "16 word" "16 word"

text \<open>
  A turn of the relay's main loop: \<open>done\<close> at its head, whether a \<open>SIGWINCH\<close> has arrived, what the
  terminal size is then, what standard input delivers (\<^const>\<open>None\<close>: \<open>select\<close> reports nothing, the
  empty string: end of file or an error), and whether the write ends well.  After the listed
  turns \<open>done\<close> is set.
\<close>

record relay_turn =
  rt_done :: bool
  rt_winch :: bool
  rt_size :: "(16 word \<times> 16 word) option"
  rt_input :: "string option"
  rt_written :: bool

record client_env =
  ce_al :: alloc
  ce_baseDir :: "string option"
  ce_home :: "string option"
  ce_parse :: "string \<Rightarrow> cjson option"
  ce_print :: "cjson \<Rightarrow> string option"
  ce_print_options :: "cjson \<Rightarrow> string option"
  ce_disk :: disk
  ce_log_open :: "string \<Rightarrow> bool"
  ce_client_new :: bool
  ce_create_key :: "string option"
  ce_connection_new :: bool
  ce_set_options :: "string \<Rightarrow> bool"
  ce_connect :: "string \<Rightarrow> bool"
  ce_authenticate :: "string \<Rightarrow> string \<Rightarrow> bool"
  ce_fingerprint :: "string option"
  ce_enc :: "members \<Rightarrow> byte list"
  ce_coap :: "string \<Rightarrow> coap_api"
  ce_parse_sessions :: "byte list \<Rightarrow> array_root"
  ce_parse_status :: "byte list \<Rightarrow> (cbor_root \<times> bool) option"
  ce_answer :: "char option"
  ce_winsize :: "(16 word \<times> 16 word) option"
  ce_pid :: nat
  ce_stream_new :: bool
  ce_stream_open :: bool
  ce_raw :: bool
  ce_thread :: "nat \<Rightarrow> bool"
  ce_turns :: "relay_turn list"

type_synonym command_result = "int \<times> files \<times> client_act list"

section \<open>Connecting\<close>

definition tmuxremote_build_connection_options ::
  "(cjson \<Rightarrow> string option) \<Rightarrow> string \<Rightarrow> string \<Rightarrow> string \<Rightarrow> string \<Rightarrow> string option" where
  "tmuxremote_build_connection_options print productId deviceId privateKey sct =
     print (JObject [(''ProductId'', JString productId), (''DeviceId'', JString deviceId),
                     (''PrivateKey'', JString privateKey), (''ServerConnectToken'', JString sct)])"

definition tmuxremote_terminal_get_size :: "(16 word \<times> 16 word) option \<Rightarrow> bool \<times> 16 word \<times> 16 word" where
  "tmuxremote_terminal_get_size winsize =
     (case winsize of None \<Rightarrow> (False, 80, 24) | Some (cols, rows) \<Rightarrow> (True, cols, rows))"

text \<open>The configuration every command starts with; the result of loading the agents is ignored.\<close>

definition load_config :: "client_env \<Rightarrow> files \<Rightarrow> client_config option" where
  "load_config e fs =
     map_option (\<lambda>c. snd (tmuxremote_config_load_devices (ce_al e) (ce_parse e) fs c))
       (tmuxremote_config_init (ce_baseDir e) (ce_home e))"

text \<open>
  From the options to the connection; the result is the options when the connection is
  established.
\<close>

definition connect_with :: "client_env \<Rightarrow> string \<Rightarrow> string \<Rightarrow> string \<Rightarrow> string \<Rightarrow> string option" where
  "connect_with e productId deviceId privateKey sct =
     (case tmuxremote_build_connection_options (ce_print_options e) productId deviceId privateKey sct of
        None \<Rightarrow> None
      | Some options \<Rightarrow>
          if ce_set_options e options \<and> ce_connect e options then Some options else None)"

definition connect_to_device ::
  "client_env \<Rightarrow> string \<Rightarrow> client_config \<Rightarrow> files \<Rightarrow> string option \<times> files" where
  "connect_to_device e deviceName config fs =
     (case tmuxremote_config_find_device config deviceName of
        None \<Rightarrow> (None, fs)
      | Some i \<Rightarrow>
          if \<not> ce_client_new e then (None, fs)
          else
            let dev = cc_devices config ! i;
                (key, fs) = tmuxremote_config_load_or_create_key (ce_al e) (ce_create_key e) (ce_disk e) fs config
            in case key of
                 None \<Rightarrow> (None, fs)
               | Some privateKey \<Rightarrow>
                   if \<not> ce_connection_new e then (None, fs)
                   else (connect_with e (bm_productId dev) (bm_deviceId dev) privateKey (bm_sct dev), fs))"

section \<open>The relay\<close>

fun relay_loop :: "relay_turn list \<Rightarrow> client_act list" where
  "relay_loop [] = []"
| "relay_loop (t # ts) =
     (if rt_done t then []
      else
        let resizes = (if rt_winch t
                       then (case tmuxremote_terminal_get_size (rt_size t) of
                               (True, cols, rows) \<Rightarrow> [Resized cols rows] | _ \<Rightarrow> [])
                       else [])
        in resizes @
           (case rt_input t of
              None \<Rightarrow> relay_loop ts
            | Some input \<Rightarrow>
                if input = [] then []
                else SentInput input # (if rt_written t then relay_loop ts else [])))"

definition run_stream_relay :: "client_env \<Rightarrow> int \<times> client_act list" where
  "run_stream_relay e =
     (if \<not> ce_stream_new e then (1, [])
      else if \<not> ce_stream_open e then (1, [])
      else if \<not> ce_raw e then (1, [OpenedStream])
      else if \<not> ce_thread e 0 then (1, [OpenedStream])
      else (0, OpenedStream # relay_loop (ce_turns e)))"

text \<open>
  The reader thread: a turn has \<open>done\<close>, the bytes read (\<^const>\<open>None\<close> for an error or end of file) and
  the outcomes of \<open>write\<close> on standard output.  \<open>write_all_fd\<close> and \<open>wait_stream_future\<close> of this file
  are the agent's, with \<open>done\<close> for \<open>closing\<close>.
\<close>

record reader_turn =
  ct_done :: bool
  ct_read :: "char list option"
  ct_writes :: "write_outcome list"

fun client_reader_thread :: "reader_turn list \<Rightarrow> char list \<Rightarrow> char list \<times> bool" where
  "client_reader_thread [] out = (out, False)"
| "client_reader_thread (t # ts) out =
     (if ct_done t then (out, True)
      else case ct_read t of
             None \<Rightarrow> (out, True)
           | Some buf \<Rightarrow>
               if buf \<noteq> []
               then (case write_all_fd (ct_writes t) buf of
                       None \<Rightarrow> (out, False)
                     | Some (w, ok, _) \<Rightarrow> if ok then client_reader_thread ts (out @ w) else (out @ w, True))
               else client_reader_thread ts out)"

section \<open>Attach and create\<close>

text \<open>What \<open>attach\<close> and \<open>create\<close> do once the session exists.\<close>

definition attach_and_relay ::
  "client_env \<Rightarrow> string \<Rightarrow> string \<Rightarrow> files \<Rightarrow> client_act list \<Rightarrow> command_result option" where
  "attach_and_relay e options sessionName fs acts =
     (let (_, cols, rows) = tmuxremote_terminal_get_size (ce_winsize e)
      in case tmuxremote_coap_attach (ce_enc e) (ce_coap e options) sessionName cols rows False of
           None \<Rightarrow> None
         | Some False \<Rightarrow> Some (1, fs, acts @ [Requested ''/terminal/attach'' False])
         | Some True \<Rightarrow>
             let (ret, relayed) = run_stream_relay e
             in Some (ret, fs, acts @ Requested ''/terminal/attach'' True # relayed))"

definition tmuxremote_cmd_attach :: "client_env \<Rightarrow> string list \<Rightarrow> files \<Rightarrow> command_result option" where
  "tmuxremote_cmd_attach e args fs =
     (case args of
        deviceName # rest \<Rightarrow>
          let sessionName = (case rest of [] \<Rightarrow> ''main'' | s # _ \<Rightarrow> s)
          in (case load_config e fs of
                None \<Rightarrow> Some (1, fs, [])
              | Some config \<Rightarrow>
                  (case connect_to_device e deviceName config fs of
                     (None, fs) \<Rightarrow> Some (1, fs, [])
                   | (Some options, fs) \<Rightarrow> attach_and_relay e options sessionName fs [Connected options]))
      | [] \<Rightarrow> Some (1, fs, []))"

text \<open>The positional session name and the option \<open>--command\<close>.\<close>

fun create_options :: "string list \<Rightarrow> string option \<Rightarrow> string option \<Rightarrow> string option \<times> string option" where
  "create_options [] session command = (session, command)"
| "create_options [a] session command = (if session = None then Some a else session, command)"
| "create_options (a # b # as) session command =
     (if a = ''--command'' then create_options as session (Some b)
      else create_options (b # as) (if session = None then Some a else session) command)"

definition tmuxremote_cmd_new_session :: "client_env \<Rightarrow> string list \<Rightarrow> files \<Rightarrow> command_result option" where
  "tmuxremote_cmd_new_session e args fs =
     (case args of
        deviceName # rest \<Rightarrow>
          let (session, command) = create_options rest None None;
              sessionName = (case session of Some s \<Rightarrow> s | None \<Rightarrow> take 63 (''ns-'' @ decimal (ce_pid e)))
          in (case load_config e fs of
                None \<Rightarrow> Some (1, fs, [])
              | Some config \<Rightarrow>
                  (case connect_to_device e deviceName config fs of
                     (None, fs) \<Rightarrow> Some (1, fs, [])
                   | (Some options, fs) \<Rightarrow>
                       let (_, cols, rows) = tmuxremote_terminal_get_size (ce_winsize e)
                       in (case tmuxremote_coap_create_session (ce_enc e) (ce_coap e options) sessionName cols rows command of
                             None \<Rightarrow> None
                           | Some False \<Rightarrow> Some (1, fs, [Connected options, Requested ''/terminal/create'' False])
                           | Some True \<Rightarrow>
                               attach_and_relay e options sessionName fs
                                 [Connected options, Requested ''/terminal/create'' True])))
      | [] \<Rightarrow> Some (1, fs, []))"

section \<open>Sessions and agents\<close>

text \<open>The result of \<open>nabto_client_connection_new\<close> is not checked here.\<close>

definition tmuxremote_cmd_sessions :: "client_env \<Rightarrow> string list \<Rightarrow> files \<Rightarrow> command_result option" where
  "tmuxremote_cmd_sessions e args fs =
     (case args of
        deviceName # _ \<Rightarrow>
          (case load_config e fs of
             None \<Rightarrow> Some (1, fs, [])
           | Some config \<Rightarrow>
               (case tmuxremote_config_find_device config deviceName of
                  None \<Rightarrow> Some (1, fs, [])
                | Some i \<Rightarrow>
                    if \<not> ce_client_new e then Some (1, fs, [])
                    else
                      let dev = cc_devices config ! i;
                          (key, fs) = tmuxremote_config_load_or_create_key (ce_al e) (ce_create_key e) (ce_disk e) fs config
                      in case key of
                           None \<Rightarrow> Some (1, fs, [])
                         | Some privateKey \<Rightarrow>
                             if \<not> ce_connection_new e then None
                             else case connect_with e (bm_productId dev) (bm_deviceId dev) privateKey (bm_sct dev) of
                                    None \<Rightarrow> Some (1, fs, [])
                                  | Some options \<Rightarrow>
                                      (case tmuxremote_coap_list_sessions (ce_parse_sessions e) (ce_coap e options) of
                                         (False, _) \<Rightarrow> Some (1, fs, [Connected options])
                                       | (True, sessions) \<Rightarrow> Some (0, fs, [Connected options, Listed sessions]))))
      | [] \<Rightarrow> Some (1, fs, []))"

text \<open>\<open>online\<close> and \<open>activeSessions\<close> of a probed agent.\<close>

definition agent_probe_thread :: "client_env \<Rightarrow> string \<Rightarrow> device_bookmark \<Rightarrow> bool \<times> int" where
  "agent_probe_thread e privateKey dev =
     (if \<not> ce_client_new e \<or> \<not> ce_connection_new e then (False, 0)
      else case connect_with e (bm_productId dev) (bm_deviceId dev) privateKey (bm_sct dev) of
             None \<Rightarrow> (False, 0)
           | Some options \<Rightarrow>
               (case tmuxremote_coap_get_status (ce_parse_status e) (ce_coap e options) of
                  None \<Rightarrow> (False, 0)
                | Some info \<Rightarrow> (True, ct_activeSessions info)))"

text \<open>A line of the table: index, name, shortened fingerprint and, when probed, the status.\<close>

record agent_line =
  al_index :: nat
  al_name :: string
  al_fingerprint :: string
  al_status :: "string option"

definition agent_status :: "bool \<Rightarrow> bool \<times> int \<Rightarrow> string" where
  "agent_status started probe =
     (if \<not> started \<or> \<not> fst probe then ''offline''
      else if snd probe = 1 then ''1 session''
      else decimal (nat (snd probe)) @ '' sessions'')"

definition agent_line_of :: "(device_bookmark \<Rightarrow> string) option \<Rightarrow> nat \<Rightarrow> device_bookmark \<Rightarrow> agent_line" where
  "agent_line_of status i dev =
     \<lparr>al_index = i, al_name = bm_name dev,
      al_fingerprint = (if bm_fingerprint dev \<noteq> [] then take 12 (bm_fingerprint dev) @ ''...'' else []),
      al_status = map_option (\<lambda>f. f dev) status\<rparr>"

text \<open>The exit code, the files and the table.\<close>

definition tmuxremote_cmd_devices :: "client_env \<Rightarrow> string list \<Rightarrow> files \<Rightarrow> int \<times> files \<times> agent_line list" where
  "tmuxremote_cmd_devices e argv fs =
     (let noProbe = list_ex (\<lambda>a. a = ''--no-probe'') argv
      in case load_config e fs of
           None \<Rightarrow> (1, fs, [])
         | Some config \<Rightarrow>
             if cc_devices config = [] then (0, fs, [])
             else if noProbe
             then (0, fs, map (\<lambda>i. agent_line_of None i (cc_devices config ! i)) [0..<length (cc_devices config)])
             else if \<not> ce_client_new e then (1, fs, [])
             else
               let (key, fs) = tmuxremote_config_load_or_create_key (ce_al e) (ce_create_key e) (ce_disk e) fs config
               in case key of
                    None \<Rightarrow> (1, fs, [])
                  | Some privateKey \<Rightarrow>
                      (0, fs, map (\<lambda>i. agent_line_of
                          (Some (\<lambda>dev. agent_status (ce_thread e i) (agent_probe_thread e privateKey dev)))
                          i (cc_devices config ! i)) [0..<length (cc_devices config)]))"

section \<open>Pairing\<close>

fun pair_options :: "string list \<Rightarrow> string option \<Rightarrow> bool \<Rightarrow> string option \<times> bool" where
  "pair_options [] friendlyName force = (friendlyName, force)"
| "pair_options [a] friendlyName force = (friendlyName, force \<or> a = ''--force'' \<or> a = ''-f'')"
| "pair_options (a # b # as) friendlyName force =
     (if a = ''--name'' then pair_options as (Some b) force
      else pair_options (b # as) friendlyName (force \<or> a = ''--force'' \<or> a = ''-f''))"

definition pair_confirmed :: "client_env \<Rightarrow> client_config \<Rightarrow> pairing_info \<Rightarrow> bool \<Rightarrow> bool" where
  "pair_confirmed e config info force \<longleftrightarrow>
     tmuxremote_config_find_device config (pi_deviceId info) = None \<or> force \<or>
     ce_answer e = Some CHR ''y'' \<or> ce_answer e = Some CHR ''Y''"

text \<open>The exchange with the agent: from the connection to the invitation.\<close>

definition pair_exchange ::
  "client_env \<Rightarrow> pairing_info \<Rightarrow> string \<Rightarrow> (bool \<times> client_act list) option" where
  "pair_exchange e info privateKey =
     (case connect_with e (pi_productId info) (pi_deviceId info) privateKey (pi_sct info) of
        None \<Rightarrow> Some (False, [])
      | Some options \<Rightarrow>
          if \<not> ce_authenticate e (pi_username info) (pi_password info) then Some (False, [Connected options])
          else map_option (\<lambda>ok. (ok, [Connected options, Authenticated (pi_username info) (pi_password info),
                                      Requested ''/iam/pairing/password-invite'' ok]))
                 (tmuxremote_coap_pair_password_invite (ce_enc e) (ce_coap e options) (pi_username info)))"

definition tmuxremote_cmd_pair :: "client_env \<Rightarrow> string list \<Rightarrow> files \<Rightarrow> command_result option" where
  "tmuxremote_cmd_pair e args fs =
     (case args of
        pairingStr # rest \<Rightarrow>
          let (friendlyName, force) = pair_options rest None False
          in (case tmuxremote_parse_pairing_string (ce_al e) (Some pairingStr) of
                None \<Rightarrow> Some (1, fs, [])
              | Some info \<Rightarrow>
                  (case load_config e fs of
                     None \<Rightarrow> Some (1, fs, [])
                   | Some config \<Rightarrow>
                       if \<not> pair_confirmed e config info force then Some (1, fs, [])
                       else if \<not> ce_client_new e then Some (1, fs, [])
                       else
                         let (key, fs) = tmuxremote_config_load_or_create_key (ce_al e) (ce_create_key e) (ce_disk e)
                                           fs config
                         in case key of
                              None \<Rightarrow> Some (1, fs, [])
                            | Some privateKey \<Rightarrow>
                                if \<not> ce_connection_new e then Some (1, fs, [])
                                else (case pair_exchange e info privateKey of
                                        None \<Rightarrow> None
                                      | Some (False, acts) \<Rightarrow> Some (1, fs, acts)
                                      | Some (True, acts) \<Rightarrow>
                                          let (saved, fs, config) = save_pairing (ce_print e) (ce_disk e) fs config info
                                                friendlyName (ce_fingerprint e)
                                          in Some (0, fs, acts))))
      | [] \<Rightarrow> Some (1, fs, []))"

section \<open>The main program\<close>

fun global_options ::
  "string list \<Rightarrow> string option \<Rightarrow> string option \<Rightarrow> string list \<Rightarrow> string option \<times> string option \<times> string list" where
  "global_options [] logFile level kept = (logFile, level, kept)"
| "global_options [a] logFile level kept = (logFile, level, kept @ [a])"
| "global_options (a # b # as) logFile level kept =
     (if a = ''--log-file'' then global_options as (Some b) level kept
      else if a = ''--nabto-log-level'' then global_options as logFile (Some b) kept
      else global_options (b # as) logFile level (kept @ [a]))"

text \<open>The arguments after the program's name; printing is left out.\<close>

definition client_main :: "client_env \<Rightarrow> string list \<Rightarrow> files \<Rightarrow> command_result option" where
  "client_main e argv fs =
     (if \<not> ce_al e (8 * (length argv + 1)) then Some (1, fs, [])
      else
        let (logFile, level, args) = global_options argv None None []
        in if (case logFile of Some path \<Rightarrow> \<not> ce_log_open e path | None \<Rightarrow> False) then Some (1, fs, [])
           else case args of
                  [] \<Rightarrow> Some (1, fs, [])
                | command # rest \<Rightarrow>
                    if command = ''pair'' then tmuxremote_cmd_pair e rest fs
                    else if command = ''attach'' \<or> command = ''a'' then tmuxremote_cmd_attach e rest fs
                    else if command \<in> {''create'', ''new'', ''new-session'', ''c'', ''n''}
                    then tmuxremote_cmd_new_session e rest fs
                    else if command = ''sessions'' then tmuxremote_cmd_sessions e rest fs
                    else if command = ''agents'' \<or> command = ''devices''
                    then (case tmuxremote_cmd_devices e (command # rest) fs of (ret, fs, _) \<Rightarrow> Some (ret, fs, []))
                    else if command = ''rename''
                    then (case rest of
                            currentName # newName # _ \<Rightarrow>
                              (case tmuxremote_cmd_rename (ce_al e) (ce_parse e) (ce_print e) (ce_disk e) fs
                                      (tmuxremote_config_init (ce_baseDir e) (ce_home e)) currentName newName of
                                 (ret, fs) \<Rightarrow> Some (ret, fs, []))
                          | _ \<Rightarrow> Some (1, fs, []))
                    else if command \<in> {''--help'', ''-h'', ''--version'', ''-v''} then Some (0, fs, [])
                    else Some (1, fs, []))"

section \<open>Lemmas\<close>

subsection \<open>Files\<close>

lemma write_file_elsewhere: "write_file dk fs path content = (ok, fs') \<Longrightarrow> p \<noteq> path \<Longrightarrow> fs' p = fs p"
  by (auto simp: write_file_def Let_def split: if_splits)

lemma key_file_only:
  assumes "tmuxremote_config_load_or_create_key al ck dk fs c = (k, fs')" and "p \<noteq> cc_keyFile c"
  shows "fs' p = fs p"
  using assms write_file_elsewhere [OF _ assms(2)]
  by (auto simp: tmuxremote_config_load_or_create_key_def split: option.splits prod.splits)

lemma connect_keeps:
  assumes "connect_to_device e name c fs = (r, fs')" and "p \<noteq> cc_keyFile c"
  shows "fs' p = fs p"
  using assms key_file_only [OF _ assms(2)]
  by (auto simp: connect_to_device_def Let_def split: option.splits if_splits prod.splits)

lemma attach_and_relay_keeps: "attach_and_relay e options s fs acts = Some (ret, fs', acts') \<Longrightarrow> fs' = fs"
  by (auto simp: attach_and_relay_def split: option.splits bool.splits prod.splits)

text \<open>These commands only write the client's key.\<close>

lemma cmd_attach_keeps:
  assumes "tmuxremote_cmd_attach e args fs = Some (ret, fs', acts)" and "load_config e fs = Some c"
    and "p \<noteq> cc_keyFile c"
  shows "fs' p = fs p"
  using assms connect_keeps [OF _ assms(3)] attach_and_relay_keeps
  by (fastforce simp: tmuxremote_cmd_attach_def Let_def split: list.splits option.splits prod.splits)

lemma cmd_new_session_keeps:
  assumes "tmuxremote_cmd_new_session e args fs = Some (ret, fs', acts)" and "load_config e fs = Some c"
    and "p \<noteq> cc_keyFile c"
  shows "fs' p = fs p"
  using assms connect_keeps [OF _ assms(3)] attach_and_relay_keeps
  by (fastforce simp: tmuxremote_cmd_new_session_def Let_def split: list.splits option.splits prod.splits bool.splits)

lemma cmd_sessions_keeps:
  assumes "tmuxremote_cmd_sessions e args fs = Some (ret, fs', acts)" and "load_config e fs = Some c"
    and "p \<noteq> cc_keyFile c"
  shows "fs' p = fs p"
  using assms key_file_only [OF _ assms(3)]
  by (fastforce simp: tmuxremote_cmd_sessions_def Let_def
      split: list.splits option.splits prod.splits bool.splits if_splits)

lemma cmd_devices_keeps:
  assumes "tmuxremote_cmd_devices e args fs = (ret, fs', lines)" and "load_config e fs = Some c"
    and "p \<noteq> cc_keyFile c"
  shows "fs' p = fs p"
  using assms key_file_only [OF _ assms(3)]
  by (auto simp: tmuxremote_cmd_devices_def Let_def split: option.splits prod.splits if_splits)

lemma cmd_pair_saves:
  assumes "tmuxremote_cmd_pair e args fs = Some (ret, fs', acts)" and "load_config e fs = Some c"
    and "p \<noteq> cc_keyFile c" and "fs' p \<noteq> fs p"
  shows "\<exists>options user pwd. acts = [Connected options, Authenticated user pwd,
    Requested ''/iam/pairing/password-invite'' True]"
  using assms key_file_only [OF _ assms(3)]
  by (auto simp: tmuxremote_cmd_pair_def pair_exchange_def Let_def
      split: list.splits option.splits prod.splits if_splits bool.splits)

subsection \<open>The key and the list are found again\<close>

lemma write_file_ok: "write_file dk fs path content = (True, fs') \<Longrightarrow> fs' = fs(path \<mapsto> content)"
  by (auto simp: write_file_def Let_def split: if_splits)

lemma key_found_again:
  assumes "tmuxremote_config_load_or_create_key mem_ok ck dk fs c = (Some k, fs1)" and "k \<noteq> []" "NUL \<notin> set k"
    and "fs2 (cc_keyFile c') = fs1 (cc_keyFile c')" and "cc_keyFile c' = cc_keyFile c"
  shows "tmuxremote_config_load_or_create_key mem_ok ck' dk' fs2 c' = (Some k, fs2)"
proof (cases "read_file mem_ok fs (cc_keyFile c)")
  case (Some key)
  with assms have "fs2 (cc_keyFile c') = fs (cc_keyFile c)" "key = k"
    by (auto simp: tmuxremote_config_load_or_create_key_def)
  with Some assms(5) show ?thesis by (simp add: tmuxremote_config_load_or_create_key_def read_file_def)
next
  case None
  with assms(1) have "write_file dk fs (cc_keyFile c) k = (True, fs1)"
    by (auto simp: tmuxremote_config_load_or_create_key_def strdup_def split: option.splits prod.splits if_splits)
  from write_file_ok [OF this] assms(2-5) show ?thesis
    by (simp add: tmuxremote_config_load_or_create_key_def read_file_def c_string_id)
qed

lemma load_devices_any: "tmuxremote_config_load_devices al parse fs (c\<lparr>cc_devices := ds\<rparr>) = tmuxremote_config_load_devices al parse fs c"
  by (simp add: tmuxremote_config_load_devices_def)

lemma load_devices_paths:
  "\<exists>ds. snd (tmuxremote_config_load_devices al parse fs c) = c\<lparr>cc_devices := ds\<rparr>"
  by (auto simp: tmuxremote_config_load_devices_def Let_def split: option.splits cjson.splits)

lemma load_config_again:
  assumes "load_config e fs = Some c" and "ce_al e = mem_ok"
    and "tmuxremote_config_load_devices mem_ok (ce_parse e) fs' c = (True, c')"
  shows "load_config e fs' = Some c'"
proof -
  from assms(1) obtain c0 where c0: "tmuxremote_config_init (ce_baseDir e) (ce_home e) = Some c0"
    "c = snd (tmuxremote_config_load_devices (ce_al e) (ce_parse e) fs c0)"
    by (auto simp: load_config_def)
  with load_devices_paths [of "ce_al e" "ce_parse e" fs c0] obtain ds where "c = c0\<lparr>cc_devices := ds\<rparr>" by auto
  with assms(2,3) c0(1) show ?thesis by (simp add: load_config_def load_devices_any)
qed

subsection \<open>The relay\<close>

definition typed :: "relay_turn list \<Rightarrow> char list" where
  "typed ts = concat (map (\<lambda>t. case rt_input t of None \<Rightarrow> [] | Some s \<Rightarrow> s) ts)"

definition sent :: "client_act list \<Rightarrow> char list" where
  "sent acts = concat (map (\<lambda>a. case a of SentInput s \<Rightarrow> s | _ \<Rightarrow> []) acts)"

lemma sent_append [simp]: "sent (xs @ ys) = sent xs @ sent ys" and sent_Nil [simp]: "sent [] = []"
  and sent_Input [simp]: "sent (SentInput s # xs) = s @ sent xs"
  by (simp_all add: sent_def)

lemma sent_resizes [simp]:
  "sent (case tmuxremote_terminal_get_size w of (True, c, r) \<Rightarrow> [Resized c r] | _ \<Rightarrow> []) = []"
  by (auto simp: sent_def split: prod.splits bool.splits)

lemma relay_loop_prefix: "prefix (sent (relay_loop ts)) (typed ts)"
proof (induction ts)
  case (Cons t ts)
  have step: "typed (t # ts) = (case rt_input t of None \<Rightarrow> [] | Some s \<Rightarrow> s) @ typed ts" by (simp add: typed_def)
  show ?case using Cons by (auto simp: step Let_def split: option.splits)
qed (simp add: typed_def)

definition turn_clear :: "relay_turn \<Rightarrow> bool" where
  "turn_clear t \<longleftrightarrow> \<not> rt_done t \<and> rt_written t \<and> rt_input t \<noteq> Some []"

lemma relay_loop_all: "list_all turn_clear ts \<Longrightarrow> sent (relay_loop ts) = typed ts"
  by (induction ts) (auto simp: turn_clear_def typed_def Let_def split: option.splits)

text \<open>The client's reader is the agent's, with a descriptor that is always open.\<close>

definition as_stream_turn :: "reader_turn \<Rightarrow> stream_turn" where
  "as_stream_turn t = \<lparr>st_closing = ct_done t, st_future = True, st_read = ct_read t, st_fd_open = True,
     st_writes = ct_writes t\<rparr>"

lemma client_reader_is_stream_reader:
  "client_reader_thread ts out = stream_reader_thread (map as_stream_turn ts) out"
  by (induction ts arbitrary: out) (auto simp: as_stream_turn_def split: option.splits prod.splits)

section \<open>Properties\<close>

text \<open>
  C26: only a completed pairing, or a rename, changes the saved agents.  Whatever command is run
  and whatever fails on the way: when the file of saved agents differs afterwards, the command was
  \<open>rename\<close>, or it had connected to the agent, authenticated with the password of the invitation
  and had the pairing accepted.
\<close>

theorem saved_agents_change_only_by_pairing:
  assumes "client_main e argv fs = Some (ret, fs', acts)" and "load_config e fs = Some c"
    and "cc_devicesFile c \<noteq> cc_keyFile c" and "fs' (cc_devicesFile c) \<noteq> fs (cc_devicesFile c)"
  shows "(\<exists>options user pwd. acts = [Connected options, Authenticated user pwd,
      Requested ''/iam/pairing/password-invite'' True]) \<or>
    (\<exists>rest. snd (snd (global_options argv None None [])) = ''rename'' # rest)"
proof -
  obtain logFile level args where g: "global_options argv None None [] = (logFile, level, args)" by (metis prod_cases3)
  note keeps = cmd_attach_keeps [OF _ assms(2,3)] cmd_new_session_keeps [OF _ assms(2,3)]
    cmd_sessions_keeps [OF _ assms(2,3)] cmd_devices_keeps [OF _ assms(2,3)]
  show ?thesis
  proof (cases args)
    case Nil
    with assms(1,4) g show ?thesis by (auto simp: client_main_def split: if_splits)
  next
    case (Cons command rest)
    show ?thesis
    proof (cases "command = ''pair'' \<or> command = ''rename''")
      case True
      with assms(1,4) g Cons cmd_pair_saves [OF _ assms(2,3), of _ ret fs' acts] show ?thesis
        by (auto simp: client_main_def split: if_splits)
    next
      case False
      with assms(1,4) g Cons keeps show ?thesis
        by (auto simp: client_main_def split: if_splits prod.splits)
    qed
  qed
qed

text \<open>
  C27: a paired agent can be reached.  After a successful pairing with an agent the client did not
  know, and with a disk that takes the list, connecting to its device id uses exactly the
  options of the pairing connection: the ids and the token of the invitation, and the same client key.
\<close>

theorem paired_agent_is_reached:
  assumes "tmuxremote_cmd_pair e [str] fs = Some (0, fs', acts)"
    and "tmuxremote_parse_pairing_string mem_ok (Some str) = Some info" and "load_config e fs = Some c"
    and "tmuxremote_config_find_device c (pi_deviceId info) = None"
    and "\<And>fs. fst (save_pairing (ce_print e) (ce_disk e) fs c info None (ce_fingerprint e))"
    and "ce_al e = mem_ok" and "json_faithful (ce_parse e) (ce_print e)" and "cc_devicesFile c \<noteq> cc_keyFile c"
    and "\<And>k fs1. tmuxremote_config_load_or_create_key mem_ok (ce_create_key e) (ce_disk e) fs c = (Some k, fs1) \<Longrightarrow>
           k \<noteq> [] \<and> NUL \<notin> set k"
    and "length (pi_productId info) < 64" "length (pi_deviceId info) < 64" "length (pi_sct info) < 64"
  shows "\<exists>options c'. hd acts = Connected options \<and> load_config e fs' = Some c' \<and>
    connect_to_device e (pi_deviceId info) c' fs' = (Some options, fs')"
proof -
  obtain k fs1 where key: "tmuxremote_config_load_or_create_key mem_ok (ce_create_key e) (ce_disk e) fs c = (Some k, fs1)"
    and new: "ce_client_new e" "ce_connection_new e"
    and ex: "pair_exchange e info k = Some (True, acts)"
    and fs': "fs' = fst (snd (save_pairing (ce_print e) (ce_disk e) fs1 c info None (ce_fingerprint e)))"
    using assms(1-3,6)
    by (auto simp: tmuxremote_cmd_pair_def Let_def split: option.splits prod.splits if_splits bool.splits)
  obtain c' where save: "save_pairing (ce_print e) (ce_disk e) fs1 c info None (ce_fingerprint e) = (True, fs', c')"
    using assms(5) [of fs1] fs' by (metis prod.collapse)
  have wf: "wf_config c" using assms(3) load_devices_wf by (auto simp: load_config_def)
  note saved = save_pairing_appends [OF assms(7) wf assms(11,4) save]
  from ex obtain options where opt: "connect_with e (pi_productId info) (pi_deviceId info) k (pi_sct info) = Some options"
    "hd acts = Connected options"
    by (auto simp: pair_exchange_def split: option.splits if_splits)
  have c': "c' = c\<lparr>cc_devices := cc_devices c'\<rparr>"
    using save assms(4) by (auto simp: save_pairing_def tmuxremote_config_add_device_def Let_def split: if_splits prod.splits)
  then have paths: "cc_keyFile c' = cc_keyFile c" by (metis client_config.select_convs(2) client_config.surjective client_config.update_convs(4))
  have "fs' (cc_keyFile c) = fs1 (cc_keyFile c)"
    using save assms(4,8) write_file_elsewhere
    by (auto simp: save_pairing_def tmuxremote_config_add_device_def tmuxremote_config_save_devices_def Let_def
        split: if_splits prod.splits option.splits)
  with paths have "tmuxremote_config_load_or_create_key mem_ok (ce_create_key e) (ce_disk e) fs' c' = (Some k, fs')"
    using key_found_again [OF key] assms(9) [OF key] by simp
  moreover have "bm_productId b = pi_productId info \<and> bm_deviceId b = pi_deviceId info \<and> bm_sct b = pi_sct info"
    if "b = new_bookmark info None (ce_fingerprint e)" for b
    using that assms(10-12) by (simp add: new_bookmark_def TMUXREMOTE_MAX_NAME_LEN_def strncpy_term_id)
  ultimately have "connect_to_device e (pi_deviceId info) c' fs' = (Some options, fs')"
    using saved opt(1) new assms(6) by (simp add: connect_to_device_def nth_append)
  with opt(2) load_config_again [OF assms(3,6)] saved show ?thesis by blast
qed

text \<open>A client with an empty home directory, an agent that accepts everything, and an invitation.\<close>

definition invited_agent :: device_bookmark where
  "invited_agent = \<lparr>bm_name = ''de'', bm_productId = ''pr'', bm_deviceId = ''de'', bm_fingerprint = [], bm_sct = ''tok''\<rparr>"

definition laptop :: client_env where
  "laptop = \<lparr>ce_al = mem_ok, ce_baseDir = Some ''d'', ce_home = None,
     ce_parse = (\<lambda>s. if s = ''x'' then Some (JObject [(''devices'', JArray [item_of_bookmark invited_agent])]) else None),
     ce_print = (\<lambda>j. if j = JObject [(''devices'', JArray [item_of_bookmark invited_agent])] then Some ''x'' else None),
     ce_print_options = (\<lambda>_. Some ''o''), ce_disk = good_disk, ce_log_open = (\<lambda>_. True), ce_client_new = True,
     ce_create_key = Some ''k'', ce_connection_new = True, ce_set_options = (\<lambda>_. True), ce_connect = (\<lambda>_. True),
     ce_authenticate = (\<lambda>_ _. True), ce_fingerprint = None, ce_enc = size_only,
     ce_coap = (\<lambda>_ _ _. Some (\<lambda>_. Some \<lparr>cr_status = 201, cr_payload = None\<rparr>)), ce_parse_sessions = (\<lambda>_. NoArray),
     ce_parse_status = (\<lambda>_. None), ce_answer = None, ce_winsize = None, ce_pid = 7, ce_stream_new = True,
     ce_stream_open = True, ce_raw = True, ce_thread = (\<lambda>_. True), ce_turns = []\<rparr>"

definition invitation :: string where
  "invitation = ''p=pr,d=de,u=bob,pwd=pw,sct=tok''"

definition invitation_info :: pairing_info where
  "invitation_info = \<lparr>pi_productId = ''pr'', pi_deviceId = ''de'', pi_username = ''bob'', pi_password = ''pw'', pi_sct = ''tok''\<rparr>"

definition empty_config :: client_config where
  "empty_config = \<lparr>cc_configDir = ''d'', cc_keyFile = ''d/client.key'', cc_devicesFile = ''d/devices.json'', cc_devices = []\<rparr>"

lemma laptop_config: "load_config laptop Map.empty = Some empty_config"
  by (simp add: load_config_def laptop_def tmuxremote_config_init_def path_512_def tmuxremote_config_load_devices_def
      read_file_def empty_config_def)

lemma invitation_parses: "tmuxremote_parse_pairing_string mem_ok (Some invitation) = Some invitation_info"
  by code_simp

lemma laptop_unknown: "tmuxremote_config_find_device empty_config (pi_deviceId invitation_info) = None"
  by code_simp

lemma laptop_saves:
  "save_pairing (ce_print laptop) (ce_disk laptop) fs empty_config invitation_info None (ce_fingerprint laptop) =
     (True, fs(''d/devices.json'' \<mapsto> ''x''), empty_config\<lparr>cc_devices := [invited_agent]\<rparr>)"
proof -
  have "new_bookmark invitation_info None None = invited_agent"
    by (simp add: new_bookmark_def invitation_info_def invited_agent_def strncpy_term_def TMUXREMOTE_MAX_NAME_LEN_def)
  with laptop_unknown show ?thesis
    by (simp add: save_pairing_def laptop_def tmuxremote_config_add_device_def tmuxremote_config_save_devices_def
        write_good_disk empty_config_def TMUXREMOTE_MAX_DEVICES_def)
qed

lemma laptop_pairs:
  "tmuxremote_cmd_pair laptop [invitation] Map.empty =
     Some (0, Map.empty(''d/client.key'' \<mapsto> ''k'', ''d/devices.json'' \<mapsto> ''x''),
       [Connected ''o'', Authenticated ''bob'' ''pw'', Requested ''/iam/pairing/password-invite'' True])"
proof -
  have key: "tmuxremote_config_load_or_create_key mem_ok (Some ''k'') good_disk Map.empty empty_config =
      (Some ''k'', Map.empty(''d/client.key'' \<mapsto> ''k''))"
    by (simp add: tmuxremote_config_load_or_create_key_def read_file_def write_good_disk empty_config_def)
  have ex: "pair_exchange laptop invitation_info ''k'' = Some (True, [Connected ''o'', Authenticated ''bob'' ''pw'',
      Requested ''/iam/pairing/password-invite'' True])"
    by (simp add: pair_exchange_def connect_with_def tmuxremote_build_connection_options_def laptop_def
        tmuxremote_coap_pair_password_invite_def post_request_def encode_request_def size_only_def cbor_size_def
        head_size_def invitation_info_def)
  have "ce_al laptop = mem_ok" "ce_create_key laptop = Some ''k''" "ce_disk laptop = good_disk" "ce_client_new laptop"
    "ce_connection_new laptop" by (simp_all add: laptop_def)
  with key ex laptop_saves invitation_parses laptop_config laptop_unknown show ?thesis
    by (simp add: tmuxremote_cmd_pair_def pair_confirmed_def)
qed

theorem saved_agents_change_only_by_pairing_witness:
  "\<exists>fs' acts. client_main laptop [''pair'', invitation] Map.empty = Some (0, fs', acts) \<and>
     fs' ''d/devices.json'' \<noteq> None \<and>
     (\<exists>options user pwd. acts = [Connected options, Authenticated user pwd,
        Requested ''/iam/pairing/password-invite'' True])"
proof -
  have m: "client_main laptop [''pair'', invitation] Map.empty = Some (0, Map.empty(''d/client.key'' \<mapsto> ''k'',
      ''d/devices.json'' \<mapsto> ''x''), [Connected ''o'', Authenticated ''bob'' ''pw'', Requested ''/iam/pairing/password-invite'' True])"
    using laptop_pairs by (simp add: client_main_def) (simp add: laptop_def)
  from saved_agents_change_only_by_pairing [OF m laptop_config] m show ?thesis by (simp add: empty_config_def)
qed

theorem paired_agent_is_reached_witness:
  "\<exists>options c'. load_config laptop (Map.empty(''d/client.key'' \<mapsto> ''k'', ''d/devices.json'' \<mapsto> ''x'')) = Some c' \<and>
     fst (connect_to_device laptop ''de'' c' (Map.empty(''d/client.key'' \<mapsto> ''k'', ''d/devices.json'' \<mapsto> ''x''))) = Some options"
proof -
  have json: "json_faithful (ce_parse laptop) (ce_print laptop)" by (simp add: laptop_def json_faithful_def)
  have k: "k \<noteq> [] \<and> NUL \<notin> set k"
    if "tmuxremote_config_load_or_create_key mem_ok (ce_create_key laptop) (ce_disk laptop) Map.empty empty_config = (Some k, fs1)"
    for k fs1
    using that by (auto simp: laptop_def tmuxremote_config_load_or_create_key_def read_file_def strdup_def write_good_disk)
  have al: "ce_al laptop = mem_ok" by (simp add: laptop_def)
  have d: "pi_deviceId invitation_info = ''de''" by (simp add: invitation_info_def)
  from paired_agent_is_reached [OF laptop_pairs invitation_parses laptop_config laptop_unknown _ al json _ k]
    laptop_saves
  show ?thesis unfolding d by (force simp: empty_config_def invitation_info_def)
qed

end
