(* ===== verification/Child_Process.thy ===== *)
theory Child_Process
  imports Tmux
begin

text \<open>
  How the agent waits for a tmux child (\<open>monotonic_ms\<close>, \<open>terminate_process\<close>, \<open>waitpid_timeout\<close> and the
  read loop of \<open>tmuxremote_tmux_list_sessions\<close> in \<open>agent/src/tmuxremote_tmux.c\<close>).

  The clock and the results of \<open>waitpid\<close>, \<open>poll\<close> and \<open>read\<close> are functions from the number of the
  iteration.  The loops are partial functions: \<^const>\<open>None\<close> is a loop that does not end, and the
  properties show that it does not happen when time passes.
\<close>

definition TMUXREMOTE_TMUX_TIMEOUT_MS :: int where "TMUXREMOTE_TMUX_TIMEOUT_MS = 2000"
definition TMUXREMOTE_TMUX_TERMINATE_GRACE_MS :: int where "TMUXREMOTE_TMUX_TERMINATE_GRACE_MS = 200"

section \<open>Waiting\<close>

text \<open>A non-blocking \<open>waitpid\<close>: the child is still running, was reaped, or the call failed.\<close>

datatype wait_result = NotYet | Reaped wait_status | WaitFailed

datatype proc_act = SigTerm | SigKill | Waited wait_result

record wait_env =
  we_start :: int
  we_now :: "nat \<Rightarrow> int"
  we_wait :: "nat \<Rightarrow> wait_result"
  we_term_start :: int
  we_term_now :: "nat \<Rightarrow> int"
  we_term_wait :: "nat \<Rightarrow> wait_result"
  we_blocking :: wait_result
  we_last :: wait_result

text \<open>\<open>monotonic_ms\<close> of the seconds and nanoseconds of \<open>CLOCK_MONOTONIC\<close>.\<close>

definition monotonic_ms :: "int \<Rightarrow> int \<Rightarrow> int" where
  "monotonic_ms tv_sec tv_nsec = tv_sec * 1000 + tv_nsec div 1000000"

text \<open>The loop of \<open>terminate_process\<close>: whether the child was reaped in time, and the calls.\<close>

partial_function (option) terminate_loop ::
  "(nat \<Rightarrow> int) \<Rightarrow> (nat \<Rightarrow> wait_result) \<Rightarrow> int \<Rightarrow> nat \<Rightarrow> proc_act list \<Rightarrow> (bool \<times> proc_act list) option" where
  "terminate_loop now wait deadline i acts =
     (if \<not> now i < deadline then Some (False, acts)
      else case wait i of
             Reaped st \<Rightarrow> Some (True, acts @ [Waited (Reaped st)])
           | w \<Rightarrow> terminate_loop now wait deadline (Suc i) (acts @ [Waited w]))"

definition terminate_process :: "wait_env \<Rightarrow> int \<Rightarrow> proc_act list option" where
  "terminate_process e pid =
     (if pid \<le> 0 then Some []
      else case terminate_loop (we_term_now e) (we_term_wait e)
                  (we_term_start e + TMUXREMOTE_TMUX_TERMINATE_GRACE_MS) 0 [SigTerm] of
             None \<Rightarrow> None
           | Some (reaped, acts) \<Rightarrow>
               Some (if reaped then acts else acts @ [SigKill, Waited (we_blocking e)]))"

datatype wait_end = WaitEnded wait_status | WaitBroken | WaitTimeout

partial_function (option) waitpid_loop ::
  "(nat \<Rightarrow> int) \<Rightarrow> (nat \<Rightarrow> wait_result) \<Rightarrow> int \<Rightarrow> nat \<Rightarrow> proc_act list \<Rightarrow> (wait_end \<times> proc_act list) option" where
  "waitpid_loop now wait deadline i acts =
     (if \<not> now i < deadline then Some (WaitTimeout, acts)
      else case wait i of
             Reaped st \<Rightarrow> Some (WaitEnded st, acts @ [Waited (Reaped st)])
           | WaitFailed \<Rightarrow> Some (WaitBroken, acts @ [Waited WaitFailed])
           | NotYet \<Rightarrow> waitpid_loop now wait deadline (Suc i) (acts @ [Waited NotYet]))"

text \<open>The status, \<^const>\<open>None\<close> for a result of \<open>false\<close>, and the calls.\<close>

definition waitpid_timeout :: "wait_env \<Rightarrow> int \<Rightarrow> int \<Rightarrow> (wait_status option \<times> proc_act list) option" where
  "waitpid_timeout e pid timeoutMs =
     (case waitpid_loop (we_now e) (we_wait e) (we_start e + timeoutMs) 0 [] of
        None \<Rightarrow> None
      | Some (WaitEnded st, acts) \<Rightarrow> Some (Some st, acts)
      | Some (WaitBroken, acts) \<Rightarrow> Some (None, acts)
      | Some (WaitTimeout, acts) \<Rightarrow>
          map_option (\<lambda>acts'. (case we_last e of Reaped st \<Rightarrow> Some st | _ \<Rightarrow> None, acts @ acts' @ [Waited (we_last e)]))
            (terminate_process e pid))"

section \<open>Reading the output\<close>

text \<open>
  An iteration of the read loop: \<open>poll\<close> times out, is interrupted or fails, reports nothing that is
  handled, or the pipe is read.
\<close>

datatype read_result = ReadBytes "char list" | ReadEnd | ReadAgain | ReadError

datatype poll_result = PollTimeout | PollInterrupted | PollError | PollOther | PollRead read_result

definition TMUX_BUFFER :: nat where "TMUX_BUFFER = 4096"

text \<open>The bytes read; \<open>read\<close> is asked for no more than there is room for.\<close>

partial_function (option) read_output ::
  "(nat \<Rightarrow> int) \<Rightarrow> (nat \<Rightarrow> poll_result) \<Rightarrow> int \<Rightarrow> nat \<Rightarrow> char list \<Rightarrow> char list option" where
  "read_output now poll deadline i buf =
     (if \<not> (length buf < TMUX_BUFFER - 1 \<and> now i < deadline) then Some buf
      else case poll i of
             PollTimeout \<Rightarrow> Some buf
           | PollInterrupted \<Rightarrow> read_output now poll deadline (Suc i) buf
           | PollError \<Rightarrow> Some buf
           | PollOther \<Rightarrow> read_output now poll deadline (Suc i) buf
           | PollRead (ReadBytes bs) \<Rightarrow>
               (let n = take (TMUX_BUFFER - length buf - 1) bs
                in if n = [] then Some buf else read_output now poll deadline (Suc i) (buf @ n))
           | PollRead ReadEnd \<Rightarrow> Some buf
           | PollRead ReadAgain \<Rightarrow> read_output now poll deadline (Suc i) buf
           | PollRead ReadError \<Rightarrow> Some buf)"

text \<open>
  A run of tmux as the operations of \<open>Tmux\<close> see it: \<open>pipe\<close> and \<open>fork\<close> succeed with a child \<open>pid\<close>, the
  output is read when it is asked for, and the child is waited for.
\<close>

record tmux_env =
  te_pipe :: bool
  te_fork :: "int option"
  te_read_start :: int
  te_read_now :: "nat \<Rightarrow> int"
  te_poll :: "nat \<Rightarrow> poll_result"
  te_wait :: wait_env

definition run_tmux :: "tmux_env \<Rightarrow> bool \<Rightarrow> tmux_run option" where
  "run_tmux e with_output =
     (case (if with_output \<and> \<not> te_pipe e then None else te_fork e) of
        None \<Rightarrow> Some \<lparr>tr_started = False, tr_output = [], tr_status = None\<rparr>
      | Some pid \<Rightarrow>
          (case (if with_output
                 then read_output (te_read_now e) (te_poll e) (te_read_start e + TMUXREMOTE_TMUX_TIMEOUT_MS) 0 []
                 else Some []) of
             None \<Rightarrow> None
           | Some out \<Rightarrow>
               map_option (\<lambda>(status, acts). \<lparr>tr_started = True, tr_output = out, tr_status = status\<rparr>)
                 (waitpid_timeout (te_wait e) pid TMUXREMOTE_TMUX_TIMEOUT_MS)))"

section \<open>Lemmas\<close>

text \<open>Sleeping 10 ms between two readings of a clock that starts at \<open>start\<close>.\<close>

definition sleeps :: "int \<Rightarrow> (nat \<Rightarrow> int) \<Rightarrow> bool" where
  "sleeps start now \<longleftrightarrow> start \<le> now 0 \<and> (\<forall>k. now k + 10 \<le> now (Suc k))"

lemma sleeps_reading: "sleeps start now \<Longrightarrow> start + 10 * int k \<le> now k"
proof (induction k)
  case (Suc k)
  then have "now k + 10 \<le> now (Suc k)" by (simp add: sleeps_def)
  with Suc show ?case by simp
qed (simp add: sleeps_def)

definition reaps :: "proc_act list \<Rightarrow> wait_status list" where
  "reaps acts = concat (map (\<lambda>a. case a of Waited (Reaped st) \<Rightarrow> [st] | _ \<Rightarrow> []) acts)"

lemma reaps_simps [simp]:
  "reaps [] = []" "reaps (xs @ ys) = reaps xs @ reaps ys" "reaps (Waited (Reaped st) # xs) = st # reaps xs"
  "reaps (Waited NotYet # xs) = reaps xs" "reaps (Waited WaitFailed # xs) = reaps xs"
  "reaps (SigTerm # xs) = reaps xs" "reaps (SigKill # xs) = reaps xs"
  by (simp_all add: reaps_def)

text \<open>The loops end after one poll for each started 10 ms.\<close>

lemma one_more_poll: "10 * len \<le> d - 10 * Suc i + 9 \<Longrightarrow> 10 * i < d \<Longrightarrow> 10 * Suc len \<le> d - 10 * i + (9 :: nat)"
  by arith

lemma fewer_polls: "10 * i < d \<Longrightarrow> 10 * i < d \<and> d - 10 * Suc i < d - 10 * (i :: nat)"
  by arith

lemma before_deadline:
  "sleeps start now \<Longrightarrow> now i < deadline \<Longrightarrow> 10 * i < nat (deadline - start) \<and>
     nat (deadline - start) - 10 * Suc i < nat (deadline - start) - 10 * i"
proof -
  assume "sleeps start now" "now i < deadline"
  with sleeps_reading [of start now i] have "10 * i < nat (deadline - start)" by (simp add: zless_nat_eq_int_zless)
  then show ?thesis by (rule fewer_polls)
qed

lemma terminate_loop_ends:
  assumes "sleeps start now"
  shows "\<exists>r acts'. terminate_loop now wait deadline i acts = Some (r, acts @ acts') \<and>
    10 * length acts' \<le> nat (deadline - start) - 10 * i + 9 \<and> SigTerm \<notin> set acts' \<and> SigKill \<notin> set acts' \<and>
    (if r then \<exists>st. reaps acts' = [st] else reaps acts' = [])"
proof (induction "nat (deadline - start) - 10 * i" arbitrary: i acts rule: less_induct)
  case less
  show ?case
  proof (cases "now i < deadline")
    case False
    then show ?thesis by (subst terminate_loop.simps) (auto intro!: exI [of _ False])
  next
    case True
    note bound = before_deadline [OF assms True]
    show ?thesis
    proof (cases "\<exists>st. wait i = Reaped st")
      case reaped: True
      with True bound show ?thesis
        by (subst terminate_loop.simps) (auto intro!: exI [of _ True] exI [of _ "[Waited (wait i)]"])
    next
      case running: False
      from less [OF conjunct2 [OF bound], of "acts @ [Waited (wait i)]"] obtain r acts'
        where IH: "terminate_loop now wait deadline (Suc i) (acts @ [Waited (wait i)]) = Some (r, (acts @ [Waited (wait i)]) @ acts')"
          "10 * length acts' \<le> nat (deadline - start) - 10 * Suc i + 9" "SigTerm \<notin> set acts'" "SigKill \<notin> set acts'"
          "if r then \<exists>st. reaps acts' = [st] else reaps acts' = []" by blast
      moreover have "terminate_loop now wait deadline i acts = terminate_loop now wait deadline (Suc i) (acts @ [Waited (wait i)])"
        using True running by (subst terminate_loop.simps) (cases "wait i"; simp)
      moreover have "reaps (Waited (wait i) # acts') = reaps acts'" using running by (cases "wait i") auto
      ultimately show ?thesis
        using one_more_poll [OF IH(2) conjunct1 [OF bound]]
        by (intro exI [of _ r] exI [of _ "Waited (wait i) # acts'"]) simp
    qed
  qed
qed

lemma waitpid_loop_ends:
  assumes "sleeps start now"
  shows "\<exists>r acts'. waitpid_loop now wait deadline i acts = Some (r, acts @ acts') \<and>
    10 * length acts' \<le> nat (deadline - start) - 10 * i + 9 \<and> SigTerm \<notin> set acts' \<and> SigKill \<notin> set acts' \<and>
    reaps acts' = (case r of WaitEnded st \<Rightarrow> [st] | _ \<Rightarrow> []) \<and> (r = WaitBroken \<longrightarrow> (\<exists>k. wait k = WaitFailed))"
proof (induction "nat (deadline - start) - 10 * i" arbitrary: i acts rule: less_induct)
  case less
  show ?case
  proof (cases "now i < deadline")
    case False
    then show ?thesis by (subst waitpid_loop.simps) (auto intro!: exI [of _ WaitTimeout])
  next
    case True
    note bound = before_deadline [OF assms True]
    show ?thesis
    proof (cases "wait i")
      case (Reaped st)
      with True bound show ?thesis
        by (subst waitpid_loop.simps) (auto intro!: exI [of _ "WaitEnded st"] exI [of _ "[Waited (Reaped st)]"])
    next
      case WaitFailed
      with True bound show ?thesis
        by (subst waitpid_loop.simps) (auto intro!: exI [of _ WaitBroken] exI [of _ "[Waited WaitFailed]"])
    next
      case NotYet
      from less [OF conjunct2 [OF bound], of "acts @ [Waited NotYet]"] obtain r acts'
        where IH: "waitpid_loop now wait deadline (Suc i) (acts @ [Waited NotYet]) = Some (r, (acts @ [Waited NotYet]) @ acts')"
          "10 * length acts' \<le> nat (deadline - start) - 10 * Suc i + 9" "SigTerm \<notin> set acts'" "SigKill \<notin> set acts'"
          "reaps acts' = (case r of WaitEnded st \<Rightarrow> [st] | _ \<Rightarrow> [])" "r = WaitBroken \<longrightarrow> (\<exists>k. wait k = WaitFailed)" by blast
      moreover have "waitpid_loop now wait deadline i acts = waitpid_loop now wait deadline (Suc i) (acts @ [Waited NotYet])"
        using True NotYet by (subst waitpid_loop.simps) simp
      ultimately show ?thesis
        using one_more_poll [OF IH(2) conjunct1 [OF bound]]
        by (intro exI [of _ r] exI [of _ "Waited NotYet # acts'"]) simp
    qed
  qed
qed

text \<open>The read loop ends when time passes, and never reads more than the buffer holds.\<close>

lemma read_output_ends:
  assumes "deadline \<le> now m" and "mono now"
  shows "length buf \<le> TMUX_BUFFER - 1 \<Longrightarrow> \<exists>out. read_output now poll deadline i buf = Some (buf @ out) \<and>
    length (buf @ out) \<le> TMUX_BUFFER - 1"
proof (induction "m - i" arbitrary: i buf rule: less_induct)
  case less
  show ?case
  proof (cases "length buf < TMUX_BUFFER - 1 \<and> now i < deadline")
    case False
    with less.prems show ?thesis by (subst read_output.simps) (auto intro!: exI [of _ "[]"])
  next
    case True
    have "i < m"
    proof (rule ccontr)
      assume "\<not> i < m"
      then have "now m \<le> now i" using assms(2) by (simp add: monoD)
      with True assms(1) show False by simp
    qed
    then have IH: "length b \<le> TMUX_BUFFER - 1 \<Longrightarrow> \<exists>out. read_output now poll deadline (Suc i) b = Some (b @ out) \<and>
        length (b @ out) \<le> TMUX_BUFFER - 1" for b
      by (intro less.hyps) simp_all
    have more: "\<exists>out. read_output now poll deadline (Suc i) (buf @ take (TMUX_BUFFER - length buf - 1) bs) = Some (buf @ out) \<and>
        length (buf @ out) \<le> TMUX_BUFFER - 1" for bs
      using IH [of "buf @ take (TMUX_BUFFER - length buf - 1) bs"] True by fastforce
    show ?thesis
      using True IH [OF less.prems] more less.prems
      by (subst read_output.simps)
        (auto simp: Let_def intro: exI [of _ "[]"] split: poll_result.splits read_result.splits)
  qed
qed

definition wait_env_ok :: "wait_env \<Rightarrow> bool" where
  "wait_env_ok e \<longleftrightarrow> sleeps (we_start e) (we_now e) \<and> sleeps (we_term_start e) (we_term_now e)"

text \<open>What a wait for a child did.\<close>

lemma waitpid_timeoutE:
  assumes "wait_env_ok e"
  obtains (ended) st acts where "waitpid_timeout e pid timeoutMs = Some (Some st, acts)"
      "10 * length acts \<le> nat timeoutMs + 9" "reaps acts = [st]" "SigTerm \<notin> set acts" "SigKill \<notin> set acts"
  | (broken) acts where "waitpid_timeout e pid timeoutMs = Some (None, acts)" "10 * length acts \<le> nat timeoutMs + 9"
      "reaps acts = []" "\<exists>k. we_wait e k = WaitFailed" "SigTerm \<notin> set acts" "SigKill \<notin> set acts"
  | (timeout) acts acts' where "waitpid_timeout e pid timeoutMs =
        Some (case we_last e of Reaped st \<Rightarrow> Some st | _ \<Rightarrow> None, acts @ acts' @ [Waited (we_last e)])"
      "terminate_process e pid = Some acts'" "10 * length acts \<le> nat timeoutMs + 9" "reaps acts = []"
      "SigTerm \<notin> set acts" "SigKill \<notin> set acts"
proof -
  obtain r acts where loop: "waitpid_loop (we_now e) (we_wait e) (we_start e + timeoutMs) 0 [] = Some (r, acts)"
    "10 * length acts \<le> nat timeoutMs + 9" "SigTerm \<notin> set acts" "SigKill \<notin> set acts"
    "reaps acts = (case r of WaitEnded st \<Rightarrow> [st] | _ \<Rightarrow> [])" "r = WaitBroken \<longrightarrow> (\<exists>k. we_wait e k = WaitFailed)"
    using waitpid_loop_ends [of "we_start e" "we_now e" "we_wait e" "we_start e + timeoutMs" 0 "[]"] assms
    by (auto simp: wait_env_ok_def)
  have "\<exists>acts'. terminate_process e pid = Some acts'"
    using terminate_loop_ends [of "we_term_start e" "we_term_now e" "we_term_wait e"
        "we_term_start e + TMUXREMOTE_TMUX_TERMINATE_GRACE_MS" 0 "[SigTerm]"] assms
    by (auto simp: terminate_process_def wait_env_ok_def)
  then obtain acts' where killed: "terminate_process e pid = Some acts'" by blast
  show thesis
  proof (cases r)
    case (WaitEnded st)
    with loop ended show thesis by (simp add: waitpid_timeout_def)
  next
    case WaitBroken
    with loop broken show thesis by (simp add: waitpid_timeout_def)
  next
    case WaitTimeout
    with loop killed timeout show thesis by (simp add: waitpid_timeout_def)
  qed
qed

lemma terminate_processE:
  assumes "wait_env_ok e" and "0 < pid"
  obtains acts where "terminate_process e pid = Some (SigTerm # acts)" "length acts \<le> 22"
    "(\<exists>st. reaps acts = [st]) \<or> (\<exists>pre. acts = pre @ [SigKill, Waited (we_blocking e)] \<and> reaps pre = [])"
proof -
  obtain r acts where loop: "terminate_loop (we_term_now e) (we_term_wait e)
      (we_term_start e + TMUXREMOTE_TMUX_TERMINATE_GRACE_MS) 0 [SigTerm] = Some (r, [SigTerm] @ acts)"
    "10 * length acts \<le> nat TMUXREMOTE_TMUX_TERMINATE_GRACE_MS + 9"
    "if r then \<exists>st. reaps acts = [st] else reaps acts = []"
    using terminate_loop_ends [of "we_term_start e" "we_term_now e" "we_term_wait e"
        "we_term_start e + TMUXREMOTE_TMUX_TERMINATE_GRACE_MS" 0 "[SigTerm]"] assms
    by (auto simp: wait_env_ok_def)
  then have "length acts \<le> 20" by (simp add: TMUXREMOTE_TMUX_TERMINATE_GRACE_MS_def)
  with loop assms(2) that show thesis by (cases r) (auto simp: terminate_process_def)
qed

section \<open>Properties\<close>


text \<open>A child that ignores \<open>SIGTERM\<close>.\<close>

definition deaf_child :: tmux_env where
  "deaf_child = \<lparr>te_pipe = True, te_fork = Some 7, te_read_start = 0, te_read_now = (\<lambda>k. 10 * int k),
     te_poll = (\<lambda>k. if k = 0 then PollRead (ReadBytes ''main'') else PollRead ReadAgain),
     te_wait = \<lparr>we_start = 0, we_now = (\<lambda>k. 10 * int k), we_wait = (\<lambda>_. NotYet), we_term_start = 0,
       we_term_now = (\<lambda>k. 10 * int k), we_term_wait = (\<lambda>_. NotYet), we_blocking = Reaped Signaled,
       we_last = WaitFailed\<rparr>\<rparr>"


end
