(* ===== verification/Agent_Banner.thy ===== *)
theory Agent_Banner
  imports Agent_Setup Tmux
begin

text \<open>
  The text the agent prints when it has started (\<open>agent/src/tmuxremote_banner.c\<close>), as a list of lines
  with their contents; fixed text is left out.  \<open>printf\<close> with a null user name is undefined: the
  value \<^const>\<open>None\<close>.  The IAM state is the result of \<open>nm_iam_dump_state\<close>.
\<close>

datatype banner_line =
    ProductLine string
  | DeviceLine string
  | FingerprintLine string
  | VersionLine
  | KeychainLine
  | KeyFileLine string
  | InvitationLine string
  | PairedLine "(string \<times> string option) list"
  | SessionLine string "16 word" "16 word" bool
  | WaitingForPairing
  | WaitingForBasestation

definition has_paired_users :: "iam_state option \<Rightarrow> bool" where
  "has_paired_users state = (case state of None \<Rightarrow> False | Some st \<Rightarrow> list_ex (\<lambda>u. us_fingerprints u \<noteq> []) (is_users st))"

definition has_pending_invite :: "iam_state option \<Rightarrow> bool" where
  "has_pending_invite state =
     (case state of None \<Rightarrow> False
      | Some st \<Rightarrow> list_ex (\<lambda>u. us_fingerprints u = [] \<and> us_password u \<noteq> None) (is_users st))"

text \<open>The pairing string of the first pending user.\<close>

definition banner_invitation :: "string \<Rightarrow> string \<Rightarrow> iam_state option \<Rightarrow> banner_line list option" where
  "banner_invitation productId deviceId state =
     (if \<not> has_pending_invite state then Some []
      else case (case state of None \<Rightarrow> None
                 | Some st \<Rightarrow> find (\<lambda>u. us_password u \<noteq> None \<and> us_fingerprints u = []) (is_users st)) of
             None \<Rightarrow> Some []
           | Some user \<Rightarrow>
               (case (us_sct user, us_password user) of
                  (Some sct, Some pwd) \<Rightarrow>
                    (case us_username user of
                       None \<Rightarrow> None
                     | Some name \<Rightarrow> Some [InvitationLine (pairing_string productId deviceId name pwd sct)])
                | _ \<Rightarrow> Some []))"

text \<open>The paired users with their display names, in order.\<close>

fun banner_names :: "iam_user list \<Rightarrow> (string \<times> string option) list option" where
  "banner_names [] = Some []"
| "banner_names (u # us) =
     (if us_fingerprints u = [] then banner_names us
      else case us_username u of
             None \<Rightarrow> None
           | Some name \<Rightarrow> map_option (Cons (name, us_displayName u)) (banner_names us))"

definition tmuxremote_print_banner ::
  "bool \<Rightarrow> string \<Rightarrow> string \<Rightarrow> string option \<Rightarrow> bool \<Rightarrow> string option \<Rightarrow> iam_state option \<Rightarrow> tmux
     \<Rightarrow> banner_line list option" where
  "tmuxremote_print_banner silent productId deviceId fingerprint keychainKey deviceKeyFile state tmux =
     (if silent then Some []
      else
        let head = [ProductLine productId, DeviceLine deviceId] @
                   (case fingerprint of None \<Rightarrow> [] | Some fp \<Rightarrow> [FingerprintLine fp]) @ [VersionLine,
                    if keychainKey then KeychainLine
                    else KeyFileLine (case deviceKeyFile of None \<Rightarrow> ''(unknown)'' | Some f \<Rightarrow> f)];
            users = (if has_paired_users state
                     then map_option (\<lambda>names. [PairedLine names])
                            (banner_names (case state of None \<Rightarrow> [] | Some st \<Rightarrow> is_users st))
                     else banner_invitation productId deviceId state);
            list = (case tmuxremote_tmux_list_sessions tmux of None \<Rightarrow> [] | Some l \<Rightarrow> l);
            sessions = map (\<lambda>s. SessionLine (tx_name s) (tx_cols s) (tx_rows s) (tx_attached s > 0)) list;
            end = (if has_paired_users state then WaitingForBasestation else WaitingForPairing)
        in map_option (\<lambda>us. head @ us @ sessions @ [end]) users)"

section \<open>Lemmas\<close>

definition users_named :: "iam_state \<Rightarrow> bool" where
  "users_named st \<longleftrightarrow> (\<forall>u \<in> set (is_users st). us_username u \<noteq> None)"

lemma banner_names_all:
  "\<forall>u \<in> set us. us_username u \<noteq> None \<Longrightarrow>
     banner_names us = Some (map (\<lambda>u. (the (us_username u), us_displayName u)) (filter (\<lambda>u. us_fingerprints u \<noteq> []) us))"
  by (induction us) auto

lemma not_head:
  "InvitationLine s \<notin> set ([ProductLine p, DeviceLine d] @ (case fp of None \<Rightarrow> [] | Some x \<Rightarrow> [FingerprintLine x]) @
     [VersionLine, if k then KeychainLine else KeyFileLine f])"
  by (cases fp) auto

lemma find_in_set: "find P xs = Some x \<Longrightarrow> x \<in> set xs"
  by (auto simp: find_Some_iff)

lemma banner_invitation_defined:
  assumes "\<forall>u \<in> set (is_users st). us_username u \<noteq> None"
  shows "\<exists>us. banner_invitation p d (Some st) = Some us"
proof (cases "find (\<lambda>u. us_password u \<noteq> None \<and> us_fingerprints u = []) (is_users st)")
  case None
  then show ?thesis by (simp add: banner_invitation_def)
next
  case (Some u)
  then have "us_username u \<noteq> None" using assms find_in_set by metis
  then show ?thesis using Some by (auto simp: banner_invitation_def split: option.splits)
qed

section \<open>Properties\<close>

text \<open>
  The start-up text invites only as long as nobody is paired.  With a name for every user the text is
  defined; it contains an invitation only when no user is paired, and then it is the one of the
  first user who is still to be paired; the paired users are listed completely and in order.
\<close>

theorem banner_invites_until_paired:
  assumes "users_named st"
  shows "\<exists>lines. tmuxremote_print_banner silent p d fp k f (Some st) tmux = Some lines \<and>
    (\<forall>s. InvitationLine s \<in> set lines \<longrightarrow>
       (\<forall>u \<in> set (is_users st). us_fingerprints u = []) \<and>
       (\<exists>u name pwd sct. find (\<lambda>u. us_password u \<noteq> None \<and> us_fingerprints u = []) (is_users st) = Some u \<and>
          us_username u = Some name \<and> us_password u = Some pwd \<and> us_sct u = Some sct \<and>
          s = pairing_string p d name pwd sct)) \<and>
    (\<forall>names. PairedLine names \<in> set lines \<longrightarrow>
       names = map (\<lambda>u. (the (us_username u), us_displayName u)) (filter (\<lambda>u. us_fingerprints u \<noteq> []) (is_users st)))"
proof -
  have named: "\<forall>u \<in> set (is_users st). us_username u \<noteq> None" using assms by (simp add: users_named_def)
  show ?thesis
  proof (cases "silent \<or> has_paired_users (Some st)")
    case True
    then show ?thesis
      using banner_names_all [OF named] by (auto simp: tmuxremote_print_banner_def Let_def split: option.splits if_splits)
  next
    case False
    have "\<exists>us. banner_invitation p d (Some st) = Some us"
      by (rule banner_invitation_defined) (rule named)
    then obtain us where us: "banner_invitation p d (Some st) = Some us" by blast
    have none: "\<forall>u \<in> set (is_users st). us_fingerprints u = []"
      using False by (auto simp: has_paired_users_def list_ex_iff)
    have "InvitationLine s \<in> set us \<Longrightarrow>
        \<exists>u name pwd sct. find (\<lambda>u. us_password u \<noteq> None \<and> us_fingerprints u = []) (is_users st) = Some u \<and>
          us_username u = Some name \<and> us_password u = Some pwd \<and> us_sct u = Some sct \<and>
          s = pairing_string p d name pwd sct" for s
      using us by (auto simp: banner_invitation_def split: option.splits if_splits)
    moreover have "PairedLine names \<notin> set us" for names
      using us by (auto simp: banner_invitation_def split: option.splits if_splits)
    ultimately show ?thesis
      using False us none by (auto simp: tmuxremote_print_banner_def Let_def split: option.splits if_splits)
  qed
qed

theorem banner_invites_until_paired_witness:
  "\<exists>lines. tmuxremote_print_banner False ''pr'' ''de'' None False None (Some (lap_state [owner])) (\<lambda>_. \<lparr>tr_started = False,
       tr_output = [], tr_status = None\<rparr>) = Some lines"
proof -
  have "users_named (lap_state [owner])"
    by (simp add: users_named_def lap_state_def sample_state_def owner_def invited_user_def new_user_def)
  from banner_invites_until_paired [OF this] show ?thesis by blast
qed

end
