(* ===== verification/Agent_Main.thy ===== *)
theory Agent_Main
  imports Agent_Banner Session_Map
begin

text \<open>
  The agent program (\<open>agent/src/main.c\<close>, \<open>tmuxremote_device.c\<close>): the arguments, the dispatch to the
  set-up commands, the start of the agent, its wait for a signal or the end of the device, and the
  shut-down.

  The calls the agent makes into its components and into the SDK are recorded in order, as values of
  \<open>agent_op\<close>; files and keys change as in \<open>Keychain\<close> and \<open>Iam\<close>.  What the agent cannot know is a
  parameter: the parsed options (\<open>gopt\<close>), \<open>fork\<close>, the results of the SDK, and what happens in each
  100 ms between two polls of the wait loops.  \<open>strdup\<close> of the home directory and of the two file paths
  succeeds.  The loading of the pattern files is in \<open>Pattern_Config\<close>.
\<close>

section \<open>Arguments\<close>

datatype option_key =
    OPTION_HELP
  | OPTION_VERSION
  | OPTION_HOME_DIR
  | OPTION_LOG_LEVEL
  | OPTION_RANDOM_PORTS
  | OPTION_INIT
  | OPTION_DEMO_INIT
  | OPTION_ADD_USER
  | OPTION_REMOVE_USER
  | OPTION_PRODUCT_ID
  | OPTION_DEVICE_ID
  | OPTION_RECORD_PTY
  | OPTION_MOVE_DEVICE_KEY
  | OPTION_BACKGROUND
  | OPTION_SILENT
  | OPTION_LIST_USERS

record args =
  ar_showHelp :: bool
  ar_showVersion :: bool
  ar_homeDir :: "string option"
  ar_logLevel :: "string option"
  ar_randomPorts :: bool
  ar_init :: bool
  ar_demoInit :: bool
  ar_addUser :: "string option"
  ar_removeUser :: "string option"
  ar_productId :: "string option"
  ar_deviceId :: "string option"
  ar_recordPtyFile :: "string option"
  ar_moveDeviceKey :: "string option"
  ar_background :: bool
  ar_silent :: bool
  ar_listUsers :: bool

definition args_init :: args where
  "args_init = \<lparr>ar_showHelp = False, ar_showVersion = False, ar_homeDir = None, ar_logLevel = None,
     ar_randomPorts = False, ar_init = False, ar_demoInit = False, ar_addUser = None, ar_removeUser = None,
     ar_productId = None, ar_deviceId = None, ar_recordPtyFile = None, ar_moveDeviceKey = None,
     ar_background = False, ar_silent = False, ar_listUsers = False\<rparr>"

text \<open>The parameters are \<open>gopt\<close> and \<open>gopt_arg\<close> on the sorted options.\<close>

definition parse_args ::
  "alloc \<Rightarrow> (option_key \<Rightarrow> bool) \<Rightarrow> (option_key \<Rightarrow> string option) \<Rightarrow> args \<Rightarrow> bool \<times> args" where
  "parse_args al gopt gopt_arg a =
     (let dup = (\<lambda>k old. case gopt_arg k of None \<Rightarrow> old | Some tmp \<Rightarrow> strdup al tmp)
      in (True, a\<lparr>
        ar_showHelp := ar_showHelp a \<or> gopt OPTION_HELP,
        ar_showVersion := ar_showVersion a \<or> gopt OPTION_VERSION,
        ar_randomPorts := ar_randomPorts a \<or> gopt OPTION_RANDOM_PORTS,
        ar_init := ar_init a \<or> gopt OPTION_INIT,
        ar_demoInit := ar_demoInit a \<or> gopt OPTION_DEMO_INIT,
        ar_background := ar_background a \<or> gopt OPTION_BACKGROUND,
        ar_silent := ar_silent a \<or> gopt OPTION_SILENT,
        ar_listUsers := ar_listUsers a \<or> gopt OPTION_LIST_USERS,
        ar_logLevel := (case gopt_arg OPTION_LOG_LEVEL of None \<Rightarrow> strdup al ''error'' | Some tmp \<Rightarrow> strdup al tmp),
        ar_homeDir := dup OPTION_HOME_DIR (ar_homeDir a),
        ar_addUser := dup OPTION_ADD_USER (ar_addUser a),
        ar_removeUser := dup OPTION_REMOVE_USER (ar_removeUser a),
        ar_productId := dup OPTION_PRODUCT_ID (ar_productId a),
        ar_deviceId := dup OPTION_DEVICE_ID (ar_deviceId a),
        ar_recordPtyFile := dup OPTION_RECORD_PTY (ar_recordPtyFile a),
        ar_moveDeviceKey := dup OPTION_MOVE_DEVICE_KEY (ar_moveDeviceKey a)\<rparr>))"

text \<open>The directories that are created, in order; failures of \<open>mkdir\<close> are ignored.\<close>

definition make_directories :: "string \<Rightarrow> string list" where
  "make_directories homeDir =
     [homeDir, take 511 (homeDir @ ''/config''), take 511 (homeDir @ ''/state''), take 511 (homeDir @ ''/keys''),
      take 511 (homeDir @ ''/patterns'')]"

definition get_default_home_dir :: "alloc \<Rightarrow> string option \<Rightarrow> string option" where
  "get_default_home_dir al HOME =
     (case HOME of None \<Rightarrow> None | Some home \<Rightarrow> strdup al (take 511 (home @ ''/.tmux-remote'')))"

section \<open>The embedded pattern configuration\<close>

text \<open>
  The document that \<open>TMUXREMOTE_DEFAULT_PATTERN_CONFIG_JSON\<close> spells, as a JSON value; \<open>backslash\<close> is the
  character that remains of the escapes of C and of JSON.
\<close>

definition backslash :: char where "backslash = CHR 0x5C"

definition static_action :: "string \<Rightarrow> string \<Rightarrow> cjson" where
  "static_action label keys = JObject [(''label'', JString label), (''keys'', JString keys)]"

definition default_pattern_document :: cjson where
  "default_pattern_document = JObject [
     (''version'', JNumber 3),
     (''agents'', JObject [
       (''claude-code'', JObject [
         (''name'', JString ''Claude Code''),
         (''rules'', JArray [
           JObject [
             (''id'', JString ''numbered_prompt''),
             (''type'', JString ''numbered_menu''),
             (''prompt_regex'', JString (''Do you want to .+'' @ [backslash] @ ''?'')),
             (''option_regex'', JString (''^'' @ [backslash] @ ''s*([0-9]+)'' @ [backslash] @ ''.'' @ [backslash] @ ''s+(.+)$'')),
             (''action_template'', JObject [(''keys'', JString ''{number}'')]),
             (''max_scan_lines'', JNumber 8)],
           JObject [
             (''id'', JString ''yes_no_prompt''),
             (''type'', JString ''yes_no''),
             (''prompt_regex'', JString (''(?:Allow|Proceed|Run|Execute).*'' @ [backslash] @ ''? '' @ [backslash] @ ''(y'' @
                [backslash] @ ''/n'' @ [backslash] @ '')'')),
             (''actions'', JArray [static_action ''Allow'' ''y'', static_action ''Deny'' ''n'']),
             (''max_scan_lines'', JNumber 4)],
           JObject [
             (''id'', JString ''diff_review''),
             (''type'', JString ''accept_reject''),
             (''prompt_regex'', JString ''Do you want to apply these changes''),
             (''actions'', JArray [static_action ''Accept'' ''y'', static_action ''Reject'' ''n'']),
             (''max_scan_lines'', JNumber 4)]])]),
       (''codex'', JObject [(''name'', JString ''OpenAI Codex CLI''), (''rules'', JArray [])]),
       (''aider'', JObject [(''name'', JString ''Aider''), (''rules'', JArray [])])])]"

section \<open>The agent's state and calls\<close>

text \<open>\<open>struct tmuxremote\<close>, without the handlers and listeners of the other theories.\<close>

record tmuxremote =
  app_device :: bool
  app_iam :: "iam_saver option"
  app_homeDir :: "string option"
  app_deviceConfigFile :: "string option"
  app_deviceKeyFile :: "string option"
  app_iamStateFile :: "string option"
  app_sessionMap :: session_map
  app_patternConfig :: "pattern_config option"
  app_recordPtyFile :: "string option"
  app_keychainKey :: bool
  app_startTime :: int

definition tmuxremote_init :: tmuxremote where
  "tmuxremote_init = \<lparr>app_device = False, app_iam = None, app_homeDir = None, app_deviceConfigFile = None,
     app_deviceKeyFile = None, app_iamStateFile = None, app_sessionMap = tmuxremote_session_map_init,
     app_patternConfig = None, app_recordPtyFile = None, app_keychainKey = False, app_startTime = 0\<rparr>"

definition tmuxremote_deinit :: "tmuxremote \<Rightarrow> tmuxremote" where
  "tmuxremote_deinit app = app\<lparr>app_patternConfig := None, app_homeDir := None, app_deviceConfigFile := None,
     app_deviceKeyFile := None, app_iamStateFile := None, app_recordPtyFile := None\<rparr>"

datatype service =
    CoapResize | CoapSessions | CoapAttach | CoapCreate | CoapStatus | StreamListener | ControlStreamListener

datatype agent_op =
    AppInit | AppDeinit
  | Setsid | WritePidFile string | RedirectOutput string | UnlinkPidFile string
  | DeviceNew | LoggingInit "string option" | DeviceFree
  | ConfigLoad | ConfigDeinit
  | SetIds string string | SetServerUrl string | SetServerPort nat | SetRandomPorts
  | SetPrivateKey string | SetAppInfo
  | IamInit | IamDeinit
  | DeviceStart bool | DeviceClose | CloseWait nat | DeviceStop
  | ServiceInit service | ServiceStop service | JoinMonitor | ServiceDeinit service
  | PrintBanner "banner_line list option"
  | EventsInit | EventsStop | EventsFree

record device_config =
  dc_productId :: string
  dc_deviceId :: string
  dc_server :: "string option"
  dc_serverPort :: nat

text \<open>
  The environment.  \<open>ae_load_device_config\<close> is the SDK's \<open>load_device_config\<close>, \<open>ae_fork\<close> the result of
  \<open>fork\<close>, \<open>ae_accepts\<close> is \<open>nm_iam_load_state\<close>, \<open>ae_dump\<close> \<open>nm_iam_dump_state\<close>, and \<open>ae_dir\<close> the
  listing of the directory of pattern files.
\<close>

record agent_env =
  ae_setup :: setup_env
  ae_parse_json :: "string \<Rightarrow> cjson option"
  ae_default_json :: string
  ae_fopen :: "string \<Rightarrow> file_view"
  ae_dir :: "string list option"
  ae_load_device_config :: "file_map \<Rightarrow> string \<Rightarrow> device_config option"
  ae_fork :: int
  ae_pid_file_opens :: bool
  ae_log_file_opens :: bool
  ae_device_new :: bool
  ae_thread_starts :: bool
  ae_accepts :: "iam_state \<Rightarrow> bool"
  ae_device_starts :: bool
  ae_time :: int
  ae_fingerprint :: "string option"
  ae_dump :: "iam_state option"
  ae_tmux :: tmux

record agent_run =
  run_ops :: "agent_op list"
  run_world :: key_world
  run_app :: tmuxremote

definition calls :: "agent_op list \<Rightarrow> agent_run \<Rightarrow> agent_run" where
  "calls ops r = r\<lparr>run_ops := run_ops r @ ops\<rparr>"

definition with_app :: "(tmuxremote \<Rightarrow> tmuxremote) \<Rightarrow> agent_run \<Rightarrow> agent_run" where
  "with_app f r = r\<lparr>run_app := f (run_app r)\<rparr>"

definition deinit_app :: "agent_run \<Rightarrow> agent_run" where
  "deinit_app r = with_app tmuxremote_deinit (calls [AppDeinit] r)"

text \<open>A part of the start returns \<open>false\<close>, ends the process (the parent after \<open>fork\<close>), or goes on.\<close>

datatype 'a start = ReturnFalse agent_run | ParentExits agent_run | Continue 'a

fun and_then :: "'a start \<Rightarrow> ('a \<Rightarrow> 'b start) \<Rightarrow> 'b start" where
  "and_then (ReturnFalse r) f = ReturnFalse r"
| "and_then (ParentExits r) f = ParentExits r"
| "and_then (Continue x) f = f x"

section \<open>Start\<close>

definition pid_path :: "string \<Rightarrow> string" where
  "pid_path homeDir = take 511 (homeDir @ ''/tmux-remote-agent.pid'')"

definition log_path :: "string \<Rightarrow> string" where
  "log_path homeDir = take 511 (homeDir @ ''/agent.log'')"

definition daemonize :: "agent_env \<Rightarrow> args \<Rightarrow> string \<Rightarrow> agent_run \<Rightarrow> agent_run start" where
  "daemonize e a homeDir r =
     (if \<not> ar_background a then Continue r
      else if ae_fork e < 0 then ReturnFalse (deinit_app r)
      else if ae_fork e > 0 then ParentExits r
      else Continue (calls ([Setsid] @ (if ae_pid_file_opens e then [WritePidFile (pid_path homeDir)] else []) @
                            (if ae_log_file_opens e then [RedirectOutput (log_path homeDir)] else [])) r))"

definition new_device :: "agent_env \<Rightarrow> args \<Rightarrow> string \<Rightarrow> agent_run \<Rightarrow> agent_run start" where
  "new_device e a homeDir r =
     (if \<not> ae_device_new e then ReturnFalse (deinit_app r)
      else Continue (with_app (\<lambda>app. app\<lparr>app_device := True,
               app_deviceConfigFile := Some (device_config_file homeDir),
               app_iamStateFile := Some (iam_state_file homeDir)\<rparr>)
             (calls [DeviceNew, LoggingInit (ar_logLevel a)] r)))"

definition free_device :: "agent_run \<Rightarrow> agent_run" where
  "free_device r = calls [DeviceFree] r"

text \<open>The pattern files and the device configuration.\<close>

definition load_configs :: "agent_env \<Rightarrow> string \<Rightarrow> agent_run \<Rightarrow> (device_config \<times> agent_run) start" where
  "load_configs e homeDir r =
     (let (ok, cfg) = load_pattern_configs (ae_parse_json e) (ae_default_json e) (ae_fopen e)
                        (ke_mem (se_key (ae_setup e))) homeDir (ae_dir e)
      in if \<not> ok then ReturnFalse (free_device (deinit_app r))
         else
           let r = with_app (\<lambda>app. app\<lparr>app_patternConfig := cfg\<rparr>) r
           in case ae_load_device_config e (kw_files (run_world r)) (device_config_file homeDir) of
                None \<Rightarrow> ReturnFalse (free_device (deinit_app r))
              | Some dc \<Rightarrow> Continue (dc, calls [ConfigLoad] r))"

definition fail_configured :: "agent_run \<Rightarrow> agent_run" where
  "fail_configured r = free_device (deinit_app (calls [ConfigDeinit] r))"

text \<open>The key file: the one of the device, or the legacy file when the migration fails.\<close>

definition choose_key_file :: "agent_env \<Rightarrow> string \<Rightarrow> device_config \<Rightarrow> agent_run \<Rightarrow> (string \<times> agent_run) start" where
  "choose_key_file e homeDir dc r =
     (let k = se_key (ae_setup e); legacy = legacy_key_file homeDir
      in case tmuxremote_device_key_file_path (ke_mem k) (Some homeDir) (Some (dc_productId dc)) (Some (dc_deviceId dc)) of
           None \<Rightarrow> ReturnFalse (fail_configured r)
         | Some file \<Rightarrow>
             let (ok, fs) = tmuxremote_ensure_namespaced_key_file k (kw_files (run_world r)) (Some legacy) (Some file);
                 r = r\<lparr>run_world := (run_world r)\<lparr>kw_files := fs\<rparr>\<rparr>
             in case (if ok then Some file else strdup (ke_mem k) legacy) of
                  None \<Rightarrow> ReturnFalse (fail_configured r)
                | Some keyFile \<Rightarrow> Continue (keyFile, with_app (\<lambda>app. app\<lparr>app_deviceKeyFile := Some keyFile\<rparr>) r))"

definition device_settings :: "args \<Rightarrow> device_config \<Rightarrow> agent_op list" where
  "device_settings a dc =
     [SetIds (dc_productId dc) (dc_deviceId dc)] @
     (case dc_server dc of None \<Rightarrow> [] | Some server \<Rightarrow> [SetServerUrl server]) @
     (if dc_serverPort dc \<noteq> 0 then [SetServerPort (dc_serverPort dc)] else []) @
     (if ar_randomPorts a then [SetRandomPorts] else [])"

definition load_key :: "agent_env \<Rightarrow> args \<Rightarrow> bool \<Rightarrow> device_config \<Rightarrow> string \<times> agent_run \<Rightarrow> agent_run start" where
  "load_key e a useKeychain dc = (\<lambda>(keyFile, r).
     let r = calls (device_settings a dc) r;
         (key, keychainUsed, w) = tmuxremote_load_or_create_private_key (se_key (ae_setup e)) (run_world r) keyFile
                                    (Some (dc_productId dc)) (Some (dc_deviceId dc)) useKeychain;
         r = r\<lparr>run_world := w\<rparr>
     in case key of
          None \<Rightarrow> ReturnFalse (fail_configured r)
        | Some k \<Rightarrow> Continue (with_app (\<lambda>app. app\<lparr>app_keychainKey := keychainUsed\<rparr>)
                                (calls [SetPrivateKey k, SetAppInfo] r)))"

text \<open>The users; a failure leaves the IAM module and its saver thread.\<close>

definition init_iam :: "agent_env \<Rightarrow> string \<Rightarrow> agent_run \<Rightarrow> agent_run start" where
  "init_iam e homeDir r =
     (let fs = kw_files (run_world r); file = iam_state_file homeDir;
          saver = tmuxremote_iam_init fs file (ae_thread_starts e);
          r = with_app (\<lambda>app. app\<lparr>app_iam := Some saver\<rparr>) (calls [IamInit] r)
      in case tmuxremote_iam_load_state (se_iam (ae_setup e)) (ke_mem (se_key (ae_setup e))) (ae_accepts e) fs file of
           None \<Rightarrow> ReturnFalse (fail_configured r)
         | Some (_, tracked) \<Rightarrow>
             Continue (with_app (\<lambda>app. app\<lparr>app_iam := Some (saver\<lparr>sv_pairedUsers := tracked\<rparr>)\<rparr>) r))"

definition start_device :: "agent_env \<Rightarrow> agent_run \<Rightarrow> agent_run start" where
  "start_device e r =
     (let r = calls [DeviceStart (ae_device_starts e)] r
      in if \<not> ae_device_starts e then ReturnFalse (fail_configured r)
         else Continue (with_app (\<lambda>app. app\<lparr>app_startTime := ae_time e\<rparr>) r))"

definition coap_handlers :: "service list" where
  "coap_handlers = [CoapResize, CoapSessions, CoapAttach, CoapCreate, CoapStatus]"

definition services :: "service list" where
  "services = coap_handlers @ [StreamListener, ControlStreamListener]"

definition start_services :: "agent_env \<Rightarrow> args \<Rightarrow> device_config \<Rightarrow> agent_run \<Rightarrow> agent_run" where
  "start_services e a dc r =
     calls (map ServiceInit services @
       [PrintBanner (tmuxremote_print_banner (ar_silent a) (dc_productId dc) (dc_deviceId dc) (ae_fingerprint e)
          (app_keychainKey (run_app r)) (app_deviceKeyFile (run_app r)) (ae_dump e) (ae_tmux e)),
        EventsInit]) r"

definition start_agent :: "agent_env \<Rightarrow> args \<Rightarrow> key_world \<Rightarrow> agent_run start" where
  "start_agent e a w =
     (let homeDir = the (ar_homeDir a);
          app = tmuxremote_init\<lparr>app_homeDir := Some homeDir,
                  app_recordPtyFile := (case ar_recordPtyFile a of None \<Rightarrow> None
                                        | Some f \<Rightarrow> strdup (ke_mem (se_key (ae_setup e))) f)\<rparr>
      in and_then (daemonize e a homeDir \<lparr>run_ops = [AppInit], run_world = w, run_app = app\<rparr>) (\<lambda>r.
         and_then (new_device e a homeDir r) (\<lambda>r.
         and_then (load_configs e homeDir r) (\<lambda>(dc, r).
           let useKeychain = tmuxremote_config_get_keychain_key (se_key (ae_setup e)) (run_world r)
                               (device_config_file homeDir)
           in and_then (choose_key_file e homeDir dc r) (\<lambda>kr.
              and_then (load_key e a useKeychain dc kr) (\<lambda>r.
              and_then (init_iam e homeDir r) (\<lambda>r.
              and_then (start_device e r) (\<lambda>r.
                Continue (start_services e a dc r)))))))))"

section \<open>Waiting\<close>

datatype device_event =
    NABTO_DEVICE_EVENT_ATTACHED
  | NABTO_DEVICE_EVENT_DETACHED
  | NABTO_DEVICE_EVENT_CLOSED
  | NABTO_DEVICE_EVENT_UNKNOWN_FINGERPRINT
  | NABTO_DEVICE_EVENT_WRONG_PRODUCT_ID
  | NABTO_DEVICE_EVENT_WRONG_DEVICE_ID
  | NABTO_DEVICE_EVENT_OTHER nat

text \<open>
  What the signal handler and the callbacks change.  \<open>ws_armed\<close> says whether a callback for device events
  is set; \<open>ws_closing\<close> whether the one for the end of \<open>nabto_device_close\<close> is.
\<close>

record wait_state =
  ws_signalCount :: nat
  ws_active :: bool
  ws_armed :: bool
  ws_printed :: "device_event list"
  ws_closing :: bool
  ws_done :: bool

datatype agent_event = Signal | EventResolved "device_event option" | CloseResolved

definition signal_handler :: "wait_state \<Rightarrow> wait_state" where
  "signal_handler s = (if ws_signalCount s < 2 then s\<lparr>ws_signalCount := ws_signalCount s + 1\<rparr> else s)"

definition start_wait_for_device_event :: "wait_state \<Rightarrow> wait_state" where
  "start_wait_for_device_event s = (if \<not> ws_active s then s else s\<lparr>ws_armed := True\<rparr>)"

text \<open>The argument is \<^const>\<open>None\<close> when the future resolved with an error.\<close>

definition device_event_callback :: "device_event option \<Rightarrow> wait_state \<Rightarrow> wait_state" where
  "device_event_callback ev s =
     (case ev of
        None \<Rightarrow> s\<lparr>ws_active := False\<rparr>
      | Some event \<Rightarrow>
          (case event of
             NABTO_DEVICE_EVENT_CLOSED \<Rightarrow> s\<lparr>ws_active := False\<rparr>
           | NABTO_DEVICE_EVENT_OTHER _ \<Rightarrow> start_wait_for_device_event s
           | _ \<Rightarrow> start_wait_for_device_event (s\<lparr>ws_printed := ws_printed s @ [event]\<rparr>)))"

definition device_close_callback :: "wait_state \<Rightarrow> wait_state" where
  "device_close_callback s = s\<lparr>ws_done := True\<rparr>"

text \<open>A callback runs once for each time it was set.\<close>

fun deliver :: "agent_event \<Rightarrow> wait_state \<Rightarrow> wait_state" where
  "deliver Signal s = signal_handler s"
| "deliver (EventResolved ev) s = (if ws_armed s then device_event_callback ev (s\<lparr>ws_armed := False\<rparr>) else s)"
| "deliver CloseResolved s = (if ws_closing s then device_close_callback (s\<lparr>ws_closing := False\<rparr>) else s)"

text \<open>
  The wait for the end, over what happens in each 100 ms; \<^const>\<open>None\<close> when the agent still waits at
  the end of the list.
\<close>

fun main_wait :: "agent_event list list \<Rightarrow> wait_state \<Rightarrow> (wait_state \<times> agent_event list list) option" where
  "main_wait slices s =
     (if \<not> (ws_signalCount s = 0 \<and> ws_active s) then Some (s, slices)
      else case slices of [] \<Rightarrow> None | evs # rest \<Rightarrow> main_wait rest (fold deliver evs s))"

declare main_wait.simps [simp del]

text \<open>The wait for the device to close; at the end of the list nothing more happens.\<close>

function close_wait :: "nat \<Rightarrow> agent_event list list \<Rightarrow> wait_state \<Rightarrow> nat \<times> wait_state" where
  "close_wait closeWaitIterations slices s =
     (if \<not> ws_done s \<and> ws_signalCount s < 2 \<and> closeWaitIterations < 50
      then close_wait (closeWaitIterations + 1) (tl slices) (fold deliver (case slices of [] \<Rightarrow> [] | evs # _ \<Rightarrow> evs) s)
      else (closeWaitIterations, s))"
  by pat_completeness auto

termination by (relation "measure (\<lambda>(n, _). 50 - n)") auto

declare close_wait.simps [simp del]

section \<open>Shut-down and the program\<close>

definition stop_services :: "agent_op list" where
  "stop_services = [EventsStop] @ map ServiceStop services @ [DeviceClose]"

text \<open>\<open>CloseWait\<close> records how often the agent polled for the end of the close.\<close>

definition release_services :: "nat \<Rightarrow> agent_op list" where
  "release_services closeWaitIterations = [CloseWait closeWaitIterations, DeviceStop, EventsFree] @ map ServiceDeinit coap_handlers @
     [JoinMonitor, ServiceDeinit StreamListener, ServiceDeinit ControlStreamListener]"

definition watching :: wait_state where
  "watching = start_wait_for_device_event
     \<lparr>ws_signalCount = 0, ws_active = True, ws_armed = False, ws_printed = [], ws_closing = False, ws_done = False\<rparr>"

datatype agent_outcome =
    Returned bool agent_run
  | ProcessExit agent_run
  | StillRunning agent_run

definition run_agent :: "agent_env \<Rightarrow> args \<Rightarrow> agent_event list list \<Rightarrow> key_world \<Rightarrow> agent_outcome" where
  "run_agent e a slices w =
     (case start_agent e a w of
        ReturnFalse r \<Rightarrow> Returned False r
      | ParentExits r \<Rightarrow> ProcessExit r
      | Continue r \<Rightarrow>
          (case main_wait slices watching of
             None \<Rightarrow> StillRunning r
           | Some (s, rest) \<Rightarrow>
               let (closeWaitIterations, s) = close_wait 0 rest (s\<lparr>ws_closing := True\<rparr>);
                   r = calls (stop_services @ release_services closeWaitIterations @
                              (if ar_background a then [UnlinkPidFile (pid_path (the (ar_homeDir a)))] else []) @
                              [ConfigDeinit, IamDeinit]) r;
                   r = with_app (\<lambda>app. app\<lparr>app_iam := map_option tmuxremote_iam_stop (app_iam app)\<rparr>) r
               in Returned True (free_device (deinit_app r))))"

record main_env =
  me_agent :: agent_env
  me_HOME :: "string option"
  me_tty :: bool
  me_keyStorageEnv :: "string option"
  me_stdin :: string
  me_slices :: "agent_event list list"

datatype main_output = HelpText | VersionText | PairingText string | UsersText "user_line list"

text \<open>The exit code is \<^const>\<open>None\<close> while the agent runs; \<open>mr_dirs\<close> are the directories it makes.\<close>

record main_result =
  mr_exit :: "nat option"
  mr_dirs :: "string list"
  mr_output :: "main_output list"
  mr_world :: key_world
  mr_ops :: "agent_op list"

definition exit_code :: "bool \<Rightarrow> nat option" where "exit_code status = Some (if status then 0 else 1)"

definition finish_main ::
  "bool \<Rightarrow> string list \<Rightarrow> main_output list \<Rightarrow> key_world \<Rightarrow> main_result" where
  "finish_main status dirs out w =
     \<lparr>mr_exit = exit_code status, mr_dirs = dirs, mr_output = out, mr_world = w, mr_ops = []\<rparr>"

definition with_home :: "main_env \<Rightarrow> args \<Rightarrow> key_world \<Rightarrow> (string \<Rightarrow> main_result) \<Rightarrow> main_result" where
  "with_home e a w f =
     (case (case ar_homeDir a of Some h \<Rightarrow> Some h
            | None \<Rightarrow> get_default_home_dir (ke_mem (se_key (ae_setup (me_agent e)))) (me_HOME e)) of
        None \<Rightarrow> finish_main False [] [] w
      | Some homeDir \<Rightarrow> f homeDir)"

definition agent_result :: "string list \<Rightarrow> agent_outcome \<Rightarrow> main_result" where
  "agent_result dirs out =
     (case out of
        Returned status r \<Rightarrow> \<lparr>mr_exit = exit_code status, mr_dirs = dirs, mr_output = [], mr_world = run_world r, mr_ops = run_ops r\<rparr>
      | ProcessExit r \<Rightarrow> \<lparr>mr_exit = Some 0, mr_dirs = dirs, mr_output = [], mr_world = run_world r, mr_ops = run_ops r\<rparr>
      | StillRunning r \<Rightarrow> \<lparr>mr_exit = None, mr_dirs = dirs, mr_output = [], mr_world = run_world r, mr_ops = run_ops r\<rparr>)"

definition main :: "main_env \<Rightarrow> (option_key \<Rightarrow> bool) \<Rightarrow> (option_key \<Rightarrow> string option) \<Rightarrow> key_world \<Rightarrow> main_result" where
  "main e gopt gopt_arg w =
     (let se = ae_setup (me_agent e);
          (parsed, a) = parse_args (ke_mem (se_key se)) gopt gopt_arg args_init
      in if \<not> parsed then finish_main False [] [] w
         else if ar_showHelp a then finish_main True [] [HelpText] w
         else if ar_showVersion a then finish_main True [] [VersionText] w
         else if ar_init a \<or> ar_demoInit a then
           with_home e a w (\<lambda>homeDir.
             if ar_demoInit a then finish_main False (make_directories homeDir) [] w
             else let (status, str, w) = tmuxremote_do_init se homeDir (ar_productId a) (ar_deviceId a)
                                           (me_tty e) (me_keyStorageEnv e) (me_stdin e) w
                  in finish_main status (make_directories homeDir)
                       (case str of None \<Rightarrow> [] | Some s \<Rightarrow> [PairingText s]) w)
         else if ar_addUser a \<noteq> None then
           with_home e a w (\<lambda>homeDir.
             let (status, str, fs) = tmuxremote_do_add_user se homeDir (ar_addUser a) (kw_files w)
             in finish_main status [] (case str of None \<Rightarrow> [] | Some s \<Rightarrow> [PairingText s]) (w\<lparr>kw_files := fs\<rparr>))
         else if ar_removeUser a \<noteq> None then
           with_home e a w (\<lambda>homeDir.
             let (status, fs) = tmuxremote_do_remove_user se homeDir (the (ar_removeUser a)) (kw_files w)
             in finish_main status [] [] (w\<lparr>kw_files := fs\<rparr>))
         else if ar_listUsers a then
           with_home e a w (\<lambda>homeDir.
             case tmuxremote_do_list_users se homeDir (kw_files w) of
               None \<Rightarrow> finish_main False [] [] w
             | Some lines \<Rightarrow> finish_main True [] [UsersText lines] w)
         else if ar_moveDeviceKey a \<noteq> None then
           with_home e a w (\<lambda>homeDir.
             let (status, w) = tmuxremote_do_move_device_key se homeDir (ar_moveDeviceKey a) w
             in finish_main status [] [] w)
         else
           with_home e a w (\<lambda>homeDir.
             agent_result (make_directories homeDir)
               (run_agent (me_agent e) (a\<lparr>ar_homeDir := Some homeDir\<rparr>) (me_slices e) w)))"

section \<open>The order of the calls\<close>

text \<open>
  What a component may assume of its caller: the rules for the calls, as a partial function on what is
  held.  A service runs only on a started device and in a live application record, is stopped before the device
  is closed and the device before the service is released; the stream listener is released after the
  monitor thread has ended and before the control listener.
\<close>

datatype service_status = Absent | Serving | Stopping

record held =
  h_app :: bool
  h_pid :: bool
  h_device :: bool
  h_started :: bool
  h_stopped :: bool
  h_config :: bool
  h_iam :: bool
  h_monitor :: bool
  h_events :: bool
  h_service :: "service \<Rightarrow> service_status"

definition nothing_held :: held where
  "nothing_held = \<lparr>h_app = False, h_pid = False, h_device = False, h_started = False, h_stopped = False,
     h_config = False, h_iam = False, h_monitor = False, h_events = False, h_service = (\<lambda>_. Absent)\<rparr>"

fun use :: "agent_op \<Rightarrow> held \<Rightarrow> held option" where
  "use AppInit h = (if h_app h then None else Some (h\<lparr>h_app := True\<rparr>))"
| "use AppDeinit h =
     (if h_app h \<and> list_all (\<lambda>s. h_service h s = Absent) services then Some (h\<lparr>h_app := False\<rparr>) else None)"
| "use (WritePidFile _) h = Some (h\<lparr>h_pid := True\<rparr>)"
| "use (UnlinkPidFile _) h = Some (h\<lparr>h_pid := False\<rparr>)"
| "use DeviceNew h = (if h_device h then None else Some (h\<lparr>h_device := True\<rparr>))"
| "use DeviceFree h =
     (if h_device h \<and> (h_started h \<longrightarrow> h_stopped h) \<and> \<not> h_events h \<and> list_all (\<lambda>s. h_service h s = Absent) services
      then Some (h\<lparr>h_device := False, h_started := False, h_stopped := False\<rparr>) else None)"
| "use ConfigLoad h = (if h_config h then None else Some (h\<lparr>h_config := True\<rparr>))"
| "use ConfigDeinit h = (if h_config h then Some (h\<lparr>h_config := False\<rparr>) else None)"
| "use (SetPrivateKey _) h = (if h_device h \<and> \<not> h_started h then Some h else None)"
| "use (SetIds _ _) h = (if h_device h \<and> \<not> h_started h then Some h else None)"
| "use IamInit h = (if h_app h \<and> h_device h \<and> \<not> h_iam h then Some (h\<lparr>h_iam := True\<rparr>) else None)"
| "use IamDeinit h =
     (if h_iam h \<and> h_device h \<and> h_stopped h \<and> list_all (\<lambda>s. h_service h s = Absent) services
      then Some (h\<lparr>h_iam := False\<rparr>) else None)"
| "use (DeviceStart ok) h = (if h_device h \<and> h_iam h \<and> \<not> h_started h then Some (h\<lparr>h_started := ok\<rparr>) else None)"
| "use DeviceClose h =
     (if h_started h \<and> \<not> h_stopped h \<and> list_all (\<lambda>s. h_service h s = Stopping) services then Some h else None)"
| "use DeviceStop h = (if h_started h \<and> \<not> h_stopped h then Some (h\<lparr>h_stopped := True\<rparr>) else None)"
| "use (ServiceInit s) h =
     (if h_app h \<and> h_iam h \<and> h_started h \<and> \<not> h_stopped h \<and> h_service h s = Absent
      then Some (h\<lparr>h_service := (h_service h)(s := Serving), h_monitor := (s = ControlStreamListener \<or> h_monitor h)\<rparr>)
      else None)"
| "use (ServiceStop s) h =
     (if h_service h s = Serving then Some (h\<lparr>h_service := (h_service h)(s := Stopping)\<rparr>) else None)"
| "use JoinMonitor h =
     (if h_monitor h \<and> h_service h ControlStreamListener = Stopping then Some (h\<lparr>h_monitor := False\<rparr>) else None)"
| "use (ServiceDeinit s) h =
     (if h_app h \<and> h_service h s = Stopping \<and> h_stopped h \<and>
         (s = StreamListener \<longrightarrow> \<not> h_monitor h \<and> h_service h ControlStreamListener = Stopping) \<and>
         (s = ControlStreamListener \<longrightarrow> h_service h StreamListener = Absent)
      then Some (h\<lparr>h_service := (h_service h)(s := Absent)\<rparr>) else None)"
| "use EventsInit h = (if h_started h \<and> \<not> h_events h then Some (h\<lparr>h_events := True\<rparr>) else None)"
| "use EventsFree h = (if h_events h \<and> h_stopped h then Some (h\<lparr>h_events := False\<rparr>) else None)"
| "use _ h = Some h"

definition after_calls :: "agent_op list \<Rightarrow> held option" where
  "after_calls ops = fold_opt (\<lambda>h x. use x h) nothing_held ops"

section \<open>Lemmas\<close>

lemma calls_simps [simp]:
  "run_ops (calls ops r) = run_ops r @ ops" "run_world (calls ops r) = run_world r" "run_app (calls ops r) = run_app r"
  "run_ops (with_app f r) = run_ops r" "run_world (with_app f r) = run_world r" "run_app (with_app f r) = f (run_app r)"
  by (simp_all add: calls_def with_app_def)

lemma after_calls_append: "after_calls (ops @ xs) = after_calls ops \<bind> (\<lambda>h. fold_opt (\<lambda>h x. use x h) h xs)"
  by (simp add: after_calls_def fold_opt_append)

lemma services_simps [simp]:
  "services = [CoapResize, CoapSessions, CoapAttach, CoapCreate, CoapStatus, StreamListener, ControlStreamListener]"
  "coap_handlers = [CoapResize, CoapSessions, CoapAttach, CoapCreate, CoapStatus]"
  by (simp_all add: services_def coap_handlers_def)

text \<open>Reasoning about the parts of the start: what holds on an early return, and on going on.\<close>

fun start_post :: "(agent_run \<Rightarrow> bool) \<Rightarrow> (agent_run \<Rightarrow> bool) \<Rightarrow> ('a \<Rightarrow> bool) \<Rightarrow> 'a start \<Rightarrow> bool" where
  "start_post F X P (ReturnFalse r) = F r"
| "start_post F X P (ParentExits r) = X r"
| "start_post F X P (Continue x) = P x"

lemma start_post_then:
  "start_post F X P m \<Longrightarrow> (\<And>x. P x \<Longrightarrow> start_post F X Q (f x)) \<Longrightarrow> start_post F X Q (and_then m f)"
  by (cases m) auto

definition pid_written :: "agent_op list \<Rightarrow> bool" where
  "pid_written ops \<longleftrightarrow> (\<exists>p. WritePidFile p \<in> set ops)"

lemma pid_written_append [simp]: "pid_written (ops @ xs) \<longleftrightarrow> pid_written ops \<or> pid_written xs"
  by (auto simp: pid_written_def)

lemma pid_written_Cons [simp]: "pid_written (x # xs) \<longleftrightarrow> (\<exists>p. x = WritePidFile p) \<or> pid_written xs"
  by (auto simp: pid_written_def)

lemma pid_written_Nil [simp]: "\<not> pid_written []"
  by (simp add: pid_written_def)

definition stage :: "args \<Rightarrow> held \<Rightarrow> agent_run \<Rightarrow> bool" where
  "stage a h r \<longleftrightarrow> after_calls (run_ops r) = Some (h\<lparr>h_pid := pid_written (run_ops r)\<rparr>) \<and>
     (pid_written (run_ops r) \<longrightarrow> ar_background a) \<and> (IamInit \<in> set (run_ops r) \<longleftrightarrow> h_iam h)"

definition aborted :: "args \<Rightarrow> agent_run \<Rightarrow> bool" where
  "aborted a r \<longleftrightarrow> after_calls (run_ops r) = Some (nothing_held\<lparr>h_pid := pid_written (run_ops r),
     h_iam := (IamInit \<in> set (run_ops r))\<rparr>)"

abbreviation h_alone :: held where "h_alone \<equiv> nothing_held\<lparr>h_app := True\<rparr>"
abbreviation h_dev :: held where "h_dev \<equiv> h_alone\<lparr>h_device := True\<rparr>"
abbreviation h_cfg :: held where "h_cfg \<equiv> h_dev\<lparr>h_config := True\<rparr>"
abbreviation h_user :: held where "h_user \<equiv> h_cfg\<lparr>h_iam := True\<rparr>"
abbreviation h_run :: held where "h_run \<equiv> h_user\<lparr>h_started := True\<rparr>"
abbreviation h_serve :: held where
  "h_serve \<equiv> h_run\<lparr>h_monitor := True, h_events := True, h_service := (\<lambda>_. Serving)\<rparr>"

lemmas stage_simps = stage_def aborted_def after_calls_append deinit_app_def free_device_def fail_configured_def nothing_held_def

abbreviation part :: "args \<Rightarrow> ('a \<Rightarrow> bool) \<Rightarrow> 'a start \<Rightarrow> bool" where
  "part a \<equiv> start_post (aborted a) (\<lambda>r. run_ops r = [AppInit])"

lemma daemonize_part:
  "part a (stage a h_alone) (daemonize e a homeDir \<lparr>run_ops = [AppInit], run_world = w, run_app = app\<rparr>)"
  by (simp add: daemonize_def stage_simps) (simp add: after_calls_def nothing_held_def)

lemma new_device_part: "stage a h_alone r \<Longrightarrow> part a (stage a h_dev) (new_device e a homeDir r)"
  by (simp add: new_device_def stage_simps)

lemma load_configs_part: "stage a h_dev r \<Longrightarrow> part a (\<lambda>(dc, r). stage a h_cfg r) (load_configs e homeDir r)"
  by (simp add: load_configs_def stage_simps Let_def split: prod.splits option.splits)

lemma choose_key_file_part:
  "stage a h_cfg r \<Longrightarrow> part a (\<lambda>(f, r). stage a h_cfg r) (choose_key_file e homeDir dc r)"
  by (simp add: choose_key_file_def stage_simps Let_def split: prod.splits option.splits)

lemma settings_keep: "h_device h \<Longrightarrow> \<not> h_started h \<Longrightarrow> fold_opt (\<lambda>h x. use x h) h (device_settings a dc) = Some h"
  by (simp add: device_settings_def split: option.splits)

lemma settings_ops: "\<not> pid_written (device_settings a dc)" "IamInit \<notin> set (device_settings a dc)"
  by (auto simp: device_settings_def split: option.splits)

lemma load_key_part:
  "case kr of (f, r) \<Rightarrow> stage a h_cfg r \<Longrightarrow> part a (stage a h_cfg) (load_key e a useKeychain dc kr)"
  by (simp add: load_key_def stage_simps settings_keep settings_ops fold_opt_append Let_def split: prod.splits option.splits)

lemma init_iam_part: "stage a h_cfg r \<Longrightarrow> part a (stage a h_user) (init_iam e homeDir r)"
  by (simp add: init_iam_def stage_simps Let_def split: prod.splits option.splits)

lemma start_device_part: "stage a h_user r \<Longrightarrow> part a (stage a h_run) (start_device e r)"
  by (simp add: start_device_def stage_simps Let_def)

lemma init_services:
  "distinct ss \<Longrightarrow> h_app h \<Longrightarrow> h_iam h \<Longrightarrow> h_started h \<Longrightarrow> \<not> h_stopped h \<Longrightarrow> \<forall>s \<in> set ss. h_service h s = Absent \<Longrightarrow>
     fold_opt (\<lambda>h x. use x h) h (map ServiceInit ss) =
       Some (h\<lparr>h_service := (\<lambda>s. if s \<in> set ss then Serving else h_service h s),
               h_monitor := (ControlStreamListener \<in> set ss \<or> h_monitor h)\<rparr>)"
proof (induction ss arbitrary: h)
  case Nil
  then show ?case by simp
next
  case (Cons s ss)
  let ?h = "h\<lparr>h_service := (h_service h)(s := Serving), h_monitor := (s = ControlStreamListener \<or> h_monitor h)\<rparr>"
  have "fold_opt (\<lambda>h x. use x h) ?h (map ServiceInit ss) =
      Some (?h\<lparr>h_service := (\<lambda>t. if t \<in> set ss then Serving else h_service ?h t),
               h_monitor := (ControlStreamListener \<in> set ss \<or> h_monitor ?h)\<rparr>)"
    using Cons.prems by (intro Cons.IH) auto
  moreover have "(\<lambda>t. if t \<in> set ss then Serving else ((h_service h)(s := Serving)) t) =
      (\<lambda>t. if t \<in> set (s # ss) then Serving else h_service h t)" by auto
  moreover have "(ControlStreamListener \<in> set ss \<or> s = ControlStreamListener \<or> h_monitor h) =
      (ControlStreamListener \<in> set (s # ss) \<or> h_monitor h)" by auto
  ultimately show ?case using Cons.prems by (simp cong del: if_weak_cong)
qed

lemma stop_services_each:
  "distinct ss \<Longrightarrow> \<forall>s \<in> set ss. h_service h s = Serving \<Longrightarrow>
     fold_opt (\<lambda>h x. use x h) h (map ServiceStop ss) =
       Some (h\<lparr>h_service := (\<lambda>s. if s \<in> set ss then Stopping else h_service h s)\<rparr>)"
proof (induction ss arbitrary: h)
  case Nil
  then show ?case by simp
next
  case (Cons s ss)
  let ?h = "h\<lparr>h_service := (h_service h)(s := Stopping)\<rparr>"
  have "fold_opt (\<lambda>h x. use x h) ?h (map ServiceStop ss) =
      Some (?h\<lparr>h_service := (\<lambda>t. if t \<in> set ss then Stopping else h_service ?h t)\<rparr>)"
    using Cons.prems by (intro Cons.IH) auto
  moreover have "(\<lambda>t. if t \<in> set ss then Stopping else ((h_service h)(s := Stopping)) t) =
      (\<lambda>t. if t \<in> set (s # ss) then Stopping else h_service h t)" by auto
  ultimately show ?case using Cons.prems by (simp cong del: if_weak_cong)
qed

lemma service_ops [simp]:
  "\<not> pid_written (map ServiceInit ss)" "IamInit \<notin> set (map ServiceInit ss)"
  "\<not> pid_written (map ServiceStop ss)" "IamInit \<notin> set (map ServiceStop ss)"
  by (auto simp: pid_written_def)

lemma all_services: "s \<in> set services" "distinct services"
  by (cases s) simp_all

lemma start_services_part: "stage a h_run r \<Longrightarrow> stage a h_serve (start_services e a dc r)"
  unfolding start_services_def stage_def calls_simps after_calls_append fold_opt_append
  using all_services
  by (simp add: init_services nothing_held_def del: services_simps)


lemma start_agent_part: "part a (stage a h_serve) (start_agent e a w)"
proof -
  have rest: "part a (stage a h_serve)
      (and_then (choose_key_file e homeDir dc r) (\<lambda>kr. and_then (load_key e a b dc kr) (\<lambda>r.
         and_then (init_iam e homeDir r) (\<lambda>r. and_then (start_device e r) (\<lambda>r.
           Continue (start_services e a dc r))))))" if "stage a h_cfg r" for r dc b homeDir
    by (rule start_post_then [OF choose_key_file_part [OF that]],
        rule start_post_then [OF load_key_part], assumption,
        rule start_post_then [OF init_iam_part], assumption,
        rule start_post_then [OF start_device_part], assumption)
       (simp add: start_services_part del: services_simps)
  show ?thesis
    unfolding start_agent_def Let_def
    by (rule start_post_then [OF daemonize_part], rule start_post_then [OF new_device_part], assumption,
        rule start_post_then [OF load_configs_part], assumption)
       (auto intro: rest)
qed

text \<open>The calls of the shut-down.\<close>

definition end_ops :: "args \<Rightarrow> nat \<Rightarrow> agent_op list" where
  "end_ops a n = stop_services @ release_services n @
     (if ar_background a then [UnlinkPidFile (pid_path (the (ar_homeDir a)))] else []) @
     [ConfigDeinit, IamDeinit] @ [AppDeinit] @ [DeviceFree]"

lemma stop_services_calls:
  "fold_opt (\<lambda>h x. use x h) (h_serve\<lparr>h_pid := b\<rparr>) stop_services =
     Some (h_serve\<lparr>h_pid := b, h_service := (\<lambda>_. Stopping)\<rparr>)"
  unfolding stop_services_def fold_opt_append
  using all_services by (simp add: stop_services_each nothing_held_def list_all_iff del: services_simps)

lemma all_updated: "(\<lambda>_. x)(CoapResize := y, CoapSessions := y, CoapAttach := y, CoapCreate := y, CoapStatus := y,
    StreamListener := y, ControlStreamListener := y) = (\<lambda>_. y)"
proof
  fix s
  show "((\<lambda>_. x)(CoapResize := y, CoapSessions := y, CoapAttach := y, CoapCreate := y, CoapStatus := y,
    StreamListener := y, ControlStreamListener := y)) s = y" by (cases s) simp_all
qed

lemma end_calls:
  "b \<longrightarrow> ar_background a \<Longrightarrow>
     fold_opt (\<lambda>h x. use x h) (h_serve\<lparr>h_pid := b\<rparr>) (end_ops a n) = Some nothing_held"
  unfolding end_ops_def fold_opt_append stop_services_calls
  by (auto simp: release_services_def nothing_held_def all_updated)

lemma end_ops_simps: "\<not> pid_written (end_ops a n)" "IamInit \<notin> set (end_ops a n)"
  by (simp_all add: end_ops_def stop_services_def release_services_def)

lemma run_agent_started:
  assumes "start_agent e a w = Continue r0" and "main_wait slices watching = Some (s, rest)"
  shows "\<exists>r. run_agent e a slices w = Returned True r \<and> run_world r = run_world r0 \<and>
    run_ops r = run_ops r0 @ end_ops a (fst (close_wait 0 rest (s\<lparr>ws_closing := True\<rparr>)))"
  using assms by (auto simp: run_agent_def end_ops_def Let_def deinit_app_def free_device_def split: prod.splits)

lemma run_agent_ends:
  assumes "run_agent e a slices w = Returned True r"
  obtains r0 s rest where "start_agent e a w = Continue r0" "main_wait slices watching = Some (s, rest)"
    "run_world r = run_world r0"
    "run_ops r = run_ops r0 @ end_ops a (fst (close_wait 0 rest (s\<lparr>ws_closing := True\<rparr>)))"
proof -
  from assms obtain r0 s rest where s: "start_agent e a w = Continue r0" "main_wait slices watching = Some (s, rest)"
    by (auto simp: run_agent_def split: start.splits option.splits prod.splits)
  from run_agent_started [OF this] assms that [OF s] show ?thesis by auto
qed

section \<open>Properties\<close>

text \<open>
  C23: the agent gives everything back, in an order its components allow.  Every call it makes obeys the
  rules above, in every run: no service runs on a device that is not started or in a released
  application record, services are stopped before the device is closed and released after it, and the stream listener's
  mutexes outlive the monitor thread.  When \<open>run_agent\<close> returns, nothing is held, except that a failed start
  leaves the IAM module with its saver thread once that is initialised, and the PID file.
\<close>

theorem agent_calls_are_ordered:
  "case run_agent e a slices w of
     Returned ok r \<Rightarrow> after_calls (run_ops r) = Some (nothing_held\<lparr>
       h_pid := (\<not> ok \<and> (\<exists>p. WritePidFile p \<in> set (run_ops r))), h_iam := (\<not> ok \<and> IamInit \<in> set (run_ops r))\<rparr>)
   | ProcessExit r \<Rightarrow> run_ops r = [AppInit]
   | StillRunning r \<Rightarrow> \<exists>h. after_calls (run_ops r) = Some h \<and> h_started h \<and> (\<forall>s. h_service h s = Serving)"
proof (cases "start_agent e a w")
  case (ReturnFalse r)
  with start_agent_part [of a e w] show ?thesis by (simp add: run_agent_def aborted_def pid_written_def)
next
  case (ParentExits r)
  with start_agent_part [of a e w] show ?thesis by (simp add: run_agent_def)
next
  case (Continue r)
  with start_agent_part [of a e w]
  have h: "after_calls (run_ops r) = Some (h_serve\<lparr>h_pid := pid_written (run_ops r)\<rparr>)"
    "pid_written (run_ops r) \<longrightarrow> ar_background a" by (simp_all add: stage_def)
  show ?thesis
  proof (cases "main_wait slices watching")
    case None
    with Continue h show ?thesis by (simp add: run_agent_def)
  next
    case (Some x)
    obtain s rest where x: "x = (s, rest)" by force
    with run_agent_started [OF Continue] Some obtain r' where r': "run_agent e a slices w = Returned True r'"
      "run_ops r' = run_ops r @ end_ops a (fst (close_wait 0 rest (s\<lparr>ws_closing := True\<rparr>)))" by blast
    have "after_calls (run_ops r') = Some nothing_held"
      unfolding r'(2) after_calls_append h(1) using end_calls [OF h(2)] by simp
    with r'(1) show ?thesis by (simp add: nothing_held_def)
  qed
qed


section \<open>The end of the agent\<close>

text \<open>What ends the wait: a signal, a failing event listener, or the device's own end.\<close>

fun stops :: "agent_event \<Rightarrow> bool" where
  "stops Signal = True"
| "stops (EventResolved ev) \<longleftrightarrow> ev = None \<or> ev = Some NABTO_DEVICE_EVENT_CLOSED"
| "stops CloseResolved = False"

definition waits :: "wait_state \<Rightarrow> bool" where
  "waits s \<longleftrightarrow> ws_signalCount s = 0 \<and> ws_active s \<and> ws_armed s"

lemma deliver_waits: "waits s \<Longrightarrow> if stops ev then \<not> (ws_signalCount (deliver ev s) = 0 \<and> ws_active (deliver ev s)) else waits (deliver ev s)"
  by (cases ev) (auto simp: waits_def signal_handler_def device_event_callback_def start_wait_for_device_event_def
      device_close_callback_def split: option.splits device_event.splits)

lemma deliver_ended:
  "\<not> (ws_signalCount s = 0 \<and> ws_active s) \<Longrightarrow> \<not> (ws_signalCount (deliver ev s) = 0 \<and> ws_active (deliver ev s))"
  by (cases ev) (auto simp: signal_handler_def device_event_callback_def start_wait_for_device_event_def
      device_close_callback_def split: option.splits device_event.splits)

lemma deliver_all_ended:
  "\<not> (ws_signalCount s = 0 \<and> ws_active s) \<Longrightarrow> \<not> (ws_signalCount (fold deliver evs s) = 0 \<and> ws_active (fold deliver evs s))"
proof (induction evs arbitrary: s)
  case (Cons ev evs)
  from Cons.IH [OF deliver_ended [OF Cons.prems]] show ?case by simp
qed simp

lemma deliver_all:
  "waits s \<Longrightarrow> if list_ex stops evs then \<not> (ws_signalCount (fold deliver evs s) = 0 \<and> ws_active (fold deliver evs s))
     else waits (fold deliver evs s)"
proof (induction evs arbitrary: s)
  case (Cons ev evs)
  show ?case
  proof (cases "stops ev")
    case True
    then have "\<not> (ws_signalCount (deliver ev s) = 0 \<and> ws_active (deliver ev s))"
      using deliver_waits [OF Cons.prems, of ev] by simp
    from deliver_all_ended [OF this] True show ?thesis by simp
  next
    case False
    then have "waits (deliver ev s)" using deliver_waits [OF Cons.prems, of ev] by simp
    from Cons.IH [OF this] False show ?thesis by simp
  qed
qed simp

lemma main_wait_ends: "waits s \<Longrightarrow> main_wait slices s = None \<longleftrightarrow> \<not> list_ex (list_ex stops) slices"
proof (induction slices arbitrary: s)
  case Nil
  then show ?case by (simp add: main_wait.simps waits_def)
next
  case (Cons evs slices)
  have step: "main_wait (evs # slices) s = main_wait slices (fold deliver evs s)"
    using Cons.prems by (subst main_wait.simps) (simp add: waits_def)
  show ?case
  proof (cases "list_ex stops evs")
    case True
    then have "\<not> (ws_signalCount (fold deliver evs s) = 0 \<and> ws_active (fold deliver evs s))"
      using deliver_all [OF Cons.prems, of evs] by simp
    with True show ?thesis unfolding step by (subst main_wait.simps) simp
  next
    case False
    then have "waits (fold deliver evs s)" using deliver_all [OF Cons.prems, of evs] by simp
    from Cons.IH [OF this] False show ?thesis unfolding step by simp
  qed
qed

lemma close_wait_bound: "n \<le> 50 \<Longrightarrow> fst (close_wait n slices s) \<le> 50"
proof (induction n slices s rule: close_wait.induct)
  case (1 n slices s)
  then show ?case by (subst close_wait.simps) simp
qed

lemma watching_waits: "waits watching"
  by (simp add: watching_def waits_def start_wait_for_device_event_def)



section \<open>The identity of the agent\<close>

text \<open>The key a start gets, without the calls around it.\<close>

definition start_key :: "agent_env \<Rightarrow> string \<Rightarrow> key_world \<Rightarrow> key_outcome option" where
  "start_key e homeDir w =
     (let k = se_key (ae_setup e); legacy = legacy_key_file homeDir
      in case ae_load_device_config e (kw_files w) (device_config_file homeDir) of
           None \<Rightarrow> None
         | Some dc \<Rightarrow>
             (case tmuxremote_device_key_file_path (ke_mem k) (Some homeDir) (Some (dc_productId dc)) (Some (dc_deviceId dc)) of
                None \<Rightarrow> None
              | Some file \<Rightarrow>
                  let (ok, fs) = tmuxremote_ensure_namespaced_key_file k (kw_files w) (Some legacy) (Some file)
                  in map_option (\<lambda>keyFile. tmuxremote_load_or_create_private_key k (w\<lparr>kw_files := fs\<rparr>) keyFile
                         (Some (dc_productId dc)) (Some (dc_deviceId dc))
                         (tmuxremote_config_get_keychain_key k w (device_config_file homeDir)))
                       (if ok then Some file else strdup (ke_mem k) legacy)))"

definition keys_set :: "agent_op list \<Rightarrow> string set" where
  "keys_set ops = {k. SetPrivateKey k \<in> set ops}"

lemma keys_set_simps [simp]:
  "keys_set [] = {}" "keys_set (xs @ ys) = keys_set xs \<union> keys_set ys"
  "keys_set (x # xs) = (case x of SetPrivateKey k \<Rightarrow> {k} | _ \<Rightarrow> {}) \<union> keys_set xs"
  by (auto simp: keys_set_def split: agent_op.splits)

lemma keys_set_services [simp]: "keys_set (map ServiceInit ss) = {}" "keys_set (map ServiceStop ss) = {}"
  "keys_set (map ServiceDeinit ss) = {}" "keys_set (device_settings a dc) = {}"
  by (auto simp: keys_set_def device_settings_def split: option.splits)

definition unkeyed :: "key_world \<Rightarrow> agent_run \<Rightarrow> bool" where
  "unkeyed w r \<longleftrightarrow> keys_set (run_ops r) = {} \<and> run_world r = w"

definition keyed :: "agent_env \<Rightarrow> string \<Rightarrow> key_world \<Rightarrow> agent_run \<Rightarrow> bool" where
  "keyed e homeDir w r \<longleftrightarrow> (\<exists>k used. keys_set (run_ops r) = {k} \<and> start_key e homeDir w = Some (Some k, used, run_world r))"

abbreviation key_part :: "agent_env \<Rightarrow> string \<Rightarrow> key_world \<Rightarrow> ('a \<Rightarrow> bool) \<Rightarrow> 'a start \<Rightarrow> bool" where
  "key_part e homeDir w \<equiv> start_post (\<lambda>r. keys_set (run_ops r) = {} \<or> keyed e homeDir w r) (\<lambda>r. keys_set (run_ops r) = {})"

lemmas key_simps = unkeyed_def keyed_def deinit_app_def free_device_def fail_configured_def

lemma daemonize_key:
  "key_part e homeDir w (unkeyed w) (daemonize e a homeDir \<lparr>run_ops = [AppInit], run_world = w, run_app = app\<rparr>)"
  by (simp add: daemonize_def key_simps)

lemma new_device_key: "unkeyed w r \<Longrightarrow> key_part e homeDir w (unkeyed w) (new_device e a homeDir r)"
  by (simp add: new_device_def key_simps)

lemma load_configs_key:
  "unkeyed w r \<Longrightarrow> key_part e homeDir w (\<lambda>(dc, r). unkeyed w r \<and>
     ae_load_device_config e (kw_files w) (device_config_file homeDir) = Some dc) (load_configs e homeDir r)"
  by (simp add: load_configs_def key_simps Let_def split: prod.splits option.splits)

lemma load_key_key:
  assumes "unkeyed w r" and "ae_load_device_config e (kw_files w) (device_config_file homeDir) = Some dc"
    and "useKeychain = tmuxremote_config_get_keychain_key (se_key (ae_setup e)) w (device_config_file homeDir)"
  shows "key_part e homeDir w (keyed e homeDir w)
    (and_then (choose_key_file e homeDir dc r) (load_key e a useKeychain dc))"
  using assms
  by (auto simp: choose_key_file_def load_key_def start_key_def key_simps Let_def split: prod.splits option.splits)

lemma init_iam_key: "keyed e homeDir w r \<Longrightarrow> key_part e homeDir w (keyed e homeDir w) (init_iam e homeDir r)"
  by (simp add: init_iam_def key_simps Let_def split: prod.splits option.splits)

lemma start_device_key: "keyed e homeDir w r \<Longrightarrow> key_part e homeDir w (keyed e homeDir w) (start_device e r)"
  by (simp add: start_device_def key_simps Let_def)

lemma and_then_assoc: "and_then m (\<lambda>x. and_then (f x) g) = and_then (and_then m f) g"
  by (cases m) simp_all

lemma start_agent_key:
  "key_part e (the (ar_homeDir a)) w (keyed e (the (ar_homeDir a)) w) (start_agent e a w)"
proof -
  let ?h = "the (ar_homeDir a)"
  have services: "keyed e ?h w (start_services e a dc r)" if "keyed e ?h w r" for dc r
    using that by (simp add: start_services_def keyed_def del: services_simps)
  have rest: "key_part e ?h w (keyed e ?h w)
      (and_then (choose_key_file e ?h dc r) (\<lambda>kr. and_then (load_key e a
         (tmuxremote_config_get_keychain_key (se_key (ae_setup e)) (run_world r) (device_config_file ?h)) dc kr) (\<lambda>r.
         and_then (init_iam e ?h r) (\<lambda>r. and_then (start_device e r) (\<lambda>r.
           Continue (start_services e a dc r))))))"
    if "unkeyed w r" "ae_load_device_config e (kw_files w) (device_config_file ?h) = Some dc" for r dc
    using that(1) unfolding and_then_assoc
    by (intro start_post_then [OF start_post_then [OF start_post_then [OF load_key_key [OF that] init_iam_key] start_device_key]])
       (simp_all add: unkeyed_def services)
  show ?thesis
    unfolding start_agent_def Let_def
    by (rule start_post_then [OF daemonize_key], rule start_post_then [OF new_device_key], assumption,
        rule start_post_then [OF load_configs_key], assumption)
       (auto intro: rest)
qed


text \<open>
  Documented behaviour of the SDK's key file function and of a working file system and keychain: a key that was
  loaded or created is in its file, and such a file gives that key again.
\<close>

definition key_files_work :: "key_env \<Rightarrow> bool" where
  "key_files_work k \<longleftrightarrow> (\<forall>fs p key fs'. ke_load_or_create k fs p = (Some key, fs') \<longrightarrow>
     fs' p = Some key \<and> (\<forall>q. q \<noteq> p \<longrightarrow> fs' q = fs q) \<and>
     (\<forall>fs2. fs2 p = Some key \<longrightarrow> ke_load_or_create k fs2 p = (Some key, fs2)))"

definition identity_env :: "key_env \<Rightarrow> bool" where
  "identity_env k \<longleftrightarrow> key_env_ok k \<and> keychain_works k \<and> key_files_work k \<and>
     (\<forall>fs p. ke_load k fs p = fs p) \<and> (\<forall>fs p s. fst (ke_write k fs p s))"

lemma identity_envD:
  assumes "identity_env k"
  shows "key_env_ok k" "keychain_works k" "ke_load k fs p = fs p" "fst (ke_write k fs p s)" "ke_mem k n" "key_files_work k"
  using assms by (simp_all add: identity_env_def keychain_works_def)

lemma key_files_workD:
  assumes "key_files_work k" and "ke_load_or_create k fs p = (Some key, fs')"
  shows "fs' p = Some key" "q \<noteq> p \<Longrightarrow> fs' q = fs q" "fs2 p = Some key \<Longrightarrow> ke_load_or_create k fs2 p = (Some key, fs2)"
proof -
  note works = assms(1) [unfolded key_files_work_def, THEN spec, THEN spec, THEN spec, THEN spec, THEN mp, OF assms(2)]
  show "fs' p = Some key" using works by (rule conjunct1)
  show "fs' q = fs q" if "q \<noteq> p" using works [THEN conjunct2, THEN conjunct1, THEN spec, THEN mp, OF that] .
  show "ke_load_or_create k fs2 p = (Some key, fs2)" if "fs2 p = Some key"
    using works [THEN conjunct2, THEN conjunct2, THEN spec [of _ fs2]] that by (rule mp)
qed

lemma key_from_file:
  "\<not> b \<or> \<not> ke_apple k \<or> tmuxremote_keychain_account_for_device (ke_mem k) p d = None \<Longrightarrow>
     tmuxremote_load_or_create_private_key k w file p d b = load_or_create_file_key k w file"
  unfolding tmuxremote_load_or_create_private_key_def by (cases b; cases "ke_apple k") simp_all

lemma key_cases:
  assumes "tmuxremote_load_or_create_private_key k w file p d b = (Some key, used, w')"
  obtains (keychain) account where "used" "b" "ke_apple k" "tmuxremote_keychain_account_for_device (ke_mem k) p d = Some account"
      "kw_files w' = kw_files w" "ke_set_private_key k key"
      "tmuxremote_keychain_load_private_key_slot k w account = Some key \<and> w' = w \<or>
       tmuxremote_keychain_save_private_key_slot k w account key = (True, w')"
  | (keyfile) "\<not> used" "load_or_create_file_key k w file = (Some key, False, w')"
      "\<not> b \<or> \<not> ke_apple k \<or> tmuxremote_keychain_account_for_device (ke_mem k) p d = None"
proof (cases "\<not> b \<or> \<not> ke_apple k \<or> tmuxremote_keychain_account_for_device (ke_mem k) p d = None")
  case True
  then have "load_or_create_file_key k w file = (Some key, used, w')"
    using assms by (simp add: key_from_file)
  with True show ?thesis
    by (intro keyfile) (auto simp: load_or_create_file_key_def Let_def split: prod.splits)
next
  case False
  have files: "kw_files w' = kw_files w" if "tmuxremote_keychain_save_private_key_slot k w a s = (True, w')" for a s
    using that by (auto simp: tmuxremote_keychain_save_private_key_slot_def split: if_splits prod.splits)
  from False assms show ?thesis
    by (auto simp: tmuxremote_load_or_create_private_key_def dest: files
        split: if_splits option.splits prod.splits intro!: keychain)
qed

lemma key_stable:
  assumes env: "identity_env k" and key: "tmuxremote_load_or_create_private_key k w file p d b = (Some key, used, w')"
    and same: "kw_keychain w2 = kw_keychain w'" "\<not> used \<Longrightarrow> kw_files w2 file = kw_files w' file"
  shows "tmuxremote_load_or_create_private_key k w2 file p d b = (Some key, used, w2)"
  using key
proof (cases rule: key_cases)
  case (keychain account)
  from keychain(7) have "tmuxremote_keychain_load_private_key_slot k w' account = Some key"
  proof
    assume "tmuxremote_keychain_save_private_key_slot k w account key = (True, w')"
    then have "ke_cf k" "kw_keychain w' account = Some key"
      using identity_envD(2) [OF env]
      by (auto simp: tmuxremote_keychain_save_private_key_slot_def keychain_works_def split: if_splits prod.splits)
    then show ?thesis using identity_envD(2,5) [OF env]
      by (simp add: tmuxremote_keychain_load_private_key_slot_def keychain_works_def)
  qed simp
  then have "tmuxremote_keychain_load_private_key_slot k w2 account = Some key"
    unfolding tmuxremote_keychain_load_private_key_slot_def same(1) .
  with keychain show ?thesis by (simp add: tmuxremote_load_or_create_private_key_def)
next
  case keyfile
  then obtain fs where fs: "ke_load_or_create k (kw_files w) file = (Some key, fs)" "w' = w\<lparr>kw_files := fs\<rparr>"
    by (auto simp: load_or_create_file_key_def split: prod.splits)
  have "kw_files w2 file = Some key" using same(2) keyfile(1) fs(2) key_files_workD(1) [OF identity_envD(6) [OF env] fs(1)] by simp
  with key_files_workD(3) [OF identity_envD(6) [OF env] fs(1), of "kw_files w2"] keyfile(1,3) show ?thesis
    by (simp add: key_from_file load_or_create_file_key_def)
qed

lemma key_frame:
  assumes "identity_env k" and "tmuxremote_load_or_create_private_key k w file p d b = (Some key, used, w')"
  shows "q \<noteq> file \<Longrightarrow> kw_files w' q = kw_files w q"
  using assms(2)
proof (cases rule: key_cases)
  case keyfile
  then show "q \<noteq> file \<Longrightarrow> ?thesis"
    using key_files_workD(2) [OF identity_envD(6) [OF assms(1)]] by (auto simp: load_or_create_file_key_def split: prod.splits)
qed simp

lemma ensure_works:
  assumes "identity_env k"
  obtains fs' where "tmuxremote_ensure_namespaced_key_file k fs (Some legacy) (Some file) = (True, fs')"
    "\<And>q. q \<noteq> file \<Longrightarrow> fs' q = fs q" "fs file \<noteq> None \<Longrightarrow> fs' = fs"
proof -
  let ?r = "tmuxremote_ensure_namespaced_key_file k fs (Some legacy) (Some file)"
  have ok: "fst ?r" "fs file \<noteq> None \<Longrightarrow> snd ?r = fs"
    using identity_envD(3,4) [OF assms] env_exists [OF identity_envD(1) [OF assms]]
    by (auto simp: tmuxremote_ensure_namespaced_key_file_def split: option.splits)
  then have r: "?r = (True, snd ?r)" by (metis prod.collapse)
  with legacy_key_is_migrated [OF identity_envD(1) [OF assms] r] ok(2) that show ?thesis by blast
qed

lemma key_file_distinct:
  assumes "tmuxremote_device_key_file_path al (Some home) p d = Some file"
  shows "file \<noteq> device_config_file home" "file \<noteq> iam_state_file home"
proof -
  have differ: "home @ ''/keys/'' @ x \<noteq> take 511 (home @ c # y # z)" if "y \<noteq> CHR ''k''" for x c y z
  proof
    assume eq: "home @ ''/keys/'' @ x = take 511 (home @ c # y # z)"
    have "length home + 6 \<le> 511" using arg_cong [OF eq, of length] by (simp split: if_splits)
    then have "take 511 (home @ c # y # z) ! (length home + 1) = (home @ c # y # z) ! (length home + 1)"
      by (simp del: take_append)
    then have "(home @ c # y # z) ! (length home + 1) = (home @ ''/keys/'' @ x) ! (length home + 1)" unfolding eq by (rule sym)
    then show False using that by (simp add: nth_append)
  qed
  from assms obtain x where "file = home @ ''/keys/'' @ x"
    by (auto simp: tmuxremote_device_key_file_path_def Let_def split: option.splits if_splits)
  then show "file \<noteq> device_config_file home" "file \<noteq> iam_state_file home"
    using differ unfolding device_config_file_def iam_state_file_def by force+
qed


lemma key_file_holds:
  assumes "identity_env k" and "tmuxremote_load_or_create_private_key k w file p d b = (Some key, used, w')"
  shows "\<not> used \<Longrightarrow> kw_files w' file = Some key"
  using assms(2)
proof (cases rule: key_cases)
  case keyfile
  then show "\<not> used \<Longrightarrow> ?thesis"
    using key_files_workD(1) [OF identity_envD(6) [OF assms(1)]] by (auto simp: load_or_create_file_key_def split: prod.splits)
qed simp

lemma config_file_distinct: "length home < 480 \<Longrightarrow> device_config_file home \<noteq> iam_state_file home"
  by (simp add: device_config_file_def iam_state_file_def take_append)

lemma start_key_stable:
  assumes env: "identity_env (se_key (ae_setup e))"
    and short: "length homeDir < 480"
    and cfg: "\<And>fs fs' p. fs p = fs' p \<Longrightarrow> ae_load_device_config e fs p = ae_load_device_config e fs' p"
    and key: "start_key e homeDir w = Some (Some k, used, w')"
    and same: "kw_keychain w2 = kw_keychain w'" "\<And>q. q \<noteq> iam_state_file homeDir \<Longrightarrow> kw_files w2 q = kw_files w' q"
  shows "\<exists>w2'. start_key e homeDir w2 = Some (Some k, used, w2')"
proof -
  let ?k = "se_key (ae_setup e)" and ?cfg = "device_config_file homeDir" and ?legacy = "legacy_key_file homeDir"
  from key obtain dc kf where dc: "ae_load_device_config e (kw_files w) ?cfg = Some dc"
    and path: "tmuxremote_device_key_file_path (ke_mem ?k) (Some homeDir) (Some (dc_productId dc)) (Some (dc_deviceId dc)) = Some kf"
    by (auto simp: start_key_def Let_def split: option.splits)
  obtain fs where ens: "tmuxremote_ensure_namespaced_key_file ?k (kw_files w) (Some ?legacy) (Some kf) = (True, fs)"
    and other: "\<And>q. q \<noteq> kf \<Longrightarrow> fs q = kw_files w q" using ensure_works [OF env] by metis
  obtain fs2 where ens2: "tmuxremote_ensure_namespaced_key_file ?k (kw_files w2) (Some ?legacy) (Some kf) = (True, fs2)"
    and same2: "kw_files w2 kf \<noteq> None \<Longrightarrow> fs2 = kw_files w2" using ensure_works [OF env] by metis
  let ?b = "tmuxremote_config_get_keychain_key ?k w ?cfg"
  have get: "tmuxremote_load_or_create_private_key ?k (w\<lparr>kw_files := fs\<rparr>) kf (Some (dc_productId dc)) (Some (dc_deviceId dc)) ?b =
      (Some k, used, w')" using key dc path ens by (simp add: start_key_def Let_def)
  have distinct: "kf \<noteq> ?cfg" "kf \<noteq> iam_state_file homeDir" "?cfg \<noteq> iam_state_file homeDir"
    using key_file_distinct [OF path] config_file_distinct [OF short] by simp_all
  have files: "kw_files w2 ?cfg = kw_files w ?cfg"
    using same(2) [of ?cfg] key_frame [OF env get, of ?cfg] other [of ?cfg] distinct by simp
  have b: "tmuxremote_config_get_keychain_key ?k w2 ?cfg = ?b"
    by (simp add: tmuxremote_config_get_keychain_key_def identity_envD(3) [OF env] files)
  have "\<not> used \<Longrightarrow> fs2 kf = kw_files w' kf"
    using key_file_holds [OF env get] same2 same(2) [of kf] distinct by simp
  then have "tmuxremote_load_or_create_private_key ?k (w2\<lparr>kw_files := fs2\<rparr>) kf (Some (dc_productId dc)) (Some (dc_deviceId dc)) ?b =
      (Some k, used, w2\<lparr>kw_files := fs2\<rparr>)"
    using key_stable [OF env get, of "w2\<lparr>kw_files := fs2\<rparr>"] same(1) by simp
  with cfg [where fs = "kw_files w2" and fs' = "kw_files w" and p = ?cfg, OF files] dc path ens2 b show ?thesis by (simp add: start_key_def Let_def)
qed


lemma run_agent_key:
  "case run_agent e a slices w of
     Returned ok r \<Rightarrow> keys_set (run_ops r) = {} \<or> keyed e (the (ar_homeDir a)) w r
   | ProcessExit r \<Rightarrow> keys_set (run_ops r) = {}
   | StillRunning r \<Rightarrow> keyed e (the (ar_homeDir a)) w r"
proof (cases "start_agent e a w")
  case (Continue r)
  then have r: "keyed e (the (ar_homeDir a)) w r" using start_agent_key [of e a w] by simp
  show ?thesis
  proof (cases "main_wait slices watching")
    case (Some x)
    obtain s rest where "x = (s, rest)" by force
    with run_agent_started [OF Continue] Some obtain r' where "run_agent e a slices w = Returned True r'"
      "run_ops r' = run_ops r @ end_ops a (fst (close_wait 0 rest (s\<lparr>ws_closing := True\<rparr>)))" "run_world r' = run_world r" by blast
    moreover have "keys_set (end_ops a n) = {}" for n
      by (simp add: end_ops_def stop_services_def release_services_def)
    ultimately show ?thesis using r by (simp add: keyed_def)
  qed (use Continue r in \<open>simp add: run_agent_def\<close>)
qed (use start_agent_key [of e a w] in \<open>simp_all add: run_agent_def\<close>)

text \<open>The record of a run, whatever its outcome.\<close>

fun run_of :: "agent_outcome \<Rightarrow> agent_run" where
  "run_of (Returned ok r) = r"
| "run_of (ProcessExit r) = r"
| "run_of (StillRunning r) = r"

lemma run_agent_keyed:
  "k \<in> keys_set (run_ops (run_of (run_agent e a slices w))) \<Longrightarrow> keyed e (the (ar_homeDir a)) w (run_of (run_agent e a slices w))"
  using run_agent_key [where e = e and a = a and slices = slices and w = w] by (auto split: agent_outcome.splits)



text \<open>When every part works, the agent starts.\<close>

lemma start_agent_succeeds:
  assumes "ar_background a \<longrightarrow> ae_fork e = 0" "ae_device_new e" "ae_device_starts e"
    and pat: "load_pattern_configs (ae_parse_json e) (ae_default_json e) (ae_fopen e) (ke_mem (se_key (ae_setup e)))
      (the (ar_homeDir a)) (ae_dir e) = (True, c)"
    and key: "start_key e (the (ar_homeDir a)) w = Some (Some k, used, w')"
    and users: "tmuxremote_iam_load_state (se_iam (ae_setup e)) (ke_mem (se_key (ae_setup e))) (ae_accepts e)
      (kw_files w') (iam_state_file (the (ar_homeDir a))) = Some st"
  shows "\<exists>r. start_agent e a w = Continue r"
proof -
  let ?h = "the (ar_homeDir a)"
  have device: "\<exists>r'. start_device e r = Continue r'" for r using assms(3) by (simp add: start_device_def)
  have iam: "\<exists>r'. init_iam e ?h r = Continue r'" if "run_world r = w'" for r
    using users that by (cases st) (simp add: init_iam_def Let_def)
  have rest: "\<exists>r'. and_then (choose_key_file e ?h dc r) (load_key e a
         (tmuxremote_config_get_keychain_key (se_key (ae_setup e)) w (device_config_file ?h)) dc) = Continue r' \<and> run_world r' = w'"
    if "run_world r = w" "ae_load_device_config e (kw_files w) (device_config_file ?h) = Some dc" for r dc
    using key that by (auto simp: start_key_def choose_key_file_def load_key_def Let_def split: option.splits prod.splits)
  obtain dc where dc: "ae_load_device_config e (kw_files w) (device_config_file ?h) = Some dc"
    using key by (auto simp: start_key_def Let_def split: option.splits)
  have configs: "\<exists>r'. load_configs e ?h r = Continue (dc, r') \<and> run_world r' = w" if "run_world r = w" for r
    using pat dc that by (simp add: load_configs_def)
  have new: "\<exists>r'. new_device e a ?h r = Continue r' \<and> run_world r' = w" if "run_world r = w" for r
    using that assms(2) by (simp add: new_device_def)
  have daemon: "\<exists>r'. daemonize e a ?h r = Continue r' \<and> run_world r' = w" if "run_world r = w" for r
    using that assms(1) by (simp add: daemonize_def)
  have tail: "\<exists>r'. and_then (choose_key_file e ?h dc r) (\<lambda>kr. and_then (load_key e a
         (tmuxremote_config_get_keychain_key (se_key (ae_setup e)) (run_world r) (device_config_file ?h)) dc kr) (\<lambda>r.
         and_then (init_iam e ?h r) (\<lambda>r. and_then (start_device e r) (\<lambda>r.
           Continue (start_services e a dc r))))) = Continue r'" if "run_world r = w" for r
    using rest [OF that dc] iam device that unfolding and_then_assoc by (metis and_then.simps(3))
  show ?thesis
    unfolding start_agent_def Let_def
    using daemon new configs tail by (metis (no_types, lifting) agent_run.select_convs(2) and_then.simps(3) case_prod_conv)
qed

text \<open>An agent with one invited user, whose device starts.\<close>

definition desk :: agent_env where
  "desk = \<lparr>ae_setup = lap, ae_parse_json = (\<lambda>_. Some sample_json), ae_default_json = [], ae_fopen = (\<lambda>_. None), ae_dir = None,
     ae_load_device_config = (\<lambda>fs p. Some \<lparr>dc_productId = ''pr'', dc_deviceId = ''de'', dc_server = None, dc_serverPort = 0\<rparr>),
     ae_fork = 0, ae_pid_file_opens = True, ae_log_file_opens = True, ae_device_new = True, ae_thread_starts = True,
     ae_accepts = (\<lambda>_. True), ae_device_starts = True, ae_time = 0, ae_fingerprint = None, ae_dump = None,
     ae_tmux = (\<lambda>_. \<lparr>tr_started = False, tr_output = [], tr_status = None\<rparr>)\<rparr>"

definition desk_args :: args where "desk_args = args_init\<lparr>ar_homeDir := Some ''h'', ar_background := True\<rparr>"

abbreviation desk_world :: key_world where "desk_world \<equiv> \<lparr>kw_files = lap_files, kw_keychain = Map.empty\<rparr>"

abbreviation desk_kept :: key_world where
  "desk_kept \<equiv> \<lparr>kw_files = lap_files(''h/keys/pr_de.key'' \<mapsto> ''k''), kw_keychain = Map.empty\<rparr>"

lemma desk_patterns: "\<exists>c. load_pattern_configs (\<lambda>_. Some sample_json) [] (\<lambda>_. None) mem_ok ''h'' None = (True, Some c)"
  by (simp add: load_pattern_configs_def load_default_pattern_config_def sample_json_eval)

lemma desk_simps:
  "ae_setup desk = lap" "ae_load_device_config desk fs p =
     Some \<lparr>dc_productId = ''pr'', dc_deviceId = ''de'', dc_server = None, dc_serverPort = 0\<rparr>"
  "ae_parse_json desk = (\<lambda>_. Some sample_json)" "ae_default_json desk = []" "ae_fopen desk = (\<lambda>_. None)" "ae_dir desk = None"
  "ae_fork desk = 0" "ae_device_new desk" "ae_device_starts desk" "ae_accepts desk st" "the (ar_homeDir desk_args) = ''h''"
  by (simp_all add: desk_def desk_args_def)

lemma lap_key: "se_key lap = mac" "ie_load (se_iam lap) = lap_load"
  by (simp_all add: lap_def)

lemma mac_simps:
  "ke_mem mac = mem_ok" "ke_exists mac fs p = (fs p \<noteq> None)" "ke_load mac fs p = fs p"
  "ke_load_or_create mac fs p = (Some ''k'', fs(p \<mapsto> ''k''))"
  by (simp_all add: mac_def)

lemma mac_identity: "identity_env mac"
  by (simp add: identity_env_def mac_ok key_files_work_def keychain_works_def) (auto simp: mac_def)

lemma desk_key:
  "start_key desk ''h'' desk_world = Some (Some ''k'', False, desk_kept)"
  "start_key desk ''h'' desk_kept = Some (Some ''k'', False, desk_kept)"
  by (simp_all add: start_key_def desk_simps lap_key mac_simps tmuxremote_device_key_file_path_def
      tmuxremote_sanitize_key_component_def tmuxremote_is_key_component_char_def isalnum_def
      tmuxremote_ensure_namespaced_key_file_def tmuxremote_config_get_keychain_key_def keychain_setting_def
      legacy_key_file_def device_config_file_def lap_files_def
      tmuxremote_load_or_create_private_key_def load_or_create_file_key_def fun_upd_idem)

lemma desk_starts:
  assumes "start_key desk ''h'' w = Some (Some ''k'', False, desk_kept)"
  shows "\<exists>r. start_agent desk desk_args w = Continue r \<and> SetPrivateKey ''k'' \<in> set (run_ops r) \<and> run_world r = desk_kept"
proof -
  obtain c where c: "load_pattern_configs (\<lambda>_. Some sample_json) [] (\<lambda>_. None) mem_ok ''h'' None = (True, Some c)"
    using desk_patterns by blast
  have users: "\<exists>st. tmuxremote_iam_load_state (se_iam lap) mem_ok (ae_accepts desk) (kw_files desk_kept) (iam_state_file ''h'') = Some st"
    by (simp add: tmuxremote_iam_load_state_def lap_files_def iam_state_file_def lap_key lap_load_def desk_simps)
  then obtain r where r: "start_agent desk desk_args w = Continue r"
    using start_agent_succeeds [of desk_args desk "Some c" w "''k''" False desk_kept] c assms
    by (auto simp: desk_simps lap_key mac_simps)
  from start_agent_key [of desk desk_args w] r assms have "SetPrivateKey ''k'' \<in> set (run_ops r)" "run_world r = desk_kept"
    by (auto simp: keyed_def keys_set_def desk_simps)
  with r show ?thesis by blast
qed




text \<open>
  The embedded configuration is complete: with a parser that reads its text as the document, a start without pattern files gets
  three agents, the first with all three rules in their order, and every rule has what its kind needs.
\<close>

definition embedded_summary :: "pattern_config \<Rightarrow> (string option \<times> (string option \<times> prompt_type \<times> nat \<times> int) list) list" where
  "embedded_summary c = map (\<lambda>a. (ac_id a, map (\<lambda>d. (pd_id d, pd_type d, length (pd_actions d), pd_max_scan_lines d)) (ac_patterns a))) (pc_agents c)"

lemma embedded_document_parses:
  "map_option embedded_summary (tmuxremote_pattern_config_parse (\<lambda>_. Some default_pattern_document) mem_ok []) =
     Some [(Some ''claude-code'', [(Some ''numbered_prompt'', NUMBERED_MENU, 0, 8), (Some ''yes_no_prompt'', YES_NO, 2, 4),
              (Some ''diff_review'', ACCEPT_REJECT, 2, 4)]), (Some ''codex'', []), (Some ''aider'', [])]"
  by code_simp

theorem embedded_config_is_loaded:
  assumes "parse_json default_json = Some default_pattern_document"
  shows "\<exists>c. load_pattern_configs parse_json default_json fopen mem_ok homeDir None = (True, Some c) \<and> valid_config c \<and>
    embedded_summary c =
      [(Some ''claude-code'', [(Some ''numbered_prompt'', NUMBERED_MENU, 0, 8), (Some ''yes_no_prompt'', YES_NO, 2, 4),
          (Some ''diff_review'', ACCEPT_REJECT, 2, 4)]), (Some ''codex'', []), (Some ''aider'', [])]"
proof -
  have "tmuxremote_pattern_config_parse parse_json mem_ok default_json =
      tmuxremote_pattern_config_parse (\<lambda>_. Some default_pattern_document) mem_ok []"
    using assms by (simp add: tmuxremote_pattern_config_parse_def)
  with embedded_document_parses obtain c where c: "tmuxremote_pattern_config_parse parse_json mem_ok default_json = Some c"
    "embedded_summary c =
      [(Some ''claude-code'', [(Some ''numbered_prompt'', NUMBERED_MENU, 0, 8), (Some ''yes_no_prompt'', YES_NO, 2, 4),
          (Some ''diff_review'', ACCEPT_REJECT, 2, 4)]), (Some ''codex'', []), (Some ''aider'', [])]"
    by auto
  from config_parse_valid [OF c(1)] have "valid_config c" "pc_agents c \<noteq> []" by (simp_all add: valid_config_def)
  with c show ?thesis by (simp add: load_pattern_configs_def load_default_pattern_config_def)
qed

theorem embedded_config_is_loaded_witness:
  "\<exists>c. load_pattern_configs (\<lambda>_. Some default_pattern_document) [] (\<lambda>_. None) mem_ok ''h'' None = (True, Some c) \<and> valid_config c"
  using embedded_config_is_loaded [of "\<lambda>_. Some default_pattern_document" "[]" "\<lambda>_. None" "''h''"] by blast

end
