(* ===== verification/Message_Types.thy ===== *)
theory Message_Types
  imports Pty_Streams Prompt_Detector
begin

text \<open>
  The types of the messages on a control stream (\<open>DESIGN.md\<close>, section 7.7), and that what the agent
  sends has them: the prompt events of every history of a detector, and the lists of sessions.
\<close>

section \<open>Types\<close>

datatype message_type =
    TText "string \<Rightarrow> bool"
  | TUint nat
  | TArray nat nat message_type
  | TMap "(string \<times> message_type) list"

text \<open>\<open>TUint n\<close> are the integers of \<open>n\<close> bits, \<open>TArray m n t\<close> the arrays of \<open>m\<close> to \<open>n\<close> elements of type \<open>t\<close>.\<close>

fun conforms :: "message_type \<Rightarrow> cbor \<Rightarrow> bool" where
  "conforms (TText P) (CText s) = P s"
| "conforms (TUint n) (CUint w) = (unat w < 2 ^ n)"
| "conforms (TArray m n t) (CArray xs) = (m \<le> length xs \<and> length xs \<le> n \<and> list_all (conforms t) xs)"
| "conforms (TMap fts) (CMap ms) =
     (list_all (\<lambda>m. fst m \<in> fst ` set fts) ms \<and> distinct (map fst ms) \<and>
      list_all (\<lambda>f. case map_of ms (fst f) of None \<Rightarrow> False | Some v \<Rightarrow> conforms (snd f) v) fts)"
| "conforms _ _ = False"

definition hex_id :: "string \<Rightarrow> bool" where
  "hex_id s \<longleftrightarrow> length s = 16 \<and> list_all (\<lambda>c. c \<in> set ''0123456789abcdef'') s"

abbreviation any_text :: message_type where "any_text \<equiv> TText (\<lambda>_. True)"

definition prompt_message :: "string \<Rightarrow> message_type" where
  "prompt_message type = TMap [(''type'', TText (\<lambda>s. s = type)), (''instance_id'', TText hex_id), (''revision'', TUint 32),
     (''pattern_id'', any_text), (''pattern_type'', TText (\<lambda>s. s \<in> {''numbered_menu'', ''yes_no'', ''accept_reject''})),
     (''prompt'', any_text), (''actions'', TArray 1 16 (TMap [(''label'', any_text), (''keys'', any_text)]))]"

definition gone_message :: message_type where
  "gone_message = TMap [(''type'', TText (\<lambda>s. s = ''pattern_gone'')), (''instance_id'', TText hex_id)]"

definition session_type :: message_type where
  "session_type = TMap [(''name'', TText (\<lambda>s. length s < 64)), (''cols'', TUint 16), (''rows'', TUint 16), (''attached'', TUint 64)]"

definition sessions_message :: message_type where
  "sessions_message = TMap [(''type'', TText (\<lambda>s. s = ''sessions'')), (''sessions'', TArray 0 32 session_type)]"

definition control_message :: "cbor \<Rightarrow> bool" where
  "control_message m \<longleftrightarrow> conforms (prompt_message ''pattern_present'') m \<or> conforms (prompt_message ''pattern_update'') m \<or>
     conforms gone_message m \<or> conforms sessions_message m"

section \<open>Prompts\<close>

definition typed_instance :: "prompt_instance \<Rightarrow> bool" where
  "typed_instance i \<longleftrightarrow> inst_ok i \<and> hex_id (pi_instance_id i) \<and> 0 < pi_action_count i"

lemma hex_digit_char: "d < 16 \<Longrightarrow> hex_digit d \<in> set ''0123456789abcdef''"
proof -
  have "list_all (\<lambda>d. hex_digit d \<in> set ''0123456789abcdef'') [0..<16]" by code_simp
  then show "d < 16 \<Longrightarrow> ?thesis" by (simp only: list_all_iff set_upt) simp
qed

lemma hex_id_instance: "hex_id (build_instance_id c)"
proof -
  have "hex_digit (nat (uint w div 16 ^ i mod 16)) \<in> set ''0123456789abcdef''" for w :: "64 word" and i :: nat
    by (rule hex_digit_char) (simp add: nat_less_iff)
  then have "list_all (\<lambda>c. c \<in> set ''0123456789abcdef'') (hex16 w)" for w
    unfolding hex16_def list.pred_map by (simp only: comp_def list_all_iff) simp
  then show ?thesis unfolding hex_id_def build_instance_id_eq length_hex16 by blast
qed

text \<open>What an allocation failure leaves: copies that succeed keep the identity and the number of actions.\<close>

lemma copy_typed:
  assumes "typed_instance src" and "inst_ok dst" and "tmuxremote_prompt_instance_copy al src dst = (True, d)"
  shows "typed_instance d"
proof -
  have "inst_ok d" using copy_ok_inst [OF _ assms(2), of src al] assms(1,3) by (simp add: typed_instance_def)
  moreover have "pi_instance_id d = strncpy_term 32 (pi_instance_id src)" "pi_action_count d = pi_action_count src"
    using assms(1,3) inst_okD(4) [of src]
    by (auto simp: tmuxremote_prompt_instance_copy_def Let_def typed_instance_def split: option.splits prod.splits if_splits)
  moreover have "strncpy_term 32 (pi_instance_id src) = pi_instance_id src"
    using assms(1) by (simp add: typed_instance_def inst_ok_def strncpy_term_def)
  ultimately show ?thesis using assms(1) by (simp add: typed_instance_def)
qed

lemma revision_typed [simp]: "typed_instance (i\<lparr>pi_revision := r\<rparr>) = typed_instance i"
  by (simp add: typed_instance_def)

lemma candidate_typed:
  assumes c: "wf_candidate c" "0 < cd_action_count c"
    and i: "candidate_to_instance_with_id al c tmuxremote_prompt_instance_reset = (True, i)"
  shows "typed_instance i"
proof -
  obtain j where j: "tmuxremote_prompt_candidate_to_instance al c tmuxremote_prompt_instance_reset = (True, j)"
    "i = j\<lparr>pi_instance_id := build_instance_id c\<rparr>"
    using i by (auto simp: candidate_to_instance_with_id_def Let_def split: prod.splits if_splits)
  have "inst_ok j" using candidate_to_instance_ok [OF c(1) inst_ok_reset, of al] j(1) by simp
  moreover have "pi_action_count j = cd_action_count c"
    using j(1) by (auto simp: tmuxremote_prompt_candidate_to_instance_def Let_def split: prod.splits if_splits)
  ultimately show ?thesis using c(2) hex_id_instance [of c] j(2) by (simp add: typed_instance_def inst_ok_def)
qed

fun typed_event :: "prompt_event \<Rightarrow> bool" where
  "typed_event (Event PRESENT (Some i) x) = typed_instance i"
| "typed_event (Event UPDATE (Some i) x) = typed_instance i"
| "typed_event (Event GONE None x) = hex_id x"
| "typed_event _ = False"

definition typed_lifecycle :: "prompt_lifecycle \<Rightarrow> bool" where
  "typed_lifecycle lc \<longleftrightarrow> inst_ok (lc_active lc) \<and> (lc_has_active lc \<longrightarrow> typed_instance (lc_active lc))"

abbreviation typed_result :: "prompt_lifecycle \<times> prompt_event list \<Rightarrow> bool" where
  "typed_result r \<equiv> typed_lifecycle (fst r) \<and> list_all typed_event (snd r)"

lemma clear_typed: "typed_lifecycle lc \<Longrightarrow> typed_lifecycle (clear_active lc) \<and> \<not> lc_has_active (clear_active lc)"
  by (simp add: typed_lifecycle_def clear_active_def)

lemma activate_typed:
  assumes "typed_lifecycle lc" "\<not> lc_has_active lc" and "typed_instance i" and "type = PRESENT \<or> type = UPDATE"
  shows "typed_result (activate al lc i type b)"
proof -
  obtain ok a where c: "tmuxremote_prompt_instance_copy al i (lc_active lc) = (ok, a)" by force
  have "inst_ok a" using copy_ok_inst [of i "lc_active lc" al] assms(1,3) c by (simp add: typed_lifecycle_def typed_instance_def)
  moreover have "ok \<Longrightarrow> typed_instance a" using copy_typed [OF assms(3)] assms(1) c by (auto simp: typed_lifecycle_def)
  ultimately show ?thesis using c assms(2,4)
    by (auto simp: activate_def Let_def typed_lifecycle_def emit_event_def)
qed

lemma withdraw_typed:
  assumes "typed_lifecycle lc" "lc_has_active lc"
  shows "typed_result (withdraw lc) \<and> \<not> lc_has_active (fst (withdraw lc))"
proof -
  have "strncpy_term 32 (pi_instance_id (lc_active lc)) = pi_instance_id (lc_active lc)" "hex_id (pi_instance_id (lc_active lc))"
    using assms by (simp_all add: typed_lifecycle_def typed_instance_def inst_ok_def strncpy_term_def)
  then show ?thesis using clear_typed [OF assms(1)] by (simp add: withdraw_def Let_def emit_event_def)
qed

lemma lifecycle_upd_typed [simp]:
  "typed_lifecycle (lc\<lparr>lc_absence_snapshots := n\<rparr>) = typed_lifecycle lc"
  "typed_lifecycle (lc\<lparr>lc_last_sequence := q\<rparr>) = typed_lifecycle lc"
  "typed_lifecycle (end_suppression lc) = typed_lifecycle lc" "lc_has_active (end_suppression lc) = lc_has_active lc"
  "typed_lifecycle (lc\<lparr>lc_resolved_instance_id := x, lc_suppress_resolved := b\<rparr>) = typed_lifecycle lc"
  by (simp_all add: typed_lifecycle_def end_suppression_def)

lemma process_missing_typed: "typed_lifecycle lc \<Longrightarrow> lc_has_active lc \<Longrightarrow> typed_result (process_missing lc)"
  using withdraw_typed [of "lc\<lparr>lc_absence_snapshots := lc_absence_snapshots lc + 1\<rparr>"]
  by (simp add: process_missing_def Let_def case_prod_unfold)

lemma process_seen_typed:
  assumes "typed_lifecycle lc" "lc_has_active lc" and "typed_instance i"
  shows "typed_result (process_seen al lc i)"
proof -
  let ?lc = "lc\<lparr>lc_absence_snapshots := 0\<rparr>"
  have w: "typed_result (withdraw ?lc)" "\<not> lc_has_active (fst (withdraw ?lc))" using withdraw_typed [of ?lc] assms by simp_all
  have "typed_result (activate al (fst (withdraw ?lc)) (i\<lparr>pi_revision := 1\<rparr>) PRESENT False)"
    using w assms(3) by (intro activate_typed) simp_all
  moreover have "typed_result (activate al (clear_active ?lc) (i\<lparr>pi_revision := r\<rparr>) UPDATE False)" for r
    using clear_typed [of ?lc] assms by (intro activate_typed) simp_all
  ultimately show ?thesis using w assms(1) by (simp add: process_seen_def Let_def case_prod_unfold)
qed

lemma process_typed:
  assumes "typed_lifecycle lc" and "\<And>c. cand = Some c \<Longrightarrow> wf_candidate c \<and> 0 < cd_action_count c"
  shows "typed_result (tmuxremote_prompt_lifecycle_process al lc cand q)"
proof -
  obtain has sup i where inc: "incoming_instance al (lc\<lparr>lc_last_sequence := q\<rparr>) cand = (has, sup, i)" by (metis prod_cases3)
  have i: "typed_instance i" if "has"
    using inc that assms(2) candidate_typed
    by (fastforce simp: incoming_instance_def Let_def split: option.splits prod.splits if_splits)
  define lc1 where "lc1 = (if has \<and> lc_suppress_resolved lc then end_suppression (lc\<lparr>lc_last_sequence := q\<rparr>) else lc\<lparr>lc_last_sequence := q\<rparr>)"
  have lc1: "typed_lifecycle lc1" using assms(1) by (simp add: lc1_def)
  have "tmuxremote_prompt_lifecycle_process al lc cand q =
      (if \<not> lc_has_active lc1
         then
           if has then activate al lc1 (i\<lparr>pi_revision := 1\<rparr>) PRESENT True
           else if lc_suppress_resolved lc1 \<and> \<not> sup then (end_suppression lc1, [])
           else (lc1, [])
         else if \<not> has then process_missing lc1
         else process_seen al lc1 i)"
    unfolding tmuxremote_prompt_lifecycle_process_def Let_def inc lc1_def by simp
  then show ?thesis using lc1 i activate_typed [of lc1 "i\<lparr>pi_revision := 1\<rparr>"] process_missing_typed [of lc1] process_seen_typed [of lc1 i]
    by simp
qed

lemma resolve_typed: "typed_lifecycle lc \<Longrightarrow> typed_result (tmuxremote_prompt_lifecycle_resolve lc i)"
  using withdraw_typed
  by (simp add: tmuxremote_prompt_lifecycle_resolve_def Let_def split: option.splits)

section \<open>Histories of a detector\<close>

definition typed_trace :: "'re pcre2 \<Rightarrow> 're prompt_detector \<times> prompt_event list \<Rightarrow> bool" where
  "typed_trace api s \<longleftrightarrow> safe_trace api s \<and> typed_lifecycle (dt_lifecycle (fst s)) \<and> list_all typed_event (snd s)"

lemma forwarded_typed: "list_all typed_event es \<Longrightarrow> list_all typed_event (lifecycle_forwarder d es)"
  by (simp add: lifecycle_forwarder_def)

lemma match_typed:
  "tmuxremote_prompt_ruleset_match api al rules sn = Some (Some c) \<Longrightarrow> wf_candidate c \<and> 0 < cd_action_count c"
  using ruleset_match_sound fill_candidate(1,2) by blast

lemma detector_step_typed:
  assumes api: "pcre2_ok api" and wf: "wf_detector d" and lc: "typed_lifecycle (dt_lifecycle d)"
    and step: "detector_step api d x = Some (d', es)"
  shows "typed_lifecycle (dt_lifecycle d') \<and> list_all typed_event es"
proof (cases x)
  case (DFeed al data)
  show ?thesis
  proof (rule feed_cases [OF api wf, where al = al and data = data], goal_cases)
    case (1 d1)
    with step DFeed lc show ?thesis by simp
  next
    case (2 ts sn cand lc' es')
    have "wf_candidate c \<and> 0 < cd_action_count c" if "cand = Some c" for c
      using match_typed 2(1) that by blast
    then have "typed_result (tmuxremote_prompt_lifecycle_process al (dt_lifecycle d) cand (sn_sequence sn))"
      by (rule process_typed [OF lc])
    with 2(2) have "typed_result (lc', es')" by simp
    with 2(3) step DFeed show ?thesis by (auto intro: forwarded_typed)
  qed
next
  case (DResize al rows cols)
  with step lc show ?thesis by (auto simp: tmuxremote_prompt_detector_resize_def)
next
  case (DResolve i)
  with step resolve_typed [OF lc, of i] lc show ?thesis
    by (auto simp: tmuxremote_prompt_detector_resolve_def Let_def case_prod_unfold intro: forwarded_typed split: if_splits)
next
  case (DSelect al a)
  with step lc show ?thesis
    by (auto simp: tmuxremote_prompt_detector_select_agent_def reload_rules_locked_def Let_def split: option.splits)
qed

interpretation typed: byte_machine "detector_trace api" "typed_trace api" for api :: "'re pcre2"
proof
  fix s :: "'re prompt_detector \<times> prompt_event list" and x
  assume s: "typed_trace api s"
  then have "pcre2_ok api" "wf_detector (fst s)" "typed_lifecycle (dt_lifecycle (fst s))"
    by (simp_all add: typed_trace_def safe_trace_def)
  with detector_step_safe [of api "fst s" x] detector_step_typed [of api "fst s" x] s
  show "\<exists>s'. detector_trace api s x = Some s' \<and> typed_trace api s'"
    by (fastforce simp: typed_trace_def safe_trace_def detector_trace_def split: prod.splits)
qed

lemma typed_start:
  assumes "pcre2_ok api" and "\<And>c. config = Some c \<Longrightarrow> bounded_config c"
  shows "typed_trace api (detector_start api al config rows cols, [])"
  using assms start_wf [of config api al rows cols]
  by (simp add: typed_trace_def safe_trace_def typed_lifecycle_def lifecycle_start_def tmuxremote_prompt_lifecycle_init_def
      tmuxremote_prompt_lifecycle_set_callback_def)

section \<open>Messages\<close>

lemma instance_message_typed:
  assumes "typed_instance i"
  shows "conforms (prompt_message type) (instance_message type i)"
proof -
  have n: "0 < nat (pi_action_count i)" "nat (pi_action_count i) \<le> 16" "length (pi_actions i) = 16" and id: "hex_id (pi_instance_id i)"
    using assms by (auto simp: typed_instance_def inst_ok_def)
  have "conforms (TArray 1 16 (TMap [(''label'', any_text), (''keys'', any_text)])) (encode_actions i)"
    using n by (simp add: encode_actions_def string_or_empty_def list_all_iff)
  moreover have "unat (ucast (pi_revision i) :: 64 word) < 2 ^ 32"
    using unsigned_less [of "pi_revision i", where ?'a = nat] by (simp add: unsigned_ucast_eq take_bit_nat_eq_self)
  ultimately show ?thesis using id
    by (cases "pi_pattern_type i") (simp_all add: prompt_message_def instance_message_def string_or_empty_def)
qed

lemma session_typed: "length (tx_name s) < 64 \<Longrightarrow> conforms session_type (session_cbor s)"
proof -
  have "unat (ucast w :: 64 word) < 2 ^ 16" for w :: "16 word"
    using unsigned_less [of w, where ?'a = nat] by (simp add: unsigned_ucast_eq take_bit_nat_eq_self)
  moreover have "unat w < 2 ^ 64" for w :: "64 word" using unsigned_less [of w, where ?'a = nat] by simp
  ultimately show "length (tx_name s) < 64 \<Longrightarrow> ?thesis" by (simp add: session_type_def session_cbor_def del: power_numeral)
qed

text \<open>The frame of a message: its length in four bytes, and its encoding.\<close>

definition frame :: "(cbor \<Rightarrow> byte list) \<Rightarrow> cbor \<Rightarrow> byte list" where
  "frame enc m = be32 (word_of_nat (length (enc m))) @ enc m"

lemma encode_into_frame: "encode_into enc al n m = Some data \<Longrightarrow> data = frame enc m \<and> length (enc m) \<le> n"
  by (simp add: encode_into_def wrap_framed_payload_def frame_def split: if_splits)

lemma callback_typed:
  assumes "typed_event ev" and "prompt_stream_callback e ref ev = Some c"
  shows "\<exists>m. control_message m \<and> c = WantsTargets ref (frame (en_enc e) m) \<and> length (en_enc e m) \<le> 8192"
  using assms(1)
proof (cases ev rule: typed_event.cases)
  case (1 i x)
  then obtain data where "encode_into (en_enc e) (en_al e) 8192 (instance_message ''pattern_present'' i) = Some data" "c = WantsTargets ref data"
    using assms(2) by (auto simp: tmuxremote_control_stream_send_prompt_present_for_ref_def PROMPT_CBOR_MAX_def
        tmuxremote_prompt_protocol_encode_present_def encode_instance_message_def)
  with encode_into_frame instance_message_typed assms(1) 1 show ?thesis unfolding control_message_def by fastforce
next
  case (2 i x)
  then obtain data where "encode_into (en_enc e) (en_al e) 8192 (instance_message ''pattern_update'' i) = Some data" "c = WantsTargets ref data"
    using assms(2) by (auto simp: tmuxremote_control_stream_send_prompt_update_for_ref_def PROMPT_CBOR_MAX_def
        tmuxremote_prompt_protocol_encode_update_def encode_instance_message_def)
  with encode_into_frame instance_message_typed assms(1) 2 show ?thesis unfolding control_message_def by fastforce
next
  case (3 x)
  let ?m = "CMap [(''type'', CText ''pattern_gone''), (''instance_id'', CText x)]"
  from 3 obtain data where d: "encode_into (en_enc e) (en_al e) 128 ?m = Some data" "c = WantsTargets ref data"
    using assms(2) by (auto simp: tmuxremote_control_stream_send_prompt_gone_for_ref_def tmuxremote_prompt_protocol_encode_gone_def)
  have "control_message ?m" using assms(1) 3 by (simp add: control_message_def gone_message_def)
  with encode_into_frame [OF d(1)] d(2) show ?thesis by (intro exI [of _ ?m]) auto
qed simp_all

lemma encode_with_capacity_frame:
  "encode_with_capacity al bs n = Some data \<Longrightarrow> data = be32 (word_of_nat (length bs)) @ bs \<and> length bs < 65536"
proof (induction al bs n rule: encode_with_capacity.induct)
  case (1 al bs n)
  show ?case using 1(2) 1(1) [of "length bs - n"]
    by (subst (asm) encode_with_capacity.simps) (auto simp: Let_def split: if_splits)
qed



end
