(* ===== verification/Spec2Isabelle.thy ===== *)
theory Spec2Isabelle
  imports Prompt_Detector Prompt_Protocol Session_Map Coap_Handler Control_Threads Iam
    Client_Config Keychain Agent_Setup Pty_Relay Pty_Streams Client_Coap Client_Commands Child_Process Agent_Main Message_Types
begin

text \<open>
  A verification library for tmux-remote: an agent that makes the tmux sessions of a computer
  available to paired clients over Nabto connections, and its command line client.  The theories
  follow the C sources under \<open>src/agent/src\<close> and \<open>src/clients/cli/src\<close>; the definitions keep the
  names of the functions they translate.

  \<^bold>\<open>The program.\<close>  A client attaches to a session with a CoAP request, which puts the name and the
  size into the session map of the agent, and opens a stream.  The agent forks tmux on a pseudo
  terminal, relays the bytes in both directions, and feeds the output to a prompt detector: an
  emulated terminal, regular expressions over its rows, and a state machine that turns matches
  into present, update and gone events.  Control streams carry those events and the list of
  sessions to every client, and bring the resolutions of prompts back.  An IAM module decides who
  may do what; users are invited with a pairing string that the client reads and saves.

  \<^bold>\<open>Theories.\<close>
    \<^item> \<open>Prelude\<close>: C strings, checked array accesses, decimal numbers, allocators, bytes.
    \<^item> \<open>Terminal_State\<close> (\<open>tmuxremote_terminal_state.c\<close>): grid, cursor, control sequences, resize,
      snapshots.  No sequence of operations faults; feeding does not depend on the chunks; a
      snapshot shows the rows.
    \<^item> \<open>Prompt\<close>, \<open>Pattern_Config\<close>, \<open>Prompt_Rules\<close> (\<open>tmuxremote_prompt.c\<close>, \<open>_pattern_config.c\<close>,
      \<open>_prompt_rules.c\<close>, the loading of pattern files in \<open>main.c\<close>): prompts, rules from JSON, compiled
      rules and their match against a snapshot.  A detected prompt is on the screen; a numbered
      menu is complete.
    \<^item> \<open>Prompt_Lifecycle\<close>, \<open>Prompt_Detector\<close> (\<open>_prompt_lifecycle.c\<close>, \<open>_prompt_detector.c\<close>): the
      identity of a prompt, the state machine with its abstract specification and refinement, and
      the composition with terminal and rules.
    \<^item> \<open>Prompt_Protocol\<close>, \<open>Control_Stream\<close>, \<open>Control_Threads\<close> (\<open>_prompt_protocol.c\<close>,
      \<open>_control_stream.c\<close>): frames and messages, the frame reader, and the threads of the control
      streams with reference counts.
    \<^item> \<open>Session_Map\<close>, \<open>Tmux\<close>, \<open>Child_Process\<close>, \<open>Coap_Handler\<close>, \<open>Coap_Endpoints\<close> (\<open>_session.c\<close>, \<open>_tmux.c\<close>,
      \<open>_coap_*.c\<close>): the table of attachments as a finite map, tmux commands and their deadlines, the
      request queue and its worker, the five endpoints.
    \<^item> \<open>Pty_Relay\<close>, \<open>Pty_Streams\<close> (\<open>_stream.c\<close>): the loops that carry the bytes, and the life of a
      terminal stream from its acceptance to its clean-up under all interleavings.
    \<^item> \<open>Iam\<close>, \<open>Keychain\<close>, \<open>Agent_Setup\<close>, \<open>Agent_Banner\<close>, \<open>Agent_Main\<close> (\<open>_iam.c\<close>, \<open>_keychain.c\<close>, \<open>_init.c\<close>,
      \<open>_banner.c\<close>, \<open>_device.c\<close>, \<open>main.c\<close>): saving the IAM state, announcing pairings, the device key and
      its storages, initialisation and users, the start-up text, and the run of the agent from its
      arguments to its shut-down: its calls obey the order its components need, it ends when it is told
      to, and it keeps its identity from run to run.
    \<^item> \<open>Client_Config\<close>, \<open>Client_Coap\<close>, \<open>Client_Commands\<close> (\<open>tmuxremote_client_config.c\<close>, \<open>_client_util.c\<close>,
      \<open>_client_coap.c\<close>, \<open>_pair.c\<close>, \<open>_attach.c\<close>, \<open>_sessions.c\<close>, \<open>_devices.c\<close>, \<open>_rename.c\<close>, \<open>main.c\<close>): saved
      agents, requests, commands and the client's side of the relay.
    \<^item> \<open>Message_Types\<close>: the types of the messages on control streams, after \<open>DESIGN.md\<close>, and that every message
      of every history of a detector has them.
    \<^item> This theory: properties that span the agent and the client.

  \<^bold>\<open>State and effects.\<close>  A struct is a record, an enumeration a datatype, a 16, 32 or 64 bit unsigned
  integer a word; \<open>int\<close> values that cannot overflow, by a proved bound, are integers.  A function that
  changes state returns the new state.  Errors are values of \<open>option\<close> or of a sum type.  An access
  outside an array, a use after free or a signed overflow is the outer \<^const>\<open>None\<close>, and the safety
  properties say that it is not reached.  \<open>malloc\<close> is a parameter \<open>al\<close> of type \<open>alloc\<close> and may fail at
  any call.  Concurrent parts are step relations whose steps are the critical sections of the code;
  their invariants hold in every reachable state.  The finite lists that stand for what \<open>read\<close>,
  \<open>write\<close> or a future deliver can be cut anywhere, so a statement about all lists is one about every
  moment of a run; where a loop ends by itself that is proved separately.

  \<^bold>\<open>Interfaces.\<close>  Locales state what a component relies on, and are interpreted on the model of the
  component that provides it: a machine that is fed one element at a time and never faults (the terminal, the
  detector and its typed events), a source of events a client can follow (the lifecycle), the session
  table as a map, the two storages of the device key.

  \<^bold>\<open>Parameters.\<close>  Code outside the repository is an argument of the definitions: PCRE2, TinyCBOR, the
  JSON text parser and printer, gopt, the Nabto SDKs with their IAM module, the macOS keychain, tmux
  and POSIX input, output, processes and time.  What a property assumes of them is a named
  hypothesis of documented behaviour, such as that printing and parsing JSON gives the document
  back, and its witness instantiates it.

  \<^bold>\<open>Bounds.\<close>  The sizes are those of the code: 128 bytes of a control sequence, 16 actions of a prompt,
  8 sessions, 32 users and saved agents, 16 targets of a broadcast, frames of at most 65536 bytes,
  8192 bytes of an encoded message, 4096 bytes of a read.  There is no fuel: recursion is
  structural or has a measure, and the loops that wait for the clock have a termination property.

  \<^bold>\<open>Not modelled.\<close>  Log messages, the help text and the text of error messages; the descriptors of the
  daemon; terminal modes and signals of the client other
  than the size change; the interior of the SDK and its event loop; the iOS application; the
  test programs, except the reader of recordings, which is the specification of the format that the
  agent writes.
\<close>

section \<open>Attaching, from the client's request to the terminal\<close>

lemma attached_entry:
  assumes wf: "wf_map m" and r: "attach_session tmux m ref \<lparr>at_session = s, at_cols = ucast cols, at_rows = ucast rows,
      at_create = create\<rparr> = (Response 201, m', effects)"
  shows "\<exists>entry. tmuxremote_session_get m' ref = Some entry \<and> se_sessionName entry = s \<and>
    se_cols entry = cols \<and> se_rows entry = rows \<and> length s \<le> 60"
proof -
  have set: "tmuxremote_session_set m ref s cols rows = (True, m')" and valid: "tmuxremote_tmux_validate_session_name (Some s)"
    using r by (auto simp: attach_session_def ucast_16_64 case_prod_unfold Let_def prod_eq_iff split: if_splits)
  have "abs_map m' ref = Some (s, cols, rows)"
    using sessions.put_law [OF wf, of ref s cols rows] set valid_name(2) [OF valid] by (simp add: strncpy_term_id)
  then show ?thesis
    using valid_name(2) [OF valid] by (auto simp: abs_map_def tmuxremote_session_get_def attachment_of_def)
qed

text \<open>
  C14: an attached session is the one that is opened.  When the client's attach request succeeds
  and the client then opens its stream, the agent accepts the stream and sets it up for exactly the
  session and the terminal size of the request.
\<close>

theorem attached_session_is_opened:
  assumes wf: "wf_map m" and name: "NUL \<notin> set s" "length s \<le> 63"
    and cbor: "cbor_ok enc parse (attach_members s cols rows create)"
    and q: "rq_content_format_cbor q" "\<And>a. rq_allowed q a"
    and client: "tmuxremote_coap_attach enc
      (served ''/terminal/attach'' (\<lambda>q. fst (attach_handle_request tmux parse m q)) q) s cols rows create = Some True"
    and agent: "attach_handle_request tmux parse m (q\<lparr>rq_payload := Some (enc (attach_members s cols rows create))\<rparr>) =
      (response, m', effects)"
    and st: "ps_sessions st = m'" "ps_heap st x = Some a" "pa_streamRef a = rq_ref q"
    and e: "pe_accepted e" "tmuxremote_iam_check_access_ref (pe_check e) (rq_ref q) ''Terminal:Connect''" "pe_setup_thread e"
  shows "\<exists>st' a'. pty_stream_accepted e x st = Some st' \<and> ps_heap st' x = Some a' \<and> pa_sessionName a' = s \<and>
    pa_sessionCols a' = cols \<and> pa_sessionRows a' = rows \<and> pa_connectionRef a' = rq_ref q \<and>
    ps_setup st' x = Some SetupStart"
proof -
  note reach = attach_reaches_agent [OF name cbor q, where tmux = tmux and m = m]
  let ?a = "\<lparr>at_session = s, at_cols = ucast cols, at_rows = ucast rows, at_create = create\<rparr>"
  have "attach_session tmux m (rq_ref q) ?a = (response, m', effects)"
    unfolding reach(1) [symmetric] by (rule agent)
  moreover from this have "response = Response 201" using reach(2) client by simp
  ultimately have "attach_session tmux m (rq_ref q) ?a = (Response 201, m', effects)" by simp
  from attached_entry [OF wf this] obtain entry where "tmuxremote_session_get m' (rq_ref q) = Some entry"
    "se_sessionName entry = s" "se_cols entry = cols" "se_rows entry = rows" "length s \<le> 60" by blast
  with st e show ?thesis
    by (simp add: pty_stream_accepted_def strncpy_term_id TMUXREMOTE_SESSION_NAME_MAX_def)
qed

theorem attached_session_is_opened_witness:
  "\<exists>m' (st' :: 're pty_streams) a'. ps_sessions st' = m' \<and> ps_heap st' 0 = Some a' \<and> pa_sessionName a' = ''main'' \<and>
     pa_sessionCols a' = 80 \<and> pa_sessionRows a' = 24 \<and> ps_setup st' 0 = Some SetupStart"
proof -
  let ?m = tmuxremote_session_map_init and ?e = "all_well (undefined :: 're pcre2)"
  obtain response m' effects where h: "attach_handle_request good_tmux by_size ?m
      (paired_client\<lparr>rq_payload := Some (size_only (attach_members ''main'' 80 24 False))\<rparr>) = (response, m', effects)"
    by (metis prod_cases3)
  have cbor: "cbor_ok size_only by_size (attach_members ''main'' 80 24 False)"
    by (simp add: cbor_ok_def size_only_def by_size_def)
      (simp add: cbor_size_def attach_members_def resize_members_def head_size_def)
  have q: "rq_content_format_cbor paired_client" "\<And>a. rq_allowed paired_client a" "rq_ref paired_client = 5"
    by (simp_all add: paired_client_def)
  have "fst (attach_session good_tmux ?m 5
      \<lparr>at_session = ''main'', at_cols = ucast (80 :: 16 word), at_rows = ucast (24 :: 16 word), at_create = False\<rparr>) = Response 201"
    by code_simp
  then have client: "tmuxremote_coap_attach size_only (served ''/terminal/attach''
      (\<lambda>q. fst (attach_handle_request good_tmux by_size ?m q)) paired_client) ''main'' 80 24 False = Some True"
    using attach_reaches_agent(2) [OF _ _ cbor q(1,2), of good_tmux ?m] q(3) by simp
  let ?st = "(tmuxremote_stream_listener_init m')\<lparr>ps_heap := [0 \<mapsto> fresh_stream 5]\<rparr> :: 're pty_streams"
  have st: "ps_sessions ?st = m'" "ps_heap ?st 0 = Some (fresh_stream 5)" "pa_streamRef (fresh_stream 5) = rq_ref paired_client"
    by (simp_all add: tmuxremote_stream_listener_init_def fresh_stream_def q)
  have "pe_accepted ?e" "tmuxremote_iam_check_access_ref (pe_check ?e) (rq_ref paired_client) ''Terminal:Connect''"
    "pe_setup_thread ?e" by (simp_all add: all_well_def tmuxremote_iam_check_access_ref_def)
  from attached_session_is_opened [OF init_wf_map _ _ cbor q(1,2) client h st this] show ?thesis by auto
qed

section \<open>The bytes of a session, from end to end\<close>

text \<open>Only the last chunk can be missing from what the agent sent.\<close>

lemma relayed_futures: "prefix (concat (map chunk (filter pt_future (relayed ps)))) (concat (map chunk (relayed ps)))"
  by (induction ps rule: relayed.induct) auto

text \<open>
  C11: the bytes of a session arrive in order and unchanged.  Take any moment of a session, with
  partial, interrupted and failing writes on both sides, and streams that deliver a prefix of what
  was sent: what has been written to the agent's terminal is a prefix of what the user typed,
  and what has been written to the user's screen is a prefix of what the terminal printed.
\<close>

theorem session_bytes_arrive_in_order:
  assumes input: "prefix (received us) (sent (relay_loop ts))" "list_all st_fd_open us"
    and side: "side_ok api p" "py_sent p = []"
    and run: "pty_reader_thread api ps p = Some (p', ended)"
    and delivered: "prefix (received (map as_stream_turn rs)) (concat (py_sent p'))"
  shows "prefix (fst (stream_reader_thread us [])) (typed ts) \<and>
    prefix (fst (client_reader_thread rs [])) (concat (map chunk (relayed ps)))"
proof
  have "prefix (fst (stream_reader_thread us [])) (received us)"
    using stream_reader_prefix [OF input(2), of "[]"] by auto
  then show "prefix (fst (stream_reader_thread us [])) (typed ts)"
    using input(1) relay_loop_prefix prefix_order.trans by blast
  have "py_sent p' = map chunk (filter pt_future (relayed ps))"
    using pty_reader_result [OF side(1), of ps] run side(2) by (auto simp: relay_result_def)
  with delivered have "prefix (received (map as_stream_turn rs)) (concat (map chunk (relayed ps)))"
    using relayed_futures prefix_order.trans by metis
  moreover have "list_all st_fd_open (map as_stream_turn rs)" by (simp add: list_all_iff as_stream_turn_def)
  ultimately show "prefix (fst (client_reader_thread rs [])) (concat (map chunk (relayed ps)))"
    using stream_reader_prefix [of "map as_stream_turn rs" "[]"] prefix_order.trans
    by (fastforce simp: client_reader_is_stream_reader)
qed

definition typed_ls :: relay_turn where
  "typed_ls = \<lparr>rt_done = False, rt_winch = False, rt_size = None, rt_input = Some ''ls'', rt_written = True\<rparr>"

definition written_ls :: stream_turn where
  "written_ls = \<lparr>st_closing = False, st_future = True, st_read = Some ''ls'', st_fd_open = True, st_writes = [Wrote 2]\<rparr>"

definition shown_ok :: reader_turn where
  "shown_ok = \<lparr>ct_done = False, ct_read = Some ''lsok'', ct_writes = [Wrote 1, Interrupted, Wrote 3]\<rparr>"

theorem session_bytes_arrive_in_order_witness:
  "prefix (fst (stream_reader_thread [written_ls] [])) (typed [typed_ls]) \<and>
   prefix (fst (client_reader_thread [shown_ok] [])) (concat (map chunk (relayed two_turns)))"
proof -
  have side: "side_ok sample_pcre2 recording_side" "py_sent recording_side = []"
    by (simp_all add: side_ok_def sample_pcre2_ok recording_side_def)
  obtain p' ended where p': "pty_reader_thread sample_pcre2 two_turns recording_side = Some (p', ended)"
    "relay_result sample_pcre2 (relayed two_turns) recording_side p'"
    using pty_reader_result [OF side(1), of two_turns] by blast
  then have "concat (py_sent p') = ''lsok''" by (simp add: relay_result_def two_turns_def recording_side_def)
  with session_bytes_arrive_in_order [OF _ _ side p'(1), of "[written_ls]" "[typed_ls]" "[shown_ok]"] show ?thesis
    by (simp add: received_def typed_ls_def shown_ok_def written_ls_def as_stream_turn_def)
qed

end
